(* ===== verification/NcPrelude.thy ===== *)
theory NcPrelude
  imports Main "HOL-Library.Word" "HOL-Library.Monad_Syntax"
begin

text \<open>
  Prelude of the nutcracker development: the names of the machine types, the status codes
  of \<^verbatim>\<open>nc_util.h\<close>, the conversion rules of C that the sources rely on (a \<^verbatim>\<open>char\<close> is
  signed on the x86-64 targets the Makefiles build for), the theorem collections, and the
  lemmas on lists and options that the components share.

  Conventions of every theory.
  \<^item> A function that can crash or run into undefined behaviour returns an \<open>option\<close>; \<open>None\<close>
    is the crash (null dereference, access outside an object, division by zero), or, for a
    function that consumes answers of the operating system, that the answers ran out.
    Errors that the code reports are ordinary values (\<open>rstatus\<close>).
  \<^item> State is passed explicitly; an operation returns its result and the new state.
  \<^item> Logging (\<^verbatim>\<open>LOG_DEBUG\<close> and its kin) has no effect on the state and is left out.
\<close>

unbundle bit_operations_syntax

section \<open>Machine types and status codes\<close>

type_synonym byte = "8 word"
type_synonym u16 = "16 word"
type_synonym u32 = "32 word"
type_synonym u64 = "64 word"
type_synonym bytes = "byte list"

text \<open>\<open>rstatus_t\<close> and the \<^verbatim>\<open>NC_*\<close> codes of nc_util.h.\<close>

type_synonym rstatus = int

abbreviation (input) NC_OK :: rstatus where "NC_OK \<equiv> 0"
abbreviation (input) NC_ERROR :: rstatus where "NC_ERROR \<equiv> - 1"
abbreviation (input) NC_EAGAIN :: rstatus where "NC_EAGAIN \<equiv> - 2"
abbreviation (input) NC_ENOMEM :: rstatus where "NC_ENOMEM \<equiv> - 3"

text \<open>\<open>(uint32_t)c\<close> and \<open>(uint64_t)c\<close> for a plain \<open>char\<close>: the value is sign extended.\<close>

definition char_u32 :: "byte \<Rightarrow> u32" where
  "char_u32 c = signed c"

definition char_u64 :: "byte \<Rightarrow> u64" where
  "char_u64 c = signed c"

text \<open>\<open>(uint32_t)c\<close> for an \<open>unsigned char\<close>: zero extension.\<close>

definition uchar_u32 :: "byte \<Rightarrow> u32" where
  "uchar_u32 c = unsigned c"

section \<open>Theorem collections\<close>

named_theorems nc_defs \<open>definitions of the operations, unfolded to run them\<close>
named_theorems nc_state \<open>effect of the operations on the fields of the state\<close>
named_theorems nc_inv \<open>preservation of the invariants\<close>

section \<open>Bytes and words\<close>

lemma not_bit_7_ascii:
  assumes "(c::byte) < 0x80"
  shows "\<not> bit c 7"
proof
  assume "bit c 7"
  moreover have "uint c < 2 ^ 7" using assms by (simp add: word_less_def)
  then have "take_bit 7 (uint c) = uint c" by (intro take_bit_int_eq_self) simp_all
  ultimately have "bit (take_bit 7 (uint c)) 7" by (simp add: bit_uint_iff)
  then show False by (simp add: bit_take_bit_iff)
qed

text \<open>For the ASCII bytes the sign of \<open>char\<close> does not matter.\<close>

lemma char_u32_ascii:
  assumes "c < 0x80"
  shows "char_u32 c = uchar_u32 c"
proof (rule bit_word_eqI)
  fix n assume "n < LENGTH(32)"
  then show "bit (char_u32 c) n = bit (uchar_u32 c) n"
    using not_bit_7_ascii [OF assms] bit_imp_le_length [of c n]
    by (cases "n < 7"; cases "n = 7")
       (auto simp: char_u32_def uchar_u32_def bit_simps min_def)
qed

lemma bit_char_low:
  assumes "n < 8"
  shows "bit (char_u32 c) n \<longleftrightarrow> bit c n" and "bit (char_u64 c) n \<longleftrightarrow> bit c n"
  using assms by (cases "n = 7"; simp add: char_u32_def char_u64_def bit_simps min_def)+

lemma unat_ucast_up [simp]:
  "unat (ucast (x::u32) :: u64) = unat x" "unat (ucast (y::u16) :: u32) = unat y"
proof -
  have "unat x < 2 ^ 64" "unat y < 2 ^ 32"
    using unsigned_less [of x, where 'a = nat] unsigned_less [of y, where 'a = nat] by simp_all
  then show "unat (ucast x :: u64) = unat x" "unat (ucast y :: u32) = unat y"
    by (simp_all add: unsigned_ucast_eq take_bit_nat_eq_self)
qed

lemma unat_take_bit: "unat (take_bit n x) = unat x mod 2 ^ n"
  unfolding unsigned_take_bit_eq by (simp only: take_bit_eq_mod)

lemma unat_drop_bit: "unat (drop_bit n x) = unat x div 2 ^ n"
  unfolding unat_drop_bit_eq by (simp only: drop_bit_eq_div)

lemma char_u64_low: "ucast (char_u64 c) = char_u32 c"
  by (rule bit_word_eqI) (simp add: char_u64_def char_u32_def bit_simps)

lemma ucast_xor_u32: "ucast ((x::u64) XOR y) = (ucast x XOR ucast y :: u32)"
  by (rule bit_word_eqI) (simp add: bit_simps)

lemma take_bit_mult_32_64:
  "take_bit 32 (take_bit 64 x * take_bit 64 y) = take_bit 32 (x * (y::int))"
proof -
  have "take_bit 32 (take_bit 64 x * take_bit 64 y)
      = take_bit 32 (take_bit 32 (take_bit 64 x) * take_bit 32 (take_bit 64 y))"
    by (simp only: take_bit_mult)
  also have "\<dots> = take_bit 32 (take_bit 32 x * take_bit 32 y)" by simp
  also have "\<dots> = take_bit 32 (x * y)" by (rule take_bit_mult)
  finally show ?thesis .
qed

lemma ucast_mult_u32: "ucast ((x::u64) * y) = (ucast x * ucast y :: u32)"
  by transfer (simp add: take_bit_mult_32_64)

lemma u32_of_nat_neq_0: "0 < n \<Longrightarrow> n < 2 ^ 32 \<Longrightarrow> (word_of_nat n :: u32) \<noteq> 0"
proof
  assume n: "0 < n" "n < 2 ^ 32" and z: "(word_of_nat n :: u32) = 0"
  have "unat (word_of_nat n :: u32) = n" using n(2) by (simp add: unat_of_nat take_bit_nat_eq_self)
  with z n(1) show False by (metis less_irrefl unat_0)
qed

section \<open>Lists and options\<close>

lemma bind_SomeE:
  assumes "Option.bind m f = Some y"
  obtains x where "m = Some x" "f x = Some y"
  using assms by (auto simp: bind_eq_Some_conv)

lemma filter_neq_removeAll: "filter (\<lambda>y. y \<noteq> x) xs = removeAll x xs"
  by (induction xs) auto

lemma removeAll_distinct_hd: "distinct (x # xs) \<Longrightarrow> removeAll x (x # xs) = xs"
  by (simp add: removeAll_id)

end
