(* ===== verification/HashFnv.thy ===== *)
theory HashFnv
  imports NcPrelude
begin

text \<open>
  The Fowler-Noll-Vo hashes and the one-at-a-time hash of the class \<open>NcHashUtil\<close> in
  \<^verbatim>\<open>nc_hashkit.h\<close>. A key is the list of its \<open>key_length\<close> bytes. The accumulators keep the
  width of the source: 64 bits even in the 32-bit variants. The lemmas relate each loop to
  the published algorithm, which reads the octets as unsigned and works at 32 bits.
\<close>

section \<open>The loops of the source\<close>

definition FNV_64_INIT :: u64 where "FNV_64_INIT = 0xcbf29ce484222325"
definition FNV_64_PRIME :: u64 where "FNV_64_PRIME = 0x100000001b3"
definition FNV_32_INIT :: u32 where "FNV_32_INIT = 2166136261"
definition FNV_32_PRIME :: u32 where "FNV_32_PRIME = 16777619"

fun fnv164_loop :: "u64 \<Rightarrow> bytes \<Rightarrow> u64" where
  "fnv164_loop h [] = h"
| "fnv164_loop h (c # cs) = fnv164_loop ((h * FNV_64_PRIME) XOR char_u64 c) cs"

definition fnv164Hash :: "bytes \<Rightarrow> u32" where
  "fnv164Hash key = ucast (fnv164_loop FNV_64_INIT key)"

text \<open>\<open>hash ^= val; hash *= (uint32_t) FNV_64_PRIME\<close>: the prime is cut to 32 bits.\<close>

fun fnv164a_loop :: "u64 \<Rightarrow> bytes \<Rightarrow> u64" where
  "fnv164a_loop h [] = h"
| "fnv164a_loop h (c # cs) =
     fnv164a_loop ((h XOR ucast (char_u32 c)) * ucast (ucast FNV_64_PRIME :: u32)) cs"

definition fnv164aHash :: "bytes \<Rightarrow> u32" where
  "fnv164aHash key = ucast (fnv164a_loop FNV_64_INIT key)"

fun fnv132_loop :: "u64 \<Rightarrow> bytes \<Rightarrow> u64" where
  "fnv132_loop h [] = h"
| "fnv132_loop h (c # cs) =
     fnv132_loop ((h * ucast FNV_32_PRIME) XOR ucast (char_u32 c)) cs"

definition fnv132Hash :: "bytes \<Rightarrow> u32" where
  "fnv132Hash key = ucast (fnv132_loop (ucast FNV_32_INIT) key)"

fun fnv132a_loop :: "u64 \<Rightarrow> bytes \<Rightarrow> u64" where
  "fnv132a_loop h [] = h"
| "fnv132a_loop h (c # cs) =
     fnv132a_loop ((h XOR ucast (char_u32 c)) * ucast FNV_32_PRIME) cs"

definition fnv132aHash :: "bytes \<Rightarrow> u32" where
  "fnv132aHash key = ucast (fnv132a_loop (ucast FNV_32_INIT) key)"

text \<open>Bob Jenkins' one-at-a-time hash.\<close>

fun one_at_a_time_loop :: "u32 \<Rightarrow> bytes \<Rightarrow> u32" where
  "one_at_a_time_loop value [] = value"
| "one_at_a_time_loop value (c # cs) =
     (let value = value + char_u32 c;
          value = value + push_bit 10 value;
          value = value XOR drop_bit 6 value
      in one_at_a_time_loop value cs)"

definition one_at_a_timeHash :: "bytes \<Rightarrow> u32" where
  "one_at_a_timeHash key =
     (let value = one_at_a_time_loop 0 key;
          value = value + push_bit 3 value;
          value = value XOR drop_bit 11 value
      in value + push_bit 15 value)"

section \<open>The published algorithms\<close>

text \<open>
  FNV-1 multiplies and then mixes the octet in; FNV-1a mixes the octet in and then
  multiplies. Both read the octets as unsigned and work at one width throughout.
\<close>

definition fnv1_ref :: "'a::len word \<Rightarrow> 'a word \<Rightarrow> bytes \<Rightarrow> 'a word" where
  "fnv1_ref prime = foldl (\<lambda>h c. (h * prime) XOR unsigned c)"

definition fnv1a_ref :: "'a::len word \<Rightarrow> 'a word \<Rightarrow> bytes \<Rightarrow> 'a word" where
  "fnv1a_ref prime = foldl (\<lambda>h c. (h XOR unsigned c) * prime)"

definition ascii_key :: "bytes \<Rightarrow> bool" where
  "ascii_key key \<longleftrightarrow> (\<forall>c\<in>set key. c < 0x80)"

lemma ascii_key_Nil [simp]: "ascii_key []"
  by (simp add: ascii_key_def)

lemma ascii_key_Cons [simp]: "ascii_key (c # cs) \<longleftrightarrow> c < 0x80 \<and> ascii_key cs"
  by (simp add: ascii_key_def)

lemma char_u64_ascii:
  assumes "c < 0x80"
  shows "char_u64 c = unsigned c"
proof (rule bit_word_eqI)
  fix n assume "n < LENGTH(64)"
  then show "bit (char_u64 c) n = bit (unsigned c :: u64) n"
    using not_bit_7_ascii [OF assms] bit_imp_le_length [of c n]
    by (cases "n < 7"; cases "n = 7") (auto simp: char_u64_def bit_simps min_def)
qed

lemma fnv164_loop_ref: "ascii_key key \<Longrightarrow> fnv164_loop h key = fnv1_ref FNV_64_PRIME h key"
  by (induction key arbitrary: h) (simp_all add: fnv1_ref_def char_u64_ascii)

text \<open>The low 32 bits of the 64-bit accumulators follow a 32-bit recursion of their own.\<close>

lemma ucast_ucast_u32 [simp]: "(ucast (ucast (x::u32) :: u64) :: u32) = x"
  by (rule bit_word_eqI) (simp add: bit_simps)

lemma ucast_unsigned_u32: "(ucast (unsigned (c::byte) :: u64) :: u32) = unsigned c"
  by (rule bit_word_eqI) (simp add: bit_simps)

lemma fnv1_ref_low:
  "ucast (fnv1_ref p h key) = (fnv1_ref (ucast p) (ucast (h :: u64)) key :: u32)"
  by (induction key arbitrary: h)
     (simp_all add: fnv1_ref_def ucast_xor_u32 ucast_mult_u32 ucast_unsigned_u32)

lemma fnv1a_ref_low:
  "ucast (fnv1a_ref p h key) = (fnv1a_ref (ucast p) (ucast (h :: u64)) key :: u32)"
  by (induction key arbitrary: h)
     (simp_all add: fnv1a_ref_def ucast_xor_u32 ucast_mult_u32 ucast_unsigned_u32)

lemma fnv132_loop_low:
  "ascii_key key \<Longrightarrow> ucast (fnv132_loop h key) = fnv1_ref FNV_32_PRIME (ucast h) key"
  by (induction key arbitrary: h)
     (simp_all add: fnv1_ref_def ucast_xor_u32 ucast_mult_u32 char_u32_ascii uchar_u32_def)

lemma fnv132a_loop_low:
  "ascii_key key \<Longrightarrow> ucast (fnv132a_loop h key) = fnv1a_ref FNV_32_PRIME (ucast h) key"
  by (induction key arbitrary: h)
     (simp_all add: fnv1a_ref_def ucast_xor_u32 ucast_mult_u32 char_u32_ascii uchar_u32_def)

lemma fnv164a_loop_low:
  "ascii_key key \<Longrightarrow>
     ucast (fnv164a_loop h key) = fnv1a_ref (ucast FNV_64_PRIME :: u32) (ucast h) key"
  by (induction key arbitrary: h)
     (simp_all add: fnv1a_ref_def ucast_xor_u32 ucast_mult_u32 char_u32_ascii uchar_u32_def)

text \<open>C37. For every ASCII key the four FNV routines return the low 32 bits of the published
  FNV-1 and FNV-1a hashes of the key: the truncated prime of the 64-bit variant and the
  64-bit accumulator of the 32-bit variants make no difference to the result.\<close>

theorem fnv_hashes_published:
  assumes "ascii_key key"
  shows "fnv164Hash key = ucast (fnv1_ref FNV_64_PRIME FNV_64_INIT key)
       \<and> fnv164aHash key = ucast (fnv1a_ref FNV_64_PRIME FNV_64_INIT key)
       \<and> fnv132Hash key = fnv1_ref FNV_32_PRIME FNV_32_INIT key
       \<and> fnv132aHash key = fnv1a_ref FNV_32_PRIME FNV_32_INIT key"
  using assms
  by (simp add: fnv164Hash_def fnv164aHash_def fnv132Hash_def fnv132aHash_def
      fnv164_loop_ref fnv164a_loop_low fnv132_loop_low fnv132a_loop_low fnv1a_ref_low)

theorem fnv_hashes_published_witness:
  "ascii_key [0x66, 0x6f, 0x6f] \<and> fnv132aHash [0x66, 0x6f, 0x6f] = 0xa9f37ed7"
proof -
  have a: "ascii_key [0x66, 0x6f, 0x6f]" by simp
  have "fnv1a_ref FNV_32_PRIME FNV_32_INIT [0x66, 0x6f, 0x6f] = 0xa9f37ed7"
    by (simp add: fnv1a_ref_def FNV_32_PRIME_def FNV_32_INIT_def)
  with a fnv_hashes_published [OF a] show ?thesis by simp
qed

end
