(* ===== verification/HashCrc.thy ===== *)
theory HashCrc
  imports NcPrelude
begin

text \<open>
  The three cyclic redundancy checks of the class \<open>NcHashUtil\<close> in \<^verbatim>\<open>nc_hashkit.h\<close>, with
  their 256-entry tables. The locale \<open>crc_table\<close> states what a table must promise the
  loop that uses it (an entry is eight steps of the bitwise division); it is interpreted on
  the tables of the source, which gives the equivalence of the table loops with the bitwise
  algorithms.
\<close>

section \<open>The routines of the source\<close>

definition crc16tab :: "u16 list" where
  "crc16tab = concat [
   [0x0000, 0x1021, 0x2042, 0x3063, 0x4084, 0x50a5, 0x60c6, 0x70e7],
   [0x8108, 0x9129, 0xa14a, 0xb16b, 0xc18c, 0xd1ad, 0xe1ce, 0xf1ef],
   [0x1231, 0x0210, 0x3273, 0x2252, 0x52b5, 0x4294, 0x72f7, 0x62d6],
   [0x9339, 0x8318, 0xb37b, 0xa35a, 0xd3bd, 0xc39c, 0xf3ff, 0xe3de],
   [0x2462, 0x3443, 0x0420, 0x1401, 0x64e6, 0x74c7, 0x44a4, 0x5485],
   [0xa56a, 0xb54b, 0x8528, 0x9509, 0xe5ee, 0xf5cf, 0xc5ac, 0xd58d],
   [0x3653, 0x2672, 0x1611, 0x0630, 0x76d7, 0x66f6, 0x5695, 0x46b4],
   [0xb75b, 0xa77a, 0x9719, 0x8738, 0xf7df, 0xe7fe, 0xd79d, 0xc7bc],
   [0x48c4, 0x58e5, 0x6886, 0x78a7, 0x0840, 0x1861, 0x2802, 0x3823],
   [0xc9cc, 0xd9ed, 0xe98e, 0xf9af, 0x8948, 0x9969, 0xa90a, 0xb92b],
   [0x5af5, 0x4ad4, 0x7ab7, 0x6a96, 0x1a71, 0x0a50, 0x3a33, 0x2a12],
   [0xdbfd, 0xcbdc, 0xfbbf, 0xeb9e, 0x9b79, 0x8b58, 0xbb3b, 0xab1a],
   [0x6ca6, 0x7c87, 0x4ce4, 0x5cc5, 0x2c22, 0x3c03, 0x0c60, 0x1c41],
   [0xedae, 0xfd8f, 0xcdec, 0xddcd, 0xad2a, 0xbd0b, 0x8d68, 0x9d49],
   [0x7e97, 0x6eb6, 0x5ed5, 0x4ef4, 0x3e13, 0x2e32, 0x1e51, 0x0e70],
   [0xff9f, 0xefbe, 0xdfdd, 0xcffc, 0xbf1b, 0xaf3a, 0x9f59, 0x8f78],
   [0x9188, 0x81a9, 0xb1ca, 0xa1eb, 0xd10c, 0xc12d, 0xf14e, 0xe16f],
   [0x1080, 0x00a1, 0x30c2, 0x20e3, 0x5004, 0x4025, 0x7046, 0x6067],
   [0x83b9, 0x9398, 0xa3fb, 0xb3da, 0xc33d, 0xd31c, 0xe37f, 0xf35e],
   [0x02b1, 0x1290, 0x22f3, 0x32d2, 0x4235, 0x5214, 0x6277, 0x7256],
   [0xb5ea, 0xa5cb, 0x95a8, 0x8589, 0xf56e, 0xe54f, 0xd52c, 0xc50d],
   [0x34e2, 0x24c3, 0x14a0, 0x0481, 0x7466, 0x6447, 0x5424, 0x4405],
   [0xa7db, 0xb7fa, 0x8799, 0x97b8, 0xe75f, 0xf77e, 0xc71d, 0xd73c],
   [0x26d3, 0x36f2, 0x0691, 0x16b0, 0x6657, 0x7676, 0x4615, 0x5634],
   [0xd94c, 0xc96d, 0xf90e, 0xe92f, 0x99c8, 0x89e9, 0xb98a, 0xa9ab],
   [0x5844, 0x4865, 0x7806, 0x6827, 0x18c0, 0x08e1, 0x3882, 0x28a3],
   [0xcb7d, 0xdb5c, 0xeb3f, 0xfb1e, 0x8bf9, 0x9bd8, 0xabbb, 0xbb9a],
   [0x4a75, 0x5a54, 0x6a37, 0x7a16, 0x0af1, 0x1ad0, 0x2ab3, 0x3a92],
   [0xfd2e, 0xed0f, 0xdd6c, 0xcd4d, 0xbdaa, 0xad8b, 0x9de8, 0x8dc9],
   [0x7c26, 0x6c07, 0x5c64, 0x4c45, 0x3ca2, 0x2c83, 0x1ce0, 0x0cc1],
   [0xef1f, 0xff3e, 0xcf5d, 0xdf7c, 0xaf9b, 0xbfba, 0x8fd9, 0x9ff8],
   [0x6e17, 0x7e36, 0x4e55, 0x5e74, 0x2e93, 0x3eb2, 0x0ed1, 0x1ef0]]"

text \<open>
  The accumulator of \<open>crc16Hash\<close> is a \<open>uint32_t\<close> and is never cut back to 16 bits. The index
  is computed from a sign extended \<open>char\<close> and masked.
\<close>

fun crc16_loop :: "u32 \<Rightarrow> bytes \<Rightarrow> u32" where
  "crc16_loop crc [] = crc"
| "crc16_loop crc (c # cs) =
     crc16_loop (push_bit 8 crc XOR
       ucast (crc16tab ! unat ((drop_bit 8 crc XOR char_u32 c) AND 0x00ff))) cs"

definition crc16Hash :: "bytes \<Rightarrow> u32" where
  "crc16Hash key = crc16_loop 0 key"

definition crc32tab :: "u32 list" where
  "crc32tab = concat [
   [0x00000000, 0x77073096, 0xee0e612c, 0x990951ba, 0x076dc419, 0x706af48f, 0xe963a535, 0x9e6495a3],
   [0x0edb8832, 0x79dcb8a4, 0xe0d5e91e, 0x97d2d988, 0x09b64c2b, 0x7eb17cbd, 0xe7b82d07, 0x90bf1d91],
   [0x1db71064, 0x6ab020f2, 0xf3b97148, 0x84be41de, 0x1adad47d, 0x6ddde4eb, 0xf4d4b551, 0x83d385c7],
   [0x136c9856, 0x646ba8c0, 0xfd62f97a, 0x8a65c9ec, 0x14015c4f, 0x63066cd9, 0xfa0f3d63, 0x8d080df5],
   [0x3b6e20c8, 0x4c69105e, 0xd56041e4, 0xa2677172, 0x3c03e4d1, 0x4b04d447, 0xd20d85fd, 0xa50ab56b],
   [0x35b5a8fa, 0x42b2986c, 0xdbbbc9d6, 0xacbcf940, 0x32d86ce3, 0x45df5c75, 0xdcd60dcf, 0xabd13d59],
   [0x26d930ac, 0x51de003a, 0xc8d75180, 0xbfd06116, 0x21b4f4b5, 0x56b3c423, 0xcfba9599, 0xb8bda50f],
   [0x2802b89e, 0x5f058808, 0xc60cd9b2, 0xb10be924, 0x2f6f7c87, 0x58684c11, 0xc1611dab, 0xb6662d3d],
   [0x76dc4190, 0x01db7106, 0x98d220bc, 0xefd5102a, 0x71b18589, 0x06b6b51f, 0x9fbfe4a5, 0xe8b8d433],
   [0x7807c9a2, 0x0f00f934, 0x9609a88e, 0xe10e9818, 0x7f6a0dbb, 0x086d3d2d, 0x91646c97, 0xe6635c01],
   [0x6b6b51f4, 0x1c6c6162, 0x856530d8, 0xf262004e, 0x6c0695ed, 0x1b01a57b, 0x8208f4c1, 0xf50fc457],
   [0x65b0d9c6, 0x12b7e950, 0x8bbeb8ea, 0xfcb9887c, 0x62dd1ddf, 0x15da2d49, 0x8cd37cf3, 0xfbd44c65],
   [0x4db26158, 0x3ab551ce, 0xa3bc0074, 0xd4bb30e2, 0x4adfa541, 0x3dd895d7, 0xa4d1c46d, 0xd3d6f4fb],
   [0x4369e96a, 0x346ed9fc, 0xad678846, 0xda60b8d0, 0x44042d73, 0x33031de5, 0xaa0a4c5f, 0xdd0d7cc9],
   [0x5005713c, 0x270241aa, 0xbe0b1010, 0xc90c2086, 0x5768b525, 0x206f85b3, 0xb966d409, 0xce61e49f],
   [0x5edef90e, 0x29d9c998, 0xb0d09822, 0xc7d7a8b4, 0x59b33d17, 0x2eb40d81, 0xb7bd5c3b, 0xc0ba6cad],
   [0xedb88320, 0x9abfb3b6, 0x03b6e20c, 0x74b1d29a, 0xead54739, 0x9dd277af, 0x04db2615, 0x73dc1683],
   [0xe3630b12, 0x94643b84, 0x0d6d6a3e, 0x7a6a5aa8, 0xe40ecf0b, 0x9309ff9d, 0x0a00ae27, 0x7d079eb1],
   [0xf00f9344, 0x8708a3d2, 0x1e01f268, 0x6906c2fe, 0xf762575d, 0x806567cb, 0x196c3671, 0x6e6b06e7],
   [0xfed41b76, 0x89d32be0, 0x10da7a5a, 0x67dd4acc, 0xf9b9df6f, 0x8ebeeff9, 0x17b7be43, 0x60b08ed5],
   [0xd6d6a3e8, 0xa1d1937e, 0x38d8c2c4, 0x4fdff252, 0xd1bb67f1, 0xa6bc5767, 0x3fb506dd, 0x48b2364b],
   [0xd80d2bda, 0xaf0a1b4c, 0x36034af6, 0x41047a60, 0xdf60efc3, 0xa867df55, 0x316e8eef, 0x4669be79],
   [0xcb61b38c, 0xbc66831a, 0x256fd2a0, 0x5268e236, 0xcc0c7795, 0xbb0b4703, 0x220216b9, 0x5505262f],
   [0xc5ba3bbe, 0xb2bd0b28, 0x2bb45a92, 0x5cb36a04, 0xc2d7ffa7, 0xb5d0cf31, 0x2cd99e8b, 0x5bdeae1d],
   [0x9b64c2b0, 0xec63f226, 0x756aa39c, 0x026d930a, 0x9c0906a9, 0xeb0e363f, 0x72076785, 0x05005713],
   [0x95bf4a82, 0xe2b87a14, 0x7bb12bae, 0x0cb61b38, 0x92d28e9b, 0xe5d5be0d, 0x7cdcefb7, 0x0bdbdf21],
   [0x86d3d2d4, 0xf1d4e242, 0x68ddb3f8, 0x1fda836e, 0x81be16cd, 0xf6b9265b, 0x6fb077e1, 0x18b74777],
   [0x88085ae6, 0xff0f6a70, 0x66063bca, 0x11010b5c, 0x8f659eff, 0xf862ae69, 0x616bffd3, 0x166ccf45],
   [0xa00ae278, 0xd70dd2ee, 0x4e048354, 0x3903b3c2, 0xa7672661, 0xd06016f7, 0x4969474d, 0x3e6e77db],
   [0xaed16a4a, 0xd9d65adc, 0x40df0b66, 0x37d83bf0, 0xa9bcae53, 0xdebb9ec5, 0x47b2cf7f, 0x30b5ffe9],
   [0xbdbdf21c, 0xcabac28a, 0x53b39330, 0x24b4a3a6, 0xbad03605, 0xcdd70693, 0x54de5729, 0x23d967bf],
   [0xb3667a2e, 0xc4614ab8, 0x5d681b02, 0x2a6f2b94, 0xb40bbe37, 0xc30c8ea1, 0x5a05df1b, 0x2d02ef8d]]"

fun crc32_loop :: "u32 \<Rightarrow> bytes \<Rightarrow> u32" where
  "crc32_loop crc [] = crc"
| "crc32_loop crc (c # cs) =
     crc32_loop (drop_bit 8 crc XOR
       crc32tab ! unat ((ucast crc XOR char_u64 c) AND 0xff)) cs"

definition crc32Hash :: "bytes \<Rightarrow> u32" where
  "crc32Hash key =
     (let crc = crc32_loop 0xffffffff key in drop_bit 16 (NOT crc) AND 0x7fff)"

text \<open>\<open>crc32aHash\<close> declares its own copy of the table and reads the key as \<open>uint8_t\<close>.\<close>

definition crc32a_tab :: "u32 list" where
  "crc32a_tab = concat [
   [0x00000000, 0x77073096, 0xee0e612c, 0x990951ba, 0x076dc419, 0x706af48f, 0xe963a535, 0x9e6495a3],
   [0x0edb8832, 0x79dcb8a4, 0xe0d5e91e, 0x97d2d988, 0x09b64c2b, 0x7eb17cbd, 0xe7b82d07, 0x90bf1d91],
   [0x1db71064, 0x6ab020f2, 0xf3b97148, 0x84be41de, 0x1adad47d, 0x6ddde4eb, 0xf4d4b551, 0x83d385c7],
   [0x136c9856, 0x646ba8c0, 0xfd62f97a, 0x8a65c9ec, 0x14015c4f, 0x63066cd9, 0xfa0f3d63, 0x8d080df5],
   [0x3b6e20c8, 0x4c69105e, 0xd56041e4, 0xa2677172, 0x3c03e4d1, 0x4b04d447, 0xd20d85fd, 0xa50ab56b],
   [0x35b5a8fa, 0x42b2986c, 0xdbbbc9d6, 0xacbcf940, 0x32d86ce3, 0x45df5c75, 0xdcd60dcf, 0xabd13d59],
   [0x26d930ac, 0x51de003a, 0xc8d75180, 0xbfd06116, 0x21b4f4b5, 0x56b3c423, 0xcfba9599, 0xb8bda50f],
   [0x2802b89e, 0x5f058808, 0xc60cd9b2, 0xb10be924, 0x2f6f7c87, 0x58684c11, 0xc1611dab, 0xb6662d3d],
   [0x76dc4190, 0x01db7106, 0x98d220bc, 0xefd5102a, 0x71b18589, 0x06b6b51f, 0x9fbfe4a5, 0xe8b8d433],
   [0x7807c9a2, 0x0f00f934, 0x9609a88e, 0xe10e9818, 0x7f6a0dbb, 0x086d3d2d, 0x91646c97, 0xe6635c01],
   [0x6b6b51f4, 0x1c6c6162, 0x856530d8, 0xf262004e, 0x6c0695ed, 0x1b01a57b, 0x8208f4c1, 0xf50fc457],
   [0x65b0d9c6, 0x12b7e950, 0x8bbeb8ea, 0xfcb9887c, 0x62dd1ddf, 0x15da2d49, 0x8cd37cf3, 0xfbd44c65],
   [0x4db26158, 0x3ab551ce, 0xa3bc0074, 0xd4bb30e2, 0x4adfa541, 0x3dd895d7, 0xa4d1c46d, 0xd3d6f4fb],
   [0x4369e96a, 0x346ed9fc, 0xad678846, 0xda60b8d0, 0x44042d73, 0x33031de5, 0xaa0a4c5f, 0xdd0d7cc9],
   [0x5005713c, 0x270241aa, 0xbe0b1010, 0xc90c2086, 0x5768b525, 0x206f85b3, 0xb966d409, 0xce61e49f],
   [0x5edef90e, 0x29d9c998, 0xb0d09822, 0xc7d7a8b4, 0x59b33d17, 0x2eb40d81, 0xb7bd5c3b, 0xc0ba6cad],
   [0xedb88320, 0x9abfb3b6, 0x03b6e20c, 0x74b1d29a, 0xead54739, 0x9dd277af, 0x04db2615, 0x73dc1683],
   [0xe3630b12, 0x94643b84, 0x0d6d6a3e, 0x7a6a5aa8, 0xe40ecf0b, 0x9309ff9d, 0x0a00ae27, 0x7d079eb1],
   [0xf00f9344, 0x8708a3d2, 0x1e01f268, 0x6906c2fe, 0xf762575d, 0x806567cb, 0x196c3671, 0x6e6b06e7],
   [0xfed41b76, 0x89d32be0, 0x10da7a5a, 0x67dd4acc, 0xf9b9df6f, 0x8ebeeff9, 0x17b7be43, 0x60b08ed5],
   [0xd6d6a3e8, 0xa1d1937e, 0x38d8c2c4, 0x4fdff252, 0xd1bb67f1, 0xa6bc5767, 0x3fb506dd, 0x48b2364b],
   [0xd80d2bda, 0xaf0a1b4c, 0x36034af6, 0x41047a60, 0xdf60efc3, 0xa867df55, 0x316e8eef, 0x4669be79],
   [0xcb61b38c, 0xbc66831a, 0x256fd2a0, 0x5268e236, 0xcc0c7795, 0xbb0b4703, 0x220216b9, 0x5505262f],
   [0xc5ba3bbe, 0xb2bd0b28, 0x2bb45a92, 0x5cb36a04, 0xc2d7ffa7, 0xb5d0cf31, 0x2cd99e8b, 0x5bdeae1d],
   [0x9b64c2b0, 0xec63f226, 0x756aa39c, 0x026d930a, 0x9c0906a9, 0xeb0e363f, 0x72076785, 0x05005713],
   [0x95bf4a82, 0xe2b87a14, 0x7bb12bae, 0x0cb61b38, 0x92d28e9b, 0xe5d5be0d, 0x7cdcefb7, 0x0bdbdf21],
   [0x86d3d2d4, 0xf1d4e242, 0x68ddb3f8, 0x1fda836e, 0x81be16cd, 0xf6b9265b, 0x6fb077e1, 0x18b74777],
   [0x88085ae6, 0xff0f6a70, 0x66063bca, 0x11010b5c, 0x8f659eff, 0xf862ae69, 0x616bffd3, 0x166ccf45],
   [0xa00ae278, 0xd70dd2ee, 0x4e048354, 0x3903b3c2, 0xa7672661, 0xd06016f7, 0x4969474d, 0x3e6e77db],
   [0xaed16a4a, 0xd9d65adc, 0x40df0b66, 0x37d83bf0, 0xa9bcae53, 0xdebb9ec5, 0x47b2cf7f, 0x30b5ffe9],
   [0xbdbdf21c, 0xcabac28a, 0x53b39330, 0x24b4a3a6, 0xbad03605, 0xcdd70693, 0x54de5729, 0x23d967bf],
   [0xb3667a2e, 0xc4614ab8, 0x5d681b02, 0x2a6f2b94, 0xb40bbe37, 0xc30c8ea1, 0x5a05df1b, 0x2d02ef8d]]"

fun crc32a_loop :: "u32 \<Rightarrow> bytes \<Rightarrow> u32" where
  "crc32a_loop crc [] = crc"
| "crc32a_loop crc (c # cs) =
     crc32a_loop (crc32a_tab ! unat ((crc XOR uchar_u32 c) AND 0xff) XOR drop_bit 8 crc) cs"

definition crc32aHash :: "bytes \<Rightarrow> u32" where
  "crc32aHash key = crc32a_loop (NOT 0) key XOR NOT 0"

section \<open>What a table promises\<close>

text \<open>
  \<open>step\<close> is one bit of the division, \<open>hi x\<close> and \<open>lo x\<close> split a register into the part
  that eight steps only shift (the result is \<open>shift8 x\<close>) and the part that selects the
  table entry \<open>tab ! idx x\<close>. The client is a loop that replaces eight steps by one lookup.
\<close>

locale crc_table =
  fixes step :: "'a::len word \<Rightarrow> 'a word"
    and hi lo shift8 :: "'a word \<Rightarrow> 'a word"
    and idx :: "'a word \<Rightarrow> nat"
    and tab :: "'a word list"
  assumes step_xor: "step (x XOR y) = step x XOR step y"
    and hi_lo: "hi x XOR lo x = x"
    and hi_steps: "(step ^^ 8) (hi x) = shift8 x"
    and lo_steps: "(step ^^ 8) (lo x) = tab ! idx x"
begin

lemma steps_xor: "(step ^^ n) (x XOR y) = (step ^^ n) x XOR (step ^^ n) y"
  by (induction n) (simp_all add: step_xor)

lemma lookup_is_8_steps: "shift8 x XOR tab ! idx x = (step ^^ 8) x"
  by (metis hi_lo hi_steps lo_steps steps_xor)

lemma loop_is_bitwise:
  assumes "\<And>r c. g r c = shift8 (mix r c) XOR tab ! idx (mix r c)"
  shows "foldl g r key = foldl (\<lambda>r c. (step ^^ 8) (mix r c)) r key"
  by (induction key arbitrary: r) (simp_all add: assms lookup_is_8_steps)

end

section \<open>The bitwise algorithms\<close>

text \<open>CRC-32 (reflected polynomial \<open>0xedb88320\<close>), least significant bit first.\<close>

definition crc32_bit :: "u32 \<Rightarrow> u32" where
  "crc32_bit x = (if x AND 1 = 1 then drop_bit 1 x XOR 0xedb88320 else drop_bit 1 x)"

definition crc32_ref :: "u32 \<Rightarrow> bytes \<Rightarrow> u32" where
  "crc32_ref = foldl (\<lambda>r c. (crc32_bit ^^ 8) (r XOR unsigned c))"

text \<open>CRC-16 with the polynomial \<open>0x1021\<close>, most significant bit first (XMODEM).\<close>

definition crc16_bit :: "u16 \<Rightarrow> u16" where
  "crc16_bit x = (if x AND 0x8000 = 0x8000 then push_bit 1 x XOR 0x1021 else push_bit 1 x)"

definition crc16_ref :: "u16 \<Rightarrow> bytes \<Rightarrow> u16" where
  "crc16_ref = foldl (\<lambda>r c. (crc16_bit ^^ 8) (r XOR push_bit 8 (unsigned c)))"

lemma funpow_8: "(f ^^ 8) x = f (f (f (f (f (f (f (f x)))))))"
  by (simp add: numeral_eq_Suc)

text \<open>The tables are checked entry by entry, with a counter kept as a word.\<close>

fun tab_check :: "('a::len word \<Rightarrow> 'a word) \<Rightarrow> 'a word \<Rightarrow> 'a word list \<Rightarrow> bool" where
  "tab_check f n [] \<longleftrightarrow> True"
| "tab_check f n (t # ts) \<longleftrightarrow> f n = t \<and> tab_check f (n + 1) ts"

lemma tab_check_nth:
  "tab_check f n ts \<Longrightarrow> i < length ts \<Longrightarrow> f (n + of_nat i) = ts ! i"
proof (induction ts arbitrary: n i)
  case (Cons t ts)
  show ?case
  proof (cases i)
    case 0
    with Cons.prems show ?thesis by simp
  next
    case (Suc j)
    with Cons have "f (n + 1 + of_nat j) = ts ! j" by simp
    with Suc show ?thesis by (simp add: add_ac)
  qed
qed simp

text \<open>Row by row, so that a lookup of the simplifier does not walk the whole table.\<close>

fun rows_check :: "('a::len word \<Rightarrow> 'a word) \<Rightarrow> 'a word \<Rightarrow> 'a word list list \<Rightarrow> bool" where
  "rows_check f n [] \<longleftrightarrow> True"
| "rows_check f n (r # rs) \<longleftrightarrow> tab_check f n r \<and> rows_check f (n + of_nat (length r)) rs"

lemma tab_check_append:
  "tab_check f n (xs @ ys) \<longleftrightarrow> tab_check f n xs \<and> tab_check f (n + of_nat (length xs)) ys"
  by (induction xs arbitrary: n) (simp_all add: add_ac)

lemma tab_check_concat: "tab_check f n (concat rs) \<longleftrightarrow> rows_check f n rs"
  by (induction rs arbitrary: n) (simp_all add: tab_check_append)

definition crc32_byte :: "u32 \<Rightarrow> u32" where
  "crc32_byte x = (crc32_bit ^^ 8) x"

definition crc16_byte :: "u16 \<Rightarrow> u16" where
  "crc16_byte x = (crc16_bit ^^ 8) (push_bit 8 x)"

lemma crc32tab_check: "tab_check crc32_byte 0 crc32tab"
  unfolding crc32tab_def tab_check_concat
  by (simp add: crc32_byte_def crc32_bit_def funpow_8)

lemma crc16tab_check: "tab_check crc16_byte 0 crc16tab"
  unfolding crc16tab_def tab_check_concat
  by (simp add: crc16_byte_def crc16_bit_def funpow_8)

lemma crc_tab_lengths [simp]: "length crc16tab = 256" "length crc32tab = 256"
  by (simp_all add: crc16tab_def crc32tab_def)

lemma crc32a_tab_eq: "crc32a_tab = crc32tab"
  by (simp only: crc32a_tab_def crc32tab_def)

lemma crc32tab_nth: "unat x < 256 \<Longrightarrow> crc32_byte x = crc32tab ! unat x"
  using tab_check_nth [OF crc32tab_check, of "unat x"] by simp

lemma crc16tab_nth:
  "unat x < 256 \<Longrightarrow> crc16_byte x = crc16tab ! unat x"
  using tab_check_nth [OF crc16tab_check, of "unat x"] by simp

subsection \<open>The tables keep the promise\<close>

lemma and_1_bit: "(x::'a::len word) AND 1 = 1 \<longleftrightarrow> bit x 0"
  by (simp add: and_one_eq odd_iff_mod_2_eq_one bit_0)

lemma bit_0x8000: "bit (0x8000::u16) n \<longleftrightarrow> n = 15"
proof -
  have "bit (2 ^ 15 :: u16) n \<longleftrightarrow> n = 15"
    by (simp only: bit_exp_iff) auto
  then show ?thesis by simp
qed

lemma and_0x8000_bit: "(x::u16) AND 0x8000 = 0x8000 \<longleftrightarrow> bit x 15"
proof
  assume "x AND 0x8000 = 0x8000"
  then have "bit (x AND 0x8000) 15" by (simp only: bit_0x8000)
  then show "bit x 15" by (simp only: bit_and_iff)
next
  assume "bit x 15"
  then show "x AND 0x8000 = 0x8000"
    by (intro bit_word_eqI) (auto simp only: bit_and_iff bit_0x8000)
qed

lemma crc32_bit_eq: "crc32_bit x = drop_bit 1 x XOR (if bit x 0 then 0xedb88320 else 0)"
  by (simp add: crc32_bit_def and_1_bit)

lemma crc16_bit_eq: "crc16_bit x = push_bit 1 x XOR (if bit x 15 then 0x1021 else 0)"
  by (simp add: crc16_bit_def and_0x8000_bit)

lemma crc32_bit_xor: "crc32_bit (x XOR y) = crc32_bit x XOR crc32_bit y"
  by (simp add: crc32_bit_eq bit_xor_iff drop_bit_xor xor.assoc xor.left_commute)

lemma crc16_bit_xor: "crc16_bit (x XOR y) = crc16_bit x XOR crc16_bit y"
  by (simp add: crc16_bit_eq bit_xor_iff push_bit_xor xor.assoc xor.left_commute)

lemma crc32_steps_clear: "\<forall>i<n. \<not> bit x i \<Longrightarrow> (crc32_bit ^^ n) x = drop_bit n x"
proof (induction n)
  case (Suc n)
  then have "\<not> bit (drop_bit n x) 0" by (simp add: bit_drop_bit_eq)
  with Suc show ?case by (simp add: crc32_bit_eq)
qed simp

lemma crc16_steps_clear:
  "n \<le> 15 \<Longrightarrow> \<forall>i<n. \<not> bit x (15 - i) \<Longrightarrow> (crc16_bit ^^ n) x = push_bit n x"
proof (induction n)
  case (Suc n)
  then have b: "\<not> bit (push_bit n x) 15" by (simp add: bit_push_bit_iff)
  have "(crc16_bit ^^ Suc n) x = crc16_bit (push_bit n x)"
    using Suc by simp
  also have "\<dots> = push_bit 1 (push_bit n x)"
    by (simp only: crc16_bit_eq b if_False xor.right_neutral)
  also have "\<dots> = push_bit (Suc n) x"
    by (simp only: push_bit_push_bit plus_1_eq_Suc)
  finally show ?case .
qed simp

definition crc32_hi :: "u32 \<Rightarrow> u32" where "crc32_hi x = push_bit 8 (drop_bit 8 x)"
definition crc32_lo :: "u32 \<Rightarrow> u32" where "crc32_lo x = take_bit 8 x"
definition crc16_hi :: "u16 \<Rightarrow> u16" where "crc16_hi x = take_bit 8 x"
definition crc16_lo :: "u16 \<Rightarrow> u16" where "crc16_lo x = push_bit 8 (drop_bit 8 x)"

lemma unat_take_bit_8: "unat (take_bit 8 (x::'a::len word)) < 256"
  by (simp add: unsigned_take_bit_eq take_bit_nat_less_exp [of 8, simplified])

lemma unat_drop_bit_8: "unat (drop_bit 8 (x::u16)) < 256"
proof -
  have "unat x < 256 * 256" using unsigned_less [of x, where 'a = nat] by simp
  then show ?thesis unfolding unat_drop_bit_eq unfolding drop_bit_eq_div
    by (intro less_mult_imp_div_less) simp
qed

interpretation c32: crc_table crc32_bit crc32_hi crc32_lo "drop_bit 8"
  "\<lambda>x. unat (take_bit 8 x)" crc32tab
proof unfold_locales
  fix x y :: u32
  show "crc32_bit (x XOR y) = crc32_bit x XOR crc32_bit y" by (rule crc32_bit_xor)
  show "crc32_hi x XOR crc32_lo x = x"
    by (rule bit_word_eqI) (auto simp: crc32_hi_def crc32_lo_def bit_simps)
  show "(crc32_bit ^^ 8) (crc32_hi x) = drop_bit 8 x"
  proof -
    have "(crc32_bit ^^ 8) (crc32_hi x) = drop_bit 8 (crc32_hi x)"
      by (rule crc32_steps_clear) (simp add: crc32_hi_def bit_simps)
    also have "\<dots> = drop_bit 8 x"
      by (rule bit_word_eqI) (auto simp: crc32_hi_def bit_simps dest: bit_imp_le_length)
    finally show ?thesis .
  qed
  show "(crc32_bit ^^ 8) (crc32_lo x) = crc32tab ! unat (take_bit 8 x)"
    using crc32tab_nth [OF unat_take_bit_8, of x] by (simp add: crc32_lo_def crc32_byte_def)
qed

interpretation c16: crc_table crc16_bit crc16_hi crc16_lo "push_bit 8"
  "\<lambda>x. unat (drop_bit 8 x)" crc16tab
proof unfold_locales
  fix x y :: u16
  show "crc16_bit (x XOR y) = crc16_bit x XOR crc16_bit y" by (rule crc16_bit_xor)
  show "crc16_hi x XOR crc16_lo x = x"
    by (rule bit_word_eqI) (auto simp: crc16_hi_def crc16_lo_def bit_simps)
  show "(crc16_bit ^^ 8) (crc16_hi x) = push_bit 8 x"
  proof -
    have "(crc16_bit ^^ 8) (crc16_hi x) = push_bit 8 (crc16_hi x)"
      by (rule crc16_steps_clear) (auto simp: crc16_hi_def bit_simps)
    also have "\<dots> = push_bit 8 x"
      by (rule bit_word_eqI) (auto simp: crc16_hi_def bit_simps)
    finally show ?thesis .
  qed
  show "(crc16_bit ^^ 8) (crc16_lo x) = crc16tab ! unat (drop_bit 8 x)"
    using crc16tab_nth [OF unat_drop_bit_8, of x] by (simp add: crc16_lo_def crc16_byte_def)
qed

subsection \<open>The loops compute the bitwise algorithms\<close>

lemma mask_8: "(0xff :: 'a::len word) = mask 8"
  by (simp add: mask_eq_exp_minus_1)

lemma crc32_idx:
  "unat ((ucast (crc::u32) XOR char_u64 c) AND 0xff) = unat (take_bit 8 (crc XOR unsigned c))"
proof -
  have "(ucast crc XOR char_u64 c) AND 0xff = (ucast (take_bit 8 (crc XOR unsigned c :: u32)) :: u64)"
    unfolding mask_8
    by (rule bit_word_eqI) (auto simp: bit_simps bit_char_low)
  then show ?thesis
    by (simp only: unat_ucast_up)
qed

lemma crc32a_idx: "(crc XOR uchar_u32 c) AND 0xff = take_bit 8 (crc XOR unsigned c)"
  by (simp add: uchar_u32_def take_bit_eq_mask mask_8 [symmetric])

lemma drop_8_octet [simp]: "drop_bit 8 (unsigned (c::byte) :: u32) = 0"
  by (rule bit_word_eqI) (auto simp: bit_simps dest: bit_imp_le_length)

lemma crc32_loop_ref: "crc32_loop crc key = crc32_ref crc key"
proof -
  have "crc32_loop crc key = foldl (\<lambda>r c. drop_bit 8 r XOR
          crc32tab ! unat ((ucast r XOR char_u64 c) AND 0xff)) crc key"
    by (induction key arbitrary: crc) simp_all
  also have "\<dots> = crc32_ref crc key"
    unfolding crc32_ref_def crc32_idx
    by (rule c32.loop_is_bitwise) (simp add: drop_bit_xor)
  finally show ?thesis .
qed

lemma crc32a_loop_ref: "crc32a_loop crc key = crc32_ref crc key"
proof -
  have "crc32a_loop crc key = foldl (\<lambda>r c. drop_bit 8 r XOR
          crc32tab ! unat (take_bit 8 (r XOR unsigned c))) crc key"
    by (induction key arbitrary: crc) (simp_all add: crc32a_tab_eq crc32a_idx xor.commute)
  also have "\<dots> = crc32_ref crc key"
    unfolding crc32_ref_def by (rule c32.loop_is_bitwise) (simp add: drop_bit_xor)
  finally show ?thesis .
qed
lemma crc16_low:
  "ucast (push_bit 8 crc XOR ucast (t::u16) :: u32) = (push_bit 8 (ucast crc) XOR t :: u16)"
  by (rule bit_word_eqI) (auto simp: bit_simps)

lemma crc16_idx:
  "unat ((drop_bit 8 crc XOR char_u32 c) AND 0xff)
     = unat (drop_bit 8 (ucast (crc::u32) XOR push_bit 8 (unsigned c) :: u16))"
proof -
  have "(drop_bit 8 crc XOR char_u32 c) AND 0xff
      = (ucast (drop_bit 8 (ucast crc XOR push_bit 8 (unsigned c) :: u16)) :: u32)"
    unfolding mask_8
    by (rule bit_word_eqI)
       (auto simp: bit_simps bit_char_low dest: bit_imp_le_length)
  then show ?thesis by (simp only: unat_ucast_up)
qed

lemma push_16_octet [simp]: "push_bit 8 (push_bit 8 (unsigned (c::byte)) :: u16) = 0"
  by (rule bit_word_eqI) (auto simp: bit_simps)

lemma crc16_loop_ref: "ucast (crc16_loop crc key) = crc16_ref (ucast crc) key"
proof -
  have "ucast (crc16_loop crc key) = foldl (\<lambda>r c. push_bit 8 r XOR
          crc16tab ! unat (drop_bit 8 (r XOR push_bit 8 (unsigned c)))) (ucast crc) key"
    by (induction key arbitrary: crc) (simp_all add: crc16_low crc16_idx)
  also have "\<dots> = crc16_ref (ucast crc) key"
    unfolding crc16_ref_def by (rule c16.loop_is_bitwise) (simp only: push_bit_xor push_16_octet xor.right_neutral)
  finally show ?thesis .
qed

text \<open>C36. The table-driven CRC loops compute the bitwise algorithms: \<open>crc32aHash\<close> is CRC-32,
  \<open>crc32Hash\<close> is 15 bits of it, and the low 16 bits of \<open>crc16Hash\<close> are CRC-16/XMODEM. The two
  CRC-32 routines read the key as signed and as unsigned bytes; the results agree.\<close>

theorem crc_hashes_bitwise:
  "crc32aHash key = NOT (crc32_ref 0xffffffff key)
   \<and> crc32Hash key = drop_bit 16 (crc32aHash key) AND 0x7fff
   \<and> ucast (crc16Hash key) = crc16_ref 0 key"
proof -
  have m: "(0xffffffff :: u32) = - 1" by simp
  have a: "crc32aHash key = NOT (crc32_ref 0xffffffff key)"
    by (simp add: crc32aHash_def crc32a_loop_ref m)
  then show ?thesis
    by (simp add: m crc32Hash_def crc32_loop_ref crc16Hash_def crc16_loop_ref Let_def)
qed

text \<open>The CRC-32 hash of a key is always below \<open>2 ^ 15\<close>, whatever the key is.\<close>

lemma crc32Hash_bound: "crc32Hash key < 2 ^ 15"
proof -
  have "crc32Hash key = take_bit 15 (drop_bit 16 (NOT (crc32_loop 0xffffffff key)))"
    by (simp add: crc32Hash_def Let_def take_bit_eq_mask mask_eq_exp_minus_1)
  also have "unat \<dots> < 2 ^ 15"
    by (simp only: unsigned_take_bit_eq take_bit_nat_less_exp)
  finally show ?thesis by (simp add: word_less_nat_alt)
qed

end
