(* ===== verification/HashBlock.thy ===== *)
theory HashBlock
  imports NcPrelude
begin

text \<open>
  The hashes of \<open>NcHashUtil\<close> (\<^verbatim>\<open>nc_hashkit.h\<close>) that read the key in blocks: Hsieh's
  SuperFastHash, Austin Appleby's Murmur and Bob Jenkins' lookup3. The target is
  little-endian with unaligned loads (x86-64). Jenkins' routine has three versions of its
  loop, chosen by the alignment of the key; the key is therefore a memory, a function from
  the offset to the byte, because the aligned version reads past the end of the key.
\<close>

section \<open>Hsieh\<close>

text \<open>The macro \<open>get16bits\<close> as it is defined off i386.\<close>

definition get16bits :: "byte \<Rightarrow> byte \<Rightarrow> u32" where
  "get16bits d0 d1 = push_bit 8 (uchar_u32 d1) + uchar_u32 d0"

text \<open>The main loop takes four bytes a turn; it returns the hash and the unread bytes.\<close>

fun hsieh_loop :: "u32 \<Rightarrow> bytes \<Rightarrow> u32 \<times> bytes" where
  "hsieh_loop hash (k0 # k1 # k2 # k3 # key) =
     (let hash = hash + get16bits k0 k1;
          tmp = push_bit 11 (get16bits k2 k3) XOR hash;
          hash = push_bit 16 hash XOR tmp;
          hash = hash + drop_bit 11 hash
      in hsieh_loop hash key)"
| "hsieh_loop hash key = (hash, key)"

fun hsieh_tail :: "u32 \<Rightarrow> bytes \<Rightarrow> u32" where
  "hsieh_tail hash [k0, k1, k2] =
     (let hash = hash + get16bits k0 k1;
          hash = hash XOR push_bit 16 hash;
          hash = hash XOR push_bit 18 (char_u32 k2)
      in hash + drop_bit 11 hash)"
| "hsieh_tail hash [k0, k1] =
     (let hash = hash + get16bits k0 k1;
          hash = hash XOR push_bit 11 hash
      in hash + drop_bit 17 hash)"
| "hsieh_tail hash [k0] =
     (let hash = hash + uchar_u32 k0;
          hash = hash XOR push_bit 10 hash
      in hash + drop_bit 1 hash)"
| "hsieh_tail hash _ = hash"

definition hsieh_avalanche :: "u32 \<Rightarrow> u32" where
  "hsieh_avalanche hash =
     (let hash = hash XOR push_bit 3 hash;
          hash = hash + drop_bit 5 hash;
          hash = hash XOR push_bit 4 hash;
          hash = hash + drop_bit 17 hash;
          hash = hash XOR push_bit 25 hash
      in hash + drop_bit 6 hash)"

definition hsiehHash :: "bytes \<Rightarrow> u32" where
  "hsiehHash key =
     (if key = [] then 0
      else let (hash, rest) = hsieh_loop 0 key in hsieh_avalanche (hsieh_tail hash rest))"

section \<open>Little-endian loads\<close>

definition le32 :: "byte \<Rightarrow> byte \<Rightarrow> byte \<Rightarrow> byte \<Rightarrow> u32" where
  "le32 b0 b1 b2 b3 =
     uchar_u32 b0 OR push_bit 8 (uchar_u32 b1) OR push_bit 16 (uchar_u32 b2)
       OR push_bit 24 (uchar_u32 b3)"

definition le16 :: "byte \<Rightarrow> byte \<Rightarrow> u32" where
  "le16 b0 b1 = uchar_u32 b0 OR push_bit 8 (uchar_u32 b1)"

section \<open>Murmur\<close>

definition murmur_m :: u32 where "murmur_m = 0x5bd1e995"

text \<open>Four bytes a turn, then the last three, two or one with the fall-through of the \<open>switch\<close>.\<close>

fun murmur_loop :: "u32 \<Rightarrow> bytes \<Rightarrow> u32" where
  "murmur_loop h (d0 # d1 # d2 # d3 # data) =
     (let k = le32 d0 d1 d2 d3;
          k = k * murmur_m;
          k = k XOR drop_bit 24 k;
          k = k * murmur_m;
          h = h * murmur_m;
          h = h XOR k
      in murmur_loop h data)"
| "murmur_loop h [d0, d1, d2] =
     (h XOR push_bit 16 (uchar_u32 d2) XOR push_bit 8 (uchar_u32 d1) XOR uchar_u32 d0) * murmur_m"
| "murmur_loop h [d0, d1] =
     (h XOR push_bit 8 (uchar_u32 d1) XOR uchar_u32 d0) * murmur_m"
| "murmur_loop h [d0] = (h XOR uchar_u32 d0) * murmur_m"
| "murmur_loop h [] = h"

definition murmurHash :: "bytes \<Rightarrow> u32" where
  "murmurHash key =
     (let len = of_nat (length key) :: u32;
          seed = 0xdeadbeef * len;
          h = murmur_loop (seed XOR len) key;
          h = h XOR drop_bit 13 h;
          h = h * murmur_m
      in h XOR drop_bit 15 h)"

section \<open>Jenkins\<close>

definition rot :: "u32 \<Rightarrow> nat \<Rightarrow> u32" where
  "rot x k = push_bit k x OR drop_bit (32 - k) x"

type_synonym abc = "u32 \<times> u32 \<times> u32"

text \<open>The macros \<open>mix\<close> and \<open>final\<close>.\<close>

definition jenkins_mix :: "abc \<Rightarrow> abc" where
  "jenkins_mix = (\<lambda>(a, b, c).
     let a = a - c; a = a XOR rot c 4;  c = c + b;
         b = b - a; b = b XOR rot a 6;  a = a + c;
         c = c - b; c = c XOR rot b 8;  b = b + a;
         a = a - c; a = a XOR rot c 16; c = c + b;
         b = b - a; b = b XOR rot a 19; a = a + c;
         c = c - b; c = c XOR rot b 4;  b = b + a
     in (a, b, c))"

definition jenkins_final :: "abc \<Rightarrow> abc" where
  "jenkins_final = (\<lambda>(a, b, c).
     let c = c XOR b; c = c - rot b 14;
         a = a XOR c; a = a - rot c 11;
         b = b XOR a; b = b - rot a 25;
         c = c XOR b; c = c - rot b 16;
         a = a XOR c; a = a - rot c 4;
         b = b XOR a; b = b - rot a 14;
         c = c XOR b; c = c - rot b 24
     in (a, b, c))"

definition JENKINS_INITVAL :: u32 where "JENKINS_INITVAL = 13"

text \<open>Loads at the offset \<open>p\<close> of the memory \<open>m\<close> that starts at \<open>key\<close>.\<close>

definition k32 :: "(nat \<Rightarrow> byte) \<Rightarrow> nat \<Rightarrow> nat \<Rightarrow> u32" where
  "k32 m p i = le32 (m (p + 4 * i)) (m (p + 4 * i + 1)) (m (p + 4 * i + 2)) (m (p + 4 * i + 3))"

definition k16 :: "(nat \<Rightarrow> byte) \<Rightarrow> nat \<Rightarrow> nat \<Rightarrow> u32" where
  "k16 m p i = le16 (m (p + 2 * i)) (m (p + 2 * i + 1))"

definition k8 :: "(nat \<Rightarrow> byte) \<Rightarrow> nat \<Rightarrow> nat \<Rightarrow> u32" where
  "k8 m p i = uchar_u32 (m (p + i))"

text \<open>The 32-bit version: \<open>key\<close> is a multiple of four.\<close>

fun jenkins32_loop :: "(nat \<Rightarrow> byte) \<Rightarrow> nat \<Rightarrow> nat \<Rightarrow> abc \<Rightarrow> nat \<times> nat \<times> abc" where
  "jenkins32_loop m p len (a, b, c) =
     (if len > 12 then
        jenkins32_loop m (p + 12) (len - 12)
          (jenkins_mix (a + k32 m p 0, b + k32 m p 1, c + k32 m p 2))
      else (p, len, a, b, c))"

text \<open>The last block; \<open>None\<close> is the early \<open>return c\<close>.\<close>

definition jenkins32_tail :: "(nat \<Rightarrow> byte) \<Rightarrow> nat \<Rightarrow> nat \<Rightarrow> abc \<Rightarrow> abc option" where
  "jenkins32_tail m p len = (\<lambda>(a, b, c).
     let k = k32 m p in
     if len = 12 then Some (a + k 0, b + k 1, c + k 2)
     else if len = 11 then Some (a + k 0, b + k 1, c + (k 2 AND 0xffffff))
     else if len = 10 then Some (a + k 0, b + k 1, c + (k 2 AND 0xffff))
     else if len = 9 then Some (a + k 0, b + k 1, c + (k 2 AND 0xff))
     else if len = 8 then Some (a + k 0, b + k 1, c)
     else if len = 7 then Some (a + k 0, b + (k 1 AND 0xffffff), c)
     else if len = 6 then Some (a + k 0, b + (k 1 AND 0xffff), c)
     else if len = 5 then Some (a + k 0, b + (k 1 AND 0xff), c)
     else if len = 4 then Some (a + k 0, b, c)
     else if len = 3 then Some (a + (k 0 AND 0xffffff), b, c)
     else if len = 2 then Some (a + (k 0 AND 0xffff), b, c)
     else if len = 1 then Some (a + (k 0 AND 0xff), b, c)
     else None)"

text \<open>The 16-bit version: \<open>key\<close> is even.\<close>

fun jenkins16_loop :: "(nat \<Rightarrow> byte) \<Rightarrow> nat \<Rightarrow> nat \<Rightarrow> abc \<Rightarrow> nat \<times> nat \<times> abc" where
  "jenkins16_loop m p len (a, b, c) =
     (if len > 12 then
        jenkins16_loop m (p + 12) (len - 12)
          (jenkins_mix (a + (k16 m p 0 + push_bit 16 (k16 m p 1)),
                        b + (k16 m p 2 + push_bit 16 (k16 m p 3)),
                        c + (k16 m p 4 + push_bit 16 (k16 m p 5))))
      else (p, len, a, b, c))"

definition jenkins16_tail :: "(nat \<Rightarrow> byte) \<Rightarrow> nat \<Rightarrow> nat \<Rightarrow> abc \<Rightarrow> abc option" where
  "jenkins16_tail m p len = (\<lambda>(a, b, c).
     let k = k16 m p; k8 = k8 m p;
         word0 = k 0 + push_bit 16 (k 1);
         word1 = k 2 + push_bit 16 (k 3);
         word2 = k 4 + push_bit 16 (k 5)
     in
     if len = 12 then Some (a + word0, b + word1, c + word2)
     else if len = 11 then Some (a + word0, b + word1, c + push_bit 16 (k8 10) + k 4)
     else if len = 10 then Some (a + word0, b + word1, c + k 4)
     else if len = 9 then Some (a + word0, b + word1, c + k8 8)
     else if len = 8 then Some (a + word0, b + word1, c)
     else if len = 7 then Some (a + word0, b + push_bit 16 (k8 6) + k 2, c)
     else if len = 6 then Some (a + word0, b + k 2, c)
     else if len = 5 then Some (a + word0, b + k8 4, c)
     else if len = 4 then Some (a + word0, b, c)
     else if len = 3 then Some (a + push_bit 16 (k8 2) + k 0, b, c)
     else if len = 2 then Some (a + k 0, b, c)
     else if len = 1 then Some (a + k8 0, b, c)
     else None)"

text \<open>The byte version, for any other address.\<close>

fun jenkins8_loop :: "(nat \<Rightarrow> byte) \<Rightarrow> nat \<Rightarrow> nat \<Rightarrow> abc \<Rightarrow> nat \<times> nat \<times> abc" where
  "jenkins8_loop m p len (a, b, c) =
     (if len > 12 then
        (let k = k8 m p;
             a = a + k 0 + push_bit 8 (k 1) + push_bit 16 (k 2) + push_bit 24 (k 3);
             b = b + k 4 + push_bit 8 (k 5) + push_bit 16 (k 6) + push_bit 24 (k 7);
             c = c + k 8 + push_bit 8 (k 9) + push_bit 16 (k 10) + push_bit 24 (k 11)
         in jenkins8_loop m (p + 12) (len - 12) (jenkins_mix (a, b, c)))
      else (p, len, a, b, c))"

text \<open>All the case statements fall through: case \<open>n\<close> is reached for every length \<open>\<ge> n\<close>.\<close>

definition jenkins8_tail :: "(nat \<Rightarrow> byte) \<Rightarrow> nat \<Rightarrow> nat \<Rightarrow> abc \<Rightarrow> abc option" where
  "jenkins8_tail m p len = (\<lambda>(a, b, c).
     if len = 0 \<or> len > 12 then None
     else
       let k = k8 m p;
           c = (if len \<ge> 12 then c + push_bit 24 (k 11) else c);
           c = (if len \<ge> 11 then c + push_bit 16 (k 10) else c);
           c = (if len \<ge> 10 then c + push_bit 8 (k 9) else c);
           c = (if len \<ge> 9 then c + k 8 else c);
           b = (if len \<ge> 8 then b + push_bit 24 (k 7) else b);
           b = (if len \<ge> 7 then b + push_bit 16 (k 6) else b);
           b = (if len \<ge> 6 then b + push_bit 8 (k 5) else b);
           b = (if len \<ge> 5 then b + k 4 else b);
           a = (if len \<ge> 4 then a + push_bit 24 (k 3) else a);
           a = (if len \<ge> 3 then a + push_bit 16 (k 2) else a);
           a = (if len \<ge> 2 then a + push_bit 8 (k 1) else a);
           a = a + k 0
       in Some (a, b, c))"

definition jenkins_end :: "(nat \<Rightarrow> nat \<Rightarrow> abc \<Rightarrow> abc option) \<Rightarrow> nat \<times> nat \<times> abc \<Rightarrow> u32" where
  "jenkins_end tail = (\<lambda>(p, len, abc).
     case tail p len abc of
       None \<Rightarrow> snd (snd abc)
     | Some abc' \<Rightarrow> snd (snd (jenkins_final abc')))"

text \<open>\<open>addr\<close> is the address of the key, whose low bits select the version.\<close>

definition jenkinsHash :: "u64 \<Rightarrow> (nat \<Rightarrow> byte) \<Rightarrow> nat \<Rightarrow> u32" where
  "jenkinsHash addr m key_length =
     (let i = 0xdeadbeef + of_nat key_length + JENKINS_INITVAL in
      if addr AND 0x3 = 0 then
        jenkins_end (jenkins32_tail m) (jenkins32_loop m 0 key_length (i, i, i))
      else if addr AND 0x1 = 0 then
        jenkins_end (jenkins16_tail m) (jenkins16_loop m 0 key_length (i, i, i))
      else
        jenkins_end (jenkins8_tail m) (jenkins8_loop m 0 key_length (i, i, i)))"

subsection \<open>The three versions agree\<close>

lemma uchar_and_push [simp]:
  "uchar_u32 x AND push_bit 8 y = 0"
  by (rule bit_word_eqI) (auto simp: uchar_u32_def bit_simps dest: bit_imp_le_length)

lemma le16_sum: "le16 b0 b1 = uchar_u32 b0 + push_bit 8 (uchar_u32 b1)"
  unfolding le16_def by (rule disjunctive_add_eq_or [symmetric]) simp

lemma le32_le16: "le32 b0 b1 b2 b3 = le16 b0 b1 + push_bit 16 (le16 b2 b3)"
proof -
  have "le16 b0 b1 AND push_bit 16 (le16 b2 b3) = 0"
    by (rule bit_word_eqI)
       (auto simp: le16_def uchar_u32_def bit_simps dest: bit_imp_le_length)
  then have "le16 b0 b1 + push_bit 16 (le16 b2 b3) = le16 b0 b1 OR push_bit 16 (le16 b2 b3)"
    by (rule disjunctive_add_eq_or)
  then show ?thesis
    by (simp add: le16_def le32_def push_bit_or push_bit_push_bit or.assoc)
qed

lemma k16_sum: "k16 m p i = k8 m p (2 * i) + push_bit 8 (k8 m p (2 * i + 1))"
  by (simp add: k16_def k8_def le16_sum add.assoc)

lemma k32_k16: "k32 m p i = k16 m p (2 * i) + push_bit 16 (k16 m p (2 * i + 1))"
  by (simp add: k32_def k16_def le32_le16 eval_nat_numeral algebra_simps)

lemma le32_and_ff: "le32 b0 b1 b2 b3 AND 0xff = uchar_u32 b0"
proof -
  have "le32 b0 b1 b2 b3 AND mask 8 = uchar_u32 b0"
    by (rule bit_word_eqI)
       (auto simp: le32_def uchar_u32_def bit_simps dest: bit_imp_le_length)
  then show ?thesis by (simp add: mask_eq_exp_minus_1)
qed

lemma le32_and_ffff: "le32 b0 b1 b2 b3 AND 0xffff = le16 b0 b1"
proof -
  have "le32 b0 b1 b2 b3 AND mask 16 = le16 b0 b1"
    by (rule bit_word_eqI)
       (auto simp: le32_def le16_def uchar_u32_def bit_simps dest: bit_imp_le_length)
  then show ?thesis by (simp add: mask_eq_exp_minus_1)
qed

lemma le32_and_ffffff: "le32 b0 b1 b2 b3 AND 0xffffff = le16 b0 b1 + push_bit 16 (uchar_u32 b2)"
proof -
  have "le16 b0 b1 AND push_bit 16 (uchar_u32 b2) = 0"
    by (rule bit_word_eqI)
       (auto simp: le16_def uchar_u32_def bit_simps dest: bit_imp_le_length)
  then have "le16 b0 b1 + push_bit 16 (uchar_u32 b2) = le16 b0 b1 OR push_bit 16 (uchar_u32 b2)"
    by (rule disjunctive_add_eq_or)
  moreover have "le32 b0 b1 b2 b3 AND mask 24 = le16 b0 b1 OR push_bit 16 (uchar_u32 b2)"
    by (rule bit_word_eqI)
       (auto simp: le32_def le16_def uchar_u32_def bit_simps dest: bit_imp_le_length)
  ultimately show ?thesis by (simp add: mask_eq_exp_minus_1)
qed

lemmas k32_masks = le32_and_ff le32_and_ffff le32_and_ffffff

lemma k32_and:
  "k32 m p i AND 0xff = k8 m p (4 * i)"
  "k32 m p i AND 0xffff = k16 m p (2 * i)"
  "k32 m p i AND 0xffffff = k16 m p (2 * i) + push_bit 16 (k8 m p (4 * i + 2))"
  by (simp_all add: k32_def k16_def k8_def k32_masks add.assoc)

lemmas word_sums = k32_k16 k16_sum push_bit_add push_bit_push_bit add.assoc

lemma jenkins32_loop_eq: "jenkins32_loop m p len abc = jenkins8_loop m p len abc"
proof (induction m p len abc rule: jenkins32_loop.induct)
  case (1 m p len a b c)
  then show ?case
    by (subst jenkins32_loop.simps, subst jenkins8_loop.simps) (simp add: word_sums Let_def
        del: jenkins32_loop.simps jenkins8_loop.simps)
qed

lemma jenkins16_loop_eq: "jenkins16_loop m p len abc = jenkins8_loop m p len abc"
proof (induction m p len abc rule: jenkins16_loop.induct)
  case (1 m p len a b c)
  then show ?case
    by (subst jenkins16_loop.simps, subst jenkins8_loop.simps) (simp add: word_sums Let_def
        del: jenkins16_loop.simps jenkins8_loop.simps)
qed

lemma le_12_cases:
  fixes len :: nat
  assumes "len \<le> 12"
  obtains "len = 0" | "len = 1" | "len = 2" | "len = 3" | "len = 4" | "len = 5" | "len = 6"
    | "len = 7" | "len = 8" | "len = 9" | "len = 10" | "len = 11" | "len = 12"
  using assms by (force simp: eval_nat_numeral le_Suc_eq)

lemma jenkins32_tail_eq: "len \<le> 12 \<Longrightarrow> jenkins32_tail m p len abc = jenkins8_tail m p len abc"
  by (cases abc, erule le_12_cases)
     (simp_all add: jenkins32_tail_def jenkins8_tail_def k32_and Let_def,
      simp_all add: word_sums add_ac numeral_2_eq_2 [symmetric])

lemma jenkins16_tail_eq: "len \<le> 12 \<Longrightarrow> jenkins16_tail m p len abc = jenkins8_tail m p len abc"
  by (cases abc, erule le_12_cases)
     (simp_all add: jenkins16_tail_def jenkins8_tail_def Let_def, simp_all add: word_sums add_ac numeral_2_eq_2 [symmetric])

text \<open>One turn of the byte loop, and the loop unfolded by one turn.\<close>

definition jenkins8_block :: "(nat \<Rightarrow> byte) \<Rightarrow> nat \<Rightarrow> abc \<Rightarrow> abc" where
  "jenkins8_block m p = (\<lambda>(a, b, c). let k = k8 m p in jenkins_mix
     (a + k 0 + push_bit 8 (k 1) + push_bit 16 (k 2) + push_bit 24 (k 3),
      b + k 4 + push_bit 8 (k 5) + push_bit 16 (k 6) + push_bit 24 (k 7),
      c + k 8 + push_bit 8 (k 9) + push_bit 16 (k 10) + push_bit 24 (k 11)))"

lemma jenkins8_loop_more:
  "12 < len \<Longrightarrow>
     jenkins8_loop m p len abc = jenkins8_loop m (p + 12) (len - 12) (jenkins8_block m p abc)"
  by (cases abc) (simp add: jenkins8_block_def Let_def)

lemma jenkins8_loop_done: "len \<le> 12 \<Longrightarrow> jenkins8_loop m p len abc = (p, len, abc)"
  by (cases abc) simp

lemma jenkins8_loop_rest:
  "jenkins8_loop m p len abc = (p', len', abc') \<Longrightarrow> len' \<le> 12 \<and> p' + len' = p + len"
proof (induction len arbitrary: p abc rule: less_induct)
  case (less len)
  show ?case
  proof (cases "len \<le> 12")
    case False
    with less.prems less.IH [of "len - 12" "p + 12"] show ?thesis
      by (simp add: jenkins8_loop_more)
  qed (use less.prems in \<open>simp add: jenkins8_loop_done\<close>)
qed

text \<open>The byte version reads inside the key only.\<close>

lemma jenkins8_block_reads:
  "\<forall>i < p + 12. m i = m' i \<Longrightarrow> jenkins8_block m p abc = jenkins8_block m' p abc"
  by (cases abc) (simp add: jenkins8_block_def k8_def)

lemma jenkins8_loop_reads:
  "\<forall>i < p + len. m i = m' i \<Longrightarrow> jenkins8_loop m p len abc = jenkins8_loop m' p len abc"
proof (induction len arbitrary: p abc rule: less_induct)
  case (less len)
  show ?case
  proof (cases "len \<le> 12")
    case False
    with less.prems less.IH [of "len - 12" "p + 12"] show ?thesis
      by (simp add: jenkins8_loop_more jenkins8_block_reads [of p m m'])
  qed (simp add: jenkins8_loop_done)
qed

lemma jenkins8_tail_reads:
  assumes "len \<le> 12" "\<forall>i < p + len. m i = m' i"
  shows "jenkins8_tail m p len abc = jenkins8_tail m' p len abc"
proof -
  have r: "i < len \<Longrightarrow> k8 m p i = k8 m' p i" for i
    using assms(2) by (simp add: k8_def)
  show ?thesis
    using assms(1) by (cases abc, erule_tac le_12_cases) (simp_all add: jenkins8_tail_def r Let_def)
qed

lemma jenkins8_reads:
  assumes "\<forall>i < len. m i = m' i"
  shows "jenkins_end (jenkins8_tail m) (jenkins8_loop m 0 len abc)
       = jenkins_end (jenkins8_tail m') (jenkins8_loop m' 0 len abc)"
proof -
  obtain p' len' abc' where l: "jenkins8_loop m 0 len abc = (p', len', abc')"
    by (cases "jenkins8_loop m 0 len abc")
  with assms have "jenkins8_loop m' 0 len abc = (p', len', abc')"
    using jenkins8_loop_reads [of 0 len m m' abc] by simp
  moreover have "jenkins8_tail m p' len' abc' = jenkins8_tail m' p' len' abc'"
    using jenkins8_loop_rest [OF l] assms
    by (intro jenkins8_tail_reads) auto
  ultimately show ?thesis by (simp add: l jenkins_end_def)
qed

lemma jenkinsHash_bytes:
  "jenkinsHash addr m len
     = (let i = 0xdeadbeef + of_nat len + JENKINS_INITVAL in
        jenkins_end (jenkins8_tail m) (jenkins8_loop m 0 len (i, i, i)))"
proof -
  have "jenkins_end (jenkins32_tail m) (jenkins8_loop m 0 len abc)
      = jenkins_end (jenkins8_tail m) (jenkins8_loop m 0 len abc)"
    "jenkins_end (jenkins16_tail m) (jenkins8_loop m 0 len abc)
      = jenkins_end (jenkins8_tail m) (jenkins8_loop m 0 len abc)" for abc
    by (cases "jenkins8_loop m 0 len abc",
        simp add: jenkins_end_def jenkins32_tail_eq jenkins16_tail_eq jenkins8_loop_rest)+
  then show ?thesis
    by (simp add: jenkinsHash_def jenkins32_loop_eq jenkins16_loop_eq Let_def
        del: jenkins32_loop.simps jenkins16_loop.simps jenkins8_loop.simps)
qed

text \<open>C40. Jenkins' hash is a function of the bytes of the key: its three versions, for keys
  aligned to four bytes, to two bytes and unaligned, return the same hash, and the bytes that
  the aligned version reads past the end of the key have no influence.\<close>

theorem jenkinsHash_of_bytes:
  assumes "\<forall>i < key_length. m i = m' i"
  shows "jenkinsHash addr m key_length = jenkinsHash addr' m' key_length"
  using jenkins8_reads [OF assms] by (simp only: jenkinsHash_bytes Let_def)

theorem jenkinsHash_of_bytes_witness:
  "jenkinsHash 0x1000 (\<lambda>i. if i < 5 then 0x61 else 0xff) 5
     = jenkinsHash 0x1001 (\<lambda>i. if i < 5 then 0x61 else 0) 5"
  by (rule jenkinsHash_of_bytes) simp

end
