(* ===== verification/HashMd5.thy ===== *)
theory HashMd5
  imports HashBlock
begin

text \<open>
  The class \<open>NcMd5\<close> of \<^verbatim>\<open>nc_hashkit.h\<close>: the compression loop \<open>body\<close>, the incremental
  \<open>update\<close> with its 64-byte buffer and its split byte count, and \<open>hfinal\<close>. The last section
  gives the specification of RFC 1321 (pad the message, compress its blocks) and a refinement:
  the object represents the message received so far, every operation keeps this, and the
  result is the digest of that message.
\<close>

section \<open>The compression function\<close>

text \<open>The macros \<open>F\<close>, \<open>G\<close>, \<open>H\<close> and \<open>I\<close>.\<close>

definition md5_F :: "u32 \<Rightarrow> u32 \<Rightarrow> u32 \<Rightarrow> u32" where
  "md5_F x y z = z XOR (x AND (y XOR z))"
definition md5_G :: "u32 \<Rightarrow> u32 \<Rightarrow> u32 \<Rightarrow> u32" where
  "md5_G x y z = y XOR (z AND (x XOR y))"
definition md5_H :: "u32 \<Rightarrow> u32 \<Rightarrow> u32 \<Rightarrow> u32" where
  "md5_H x y z = x XOR y XOR z"
definition md5_I :: "u32 \<Rightarrow> u32 \<Rightarrow> u32 \<Rightarrow> u32" where
  "md5_I x y z = y XOR (x OR NOT z)"

text \<open>
  \<open>STEP(f, a, b, c, d, x, t, s)\<close> updates \<open>a\<close>. The 64 lines of \<open>body\<close> name the registers in
  the orders \<open>abcd\<close>, \<open>dabc\<close>, \<open>cdab\<close>, \<open>bcda\<close>, so each step also rotates the roles.
\<close>

type_synonym md5_regs = "u32 \<times> u32 \<times> u32 \<times> u32"

definition md5_step ::
  "(u32 \<Rightarrow> u32 \<Rightarrow> u32 \<Rightarrow> u32) \<Rightarrow> (nat \<Rightarrow> u32) \<Rightarrow> md5_regs \<Rightarrow> nat \<times> u32 \<times> nat \<Rightarrow> md5_regs" where
  "md5_step f X = (\<lambda>(a, b, c, d) (k, t, s).
     let a = a + (f b c d + X k + t);
         a = push_bit s a OR drop_bit (32 - s) (a AND 0xffffffff);
         a = a + b
     in (d, a, b, c))"

text \<open>The lines of the four rounds: index of the input word, constant and rotation.\<close>

definition md5_round1 :: "(nat \<times> u32 \<times> nat) list" where
  "md5_round1 = [
   (0, 0xd76aa478, 7), (1, 0xe8c7b756, 12), (2, 0x242070db, 17), (3, 0xc1bdceee, 22),
   (4, 0xf57c0faf, 7), (5, 0x4787c62a, 12), (6, 0xa8304613, 17), (7, 0xfd469501, 22),
   (8, 0x698098d8, 7), (9, 0x8b44f7af, 12), (10, 0xffff5bb1, 17), (11, 0x895cd7be, 22),
   (12, 0x6b901122, 7), (13, 0xfd987193, 12), (14, 0xa679438e, 17), (15, 0x49b40821, 22)]"

definition md5_round2 :: "(nat \<times> u32 \<times> nat) list" where
  "md5_round2 = [
   (1, 0xf61e2562, 5), (6, 0xc040b340, 9), (11, 0x265e5a51, 14), (0, 0xe9b6c7aa, 20),
   (5, 0xd62f105d, 5), (10, 0x02441453, 9), (15, 0xd8a1e681, 14), (4, 0xe7d3fbc8, 20),
   (9, 0x21e1cde6, 5), (14, 0xc33707d6, 9), (3, 0xf4d50d87, 14), (8, 0x455a14ed, 20),
   (13, 0xa9e3e905, 5), (2, 0xfcefa3f8, 9), (7, 0x676f02d9, 14), (12, 0x8d2a4c8a, 20)]"

definition md5_round3 :: "(nat \<times> u32 \<times> nat) list" where
  "md5_round3 = [
   (5, 0xfffa3942, 4), (8, 0x8771f681, 11), (11, 0x6d9d6122, 16), (14, 0xfde5380c, 23),
   (1, 0xa4beea44, 4), (4, 0x4bdecfa9, 11), (7, 0xf6bb4b60, 16), (10, 0xbebfbc70, 23),
   (13, 0x289b7ec6, 4), (0, 0xeaa127fa, 11), (3, 0xd4ef3085, 16), (6, 0x04881d05, 23),
   (9, 0xd9d4d039, 4), (12, 0xe6db99e5, 11), (15, 0x1fa27cf8, 16), (2, 0xc4ac5665, 23)]"

definition md5_round4 :: "(nat \<times> u32 \<times> nat) list" where
  "md5_round4 = [
   (0, 0xf4292244, 6), (7, 0x432aff97, 10), (14, 0xab9423a7, 15), (5, 0xfc93a039, 21),
   (12, 0x655b59c3, 6), (3, 0x8f0ccc92, 10), (10, 0xffeff47d, 15), (1, 0x85845dd1, 21),
   (8, 0x6fa87e4f, 6), (15, 0xfe2ce6e0, 10), (6, 0xa3014314, 15), (13, 0x4e0811a1, 21),
   (4, 0xf7537e82, 6), (11, 0xbd3af235, 10), (2, 0x2ad7d2bb, 15), (9, 0xeb86d391, 21)]"

text \<open>\<open>SET(n)\<close> and \<open>GET(n)\<close>: the \<open>n\<close>-th little-endian word of the block.\<close>

definition md5_SET :: "bytes \<Rightarrow> nat \<Rightarrow> u32" where
  "md5_SET ptr n = le32 (ptr ! (n * 4)) (ptr ! (n * 4 + 1)) (ptr ! (n * 4 + 2)) (ptr ! (n * 4 + 3))"

definition md5_rounds :: "bytes \<Rightarrow> md5_regs \<Rightarrow> md5_regs" where
  "md5_rounds ptr regs =
     (let r1 = foldl (md5_step md5_F (md5_SET ptr)) regs md5_round1;
          r2 = foldl (md5_step md5_G (md5_SET ptr)) r1 md5_round2;
          r3 = foldl (md5_step md5_H (md5_SET ptr)) r2 md5_round3
      in foldl (md5_step md5_I (md5_SET ptr)) r3 md5_round4)"

definition md5_block :: "md5_regs \<Rightarrow> bytes \<Rightarrow> md5_regs" where
  "md5_block = (\<lambda>(saved_a, saved_b, saved_c, saved_d) ptr.
     case md5_rounds ptr (saved_a, saved_b, saved_c, saved_d) of
       (a, b, c, d) \<Rightarrow> (a + saved_a, b + saved_b, c + saved_c, d + saved_d))"

text \<open>
  The \<open>do ... while (size -= 64)\<close> loop over the data: at least one block is read, and the loop
  stops when exactly nothing is left. On data that is not a positive multiple of 64 bytes it
  runs past the end (\<open>None\<close>).
\<close>

fun md5_body :: "md5_regs \<Rightarrow> bytes \<Rightarrow> md5_regs option" where
  "md5_body regs data =
     (if length data < 64 then None
      else let regs' = md5_block regs (take 64 data); rest = drop 64 data
           in if rest = [] then Some regs' else md5_body regs' rest)"

declare md5_body.simps [simp del]

section \<open>The object\<close>

record md5 =
  m_lo :: u32
  m_hi :: u32
  m_abcd :: md5_regs
  m_buffer :: bytes

text \<open>The constructor leaves the 64 bytes of the buffer uninitialised: they are a parameter.\<close>

definition md5_new :: "bytes \<Rightarrow> md5" where
  "md5_new buf = \<lparr>m_lo = 0, m_hi = 0,
     m_abcd = (0x67452301, 0xefcdab89, 0x98badcfe, 0x10325476), m_buffer = buf\<rparr>"

text \<open>\<open>memcpy(&buf[off], data, n)\<close>; \<open>None\<close> when it leaves the buffer.\<close>

definition buf_copy :: "bytes \<Rightarrow> nat \<Rightarrow> bytes \<Rightarrow> bytes option" where
  "buf_copy buf off data =
     (if off + length data \<le> length buf
      then Some (take off buf @ data @ drop (off + length data) buf) else None)"

text \<open>
  The two middle parts of \<open>update(data, size)\<close>: completing the block in the buffer, and
  compressing the complete blocks of the data. Each returns the data still to process.
\<close>

definition md5_fill :: "md5 \<Rightarrow> nat \<Rightarrow> bytes \<Rightarrow> (md5 \<times> bytes) option" where
  "md5_fill st used data =
     (if used \<noteq> 0 then do {
        let free = 64 - used;
        buf \<leftarrow> buf_copy (m_buffer st) used (take free data);
        regs \<leftarrow> md5_body (m_abcd st) buf;
        Some (st\<lparr>m_buffer := buf, m_abcd := regs\<rparr>, drop free data)
      } else Some (st, data))"

definition md5_full :: "md5 \<Rightarrow> bytes \<Rightarrow> (md5 \<times> bytes) option" where
  "md5_full st data =
     (if length data \<ge> 64 then do {
        let n = 64 * (length data div 64);
        regs \<leftarrow> md5_body (m_abcd st) (take n data);
        Some (st\<lparr>m_abcd := regs\<rparr>, drop n data)
      } else Some (st, data))"

text \<open>\<open>update(data, size)\<close>. The count of bytes is kept modulo \<open>2 ^ 29\<close> in \<open>m_lo\<close>.\<close>

definition md5_update :: "md5 \<Rightarrow> bytes \<Rightarrow> md5 option" where
  "md5_update st data = do {
     let size = (of_nat (length data) :: u64);
     let saved_lo = m_lo st;
     let lo = (ucast ((ucast saved_lo + size) AND 0x1fffffff) :: u32);
     let hi = (if lo < saved_lo then m_hi st + 1 else m_hi st);
     let hi = hi + ucast (drop_bit 29 size);
     let st = st\<lparr>m_lo := lo, m_hi := hi\<rparr>;
     let used = unat (saved_lo AND 0x3f);
     let free = 64 - used;
     if used \<noteq> 0 \<and> length data < free then do {
       buf \<leftarrow> buf_copy (m_buffer st) used data;
       Some (st\<lparr>m_buffer := buf\<rparr>)
     } else do {
       (st, data) \<leftarrow> md5_fill st used data;
       (st, data) \<leftarrow> md5_full st data;
       buf \<leftarrow> buf_copy (m_buffer st) 0 data;
       Some (st\<lparr>m_buffer := buf\<rparr>)
     }
   }"

text \<open>The four bytes that \<open>hfinal\<close> stores of a word: \<open>w, w >> 8, w >> 16, w >> 24\<close>.\<close>

definition word_bytes :: "u32 \<Rightarrow> bytes" where
  "word_bytes w = [ucast w, ucast (drop_bit 8 w), ucast (drop_bit 16 w), ucast (drop_bit 24 w)]"

definition md5_hfinal :: "md5 \<Rightarrow> (md5 \<times> bytes) option" where
  "md5_hfinal st = do {
     let used = unat (m_lo st AND 0x3f);
     buf \<leftarrow> buf_copy (m_buffer st) used [0x80];
     let used = used + 1;
     let free = 64 - used;
     (regs, buf, used, free) \<leftarrow>
       (if free < 8 then do {
          buf \<leftarrow> buf_copy buf used (replicate free 0);
          regs \<leftarrow> md5_body (m_abcd st) buf;
          Some (regs, buf, 0, 64)
        } else Some (m_abcd st, buf, used, free));
     buf \<leftarrow> buf_copy buf used (replicate (free - 8) 0);
     let lo = push_bit 3 (m_lo st);
     buf \<leftarrow> buf_copy buf 56 (word_bytes lo);
     buf \<leftarrow> buf_copy buf 60 (word_bytes (m_hi st));
     regs \<leftarrow> md5_body regs buf;
     let (a, b, c, d) = regs;
     let result = word_bytes a @ word_bytes b @ word_bytes c @ word_bytes d;
     Some (st\<lparr>m_lo := lo, m_abcd := regs, m_buffer := replicate 64 0\<rparr>, result)
   }"

definition md5_signature :: "md5 \<Rightarrow> bytes \<Rightarrow> (md5 \<times> bytes) option" where
  "md5_signature st key = Option.bind (md5_update st key) md5_hfinal"

text \<open>\<open>md5Hash\<close>: the first four bytes of the digest, little-endian.\<close>

definition md5Hash :: "bytes \<Rightarrow> bytes \<Rightarrow> u32 option" where
  "md5Hash buf key = do {
     (_, results) \<leftarrow> md5_signature (md5_new buf) key;
     Some (push_bit 24 (ucast (results ! 3 AND 0xff)) OR push_bit 16 (ucast (results ! 2 AND 0xff))
        OR push_bit 8 (ucast (results ! 1 AND 0xff)) OR ucast (results ! 0 AND 0xff))
   }"

section \<open>Specification: RFC 1321\<close>

text \<open>The auxiliary functions as the RFC writes them.\<close>

lemma md5_F_rfc: "md5_F x y z = (x AND y) OR (NOT x AND z)"
  by (rule bit_word_eqI) (auto simp: md5_F_def bit_simps)

lemma md5_G_rfc: "md5_G x y z = (x AND z) OR (y AND NOT z)"
  by (rule bit_word_eqI) (auto simp: md5_G_def bit_simps)

text \<open>The digest of the complete blocks of a message, and what is left after them.\<close>

fun md5_blocks :: "md5_regs \<Rightarrow> bytes \<Rightarrow> md5_regs" where
  "md5_blocks regs msg =
     (if length msg < 64 then regs else md5_blocks (md5_block regs (take 64 msg)) (drop 64 msg))"

declare md5_blocks.simps [simp del]

definition md5_rest :: "bytes \<Rightarrow> bytes" where
  "md5_rest msg = drop (64 * (length msg div 64)) msg"

definition md5_pad :: "bytes \<Rightarrow> bytes" where
  "md5_pad msg = msg @ 0x80 # replicate ((119 - length msg mod 64) mod 64) 0
     @ word_bytes (of_nat (8 * length msg)) @ word_bytes (of_nat (8 * length msg div 2 ^ 32))"

definition md5_init :: md5_regs where
  "md5_init = (0x67452301, 0xefcdab89, 0x98badcfe, 0x10325476)"

definition regs_bytes :: "md5_regs \<Rightarrow> bytes" where
  "regs_bytes = (\<lambda>(a, b, c, d). word_bytes a @ word_bytes b @ word_bytes c @ word_bytes d)"

definition md5_spec :: "bytes \<Rightarrow> bytes" where
  "md5_spec msg = regs_bytes (md5_blocks md5_init (md5_pad msg))"

section \<open>Refinement\<close>

text \<open>The object \<open>st\<close> represents the message \<open>msg\<close> received so far.\<close>

definition md5_repr :: "md5 \<Rightarrow> bytes \<Rightarrow> bool" where
  "md5_repr st msg \<longleftrightarrow>
     length (m_buffer st) = 64
     \<and> m_abcd st = md5_blocks md5_init msg
     \<and> take (length msg mod 64) (m_buffer st) = md5_rest msg
     \<and> unat (m_lo st) = length msg mod 2 ^ 29
     \<and> m_hi st = of_nat (length msg div 2 ^ 29)"

lemma md5_blocks_short: "length msg < 64 \<Longrightarrow> md5_blocks regs msg = regs"
  by (simp add: md5_blocks.simps)

lemma md5_blocks_append:
  "64 dvd length xs \<Longrightarrow> md5_blocks regs (xs @ ys) = md5_blocks (md5_blocks regs xs) ys"
proof (induction regs xs rule: md5_blocks.induct)
  case (1 regs xs)
  show ?case
  proof (cases "length xs < 64")
    case True
    with 1(2) have "xs = []" by (auto dest: dvd_imp_le)
    then show ?thesis by (simp add: md5_blocks_short)
  next
    case False
    with 1(2) have "64 dvd length (drop 64 xs)" by (simp add: dvd_diff_nat)
    from 1(1) [OF False this] False show ?thesis
      by (simp add: md5_blocks.simps [of regs "xs @ ys"] md5_blocks.simps [of regs xs])
  qed
qed

lemma md5_body_blocks:
  "64 dvd length data \<Longrightarrow> data \<noteq> [] \<Longrightarrow> md5_body regs data = Some (md5_blocks regs data)"
proof (induction regs data rule: md5_body.induct)
  case (1 regs data)
  then have len: "\<not> length data < 64" by (auto dest: dvd_imp_le)
  show ?case
  proof (cases "drop 64 data = []")
    case True
    with len show ?thesis
      by (simp add: md5_body.simps md5_blocks.simps [of regs data] md5_blocks_short)
  next
    case False
    from 1(2) len have "64 dvd length (drop 64 data)" by (simp add: dvd_diff_nat)
    from 1(1) [OF len refl refl False this False] len False show ?thesis
      by (subst md5_body.simps, subst md5_blocks.simps) simp
  qed
qed

lemma buf_copy_prefix:
  assumes "buf_copy buf off data = Some buf'"
  shows "length buf' = length buf" "take (off + length data) buf' = take off buf @ data"
    "take off buf' = take off buf"
  using assms by (auto simp: buf_copy_def split: if_splits)

lemma buf_copy_Some:
  "off + length data \<le> length buf \<Longrightarrow> \<exists>buf'. buf_copy buf off data = Some buf'"
  by (simp add: buf_copy_def)

lemma md5_rest_length [simp]: "length (md5_rest msg) = length msg mod 64"
  by (simp add: md5_rest_def minus_mult_div_eq_mod)

lemma md5_rest_split: "take (64 * (length msg div 64)) msg @ md5_rest msg = msg"
  by (simp add: md5_rest_def)
lemma md5_rest_append:
  "64 dvd length xs \<Longrightarrow> length ys < 64 \<Longrightarrow> md5_rest (xs @ ys) = ys"
  by (auto simp: md5_rest_def)

lemma md5_blocks_rest:
  "64 dvd length xs \<Longrightarrow> length ys < 64 \<Longrightarrow> md5_blocks regs (xs @ ys) = md5_blocks regs xs"
  by (simp add: md5_blocks_append md5_blocks_short)

text \<open>A message as complete blocks and a rest.\<close>

lemma md5_split:
  obtains blocks where "msg = blocks @ md5_rest msg" "64 dvd length blocks"
proof
  show "msg = take (64 * (length msg div 64)) msg @ md5_rest msg"
    by (simp add: md5_rest_split)
  show "64 dvd length (take (64 * (length msg div 64)) msg)" by simp
qed

subsection \<open>The byte count\<close>

lemma and_mask_29: "x AND 0x1fffffff = take_bit 29 (x::u64)"
  by (simp add: take_bit_eq_mask mask_eq_exp_minus_1)

lemma unat_and_3f: "unat (x AND 0x3f) = unat (x::u32) mod 64"
proof -
  have "x AND 0x3f = take_bit 6 x" by (simp add: take_bit_eq_mask mask_eq_exp_minus_1)
  then have "unat (x AND 0x3f) = unat x mod 2 ^ 6" by (simp only: unat_take_bit)
  then show ?thesis by simp
qed

text \<open>The sum of \<open>m_lo\<close> and the size is cut to 29 bits; the carry is found by comparing.\<close>

definition count_lo :: "u32 \<Rightarrow> nat \<Rightarrow> u32" where
  "count_lo lo n = ucast ((ucast lo + of_nat n :: u64) AND 0x1fffffff)"

lemma unat_count_lo:
  assumes "unat lo < 2 ^ 29" "n < 2 ^ 63"
  shows "unat (count_lo lo n) = (unat lo + n) mod 2 ^ 29"
proof -
  have n: "unat (of_nat n :: u64) = n"
    using assms(2) by (simp add: unat_of_nat take_bit_nat_eq_self)
  have "unat (ucast lo + of_nat n :: u64) = unat lo + n"
    using assms by (simp add: unat_word_ariths n)
  then have m: "unat ((ucast lo + of_nat n :: u64) AND 0x1fffffff) = (unat lo + n) mod 2 ^ 29"
    by (simp only: and_mask_29 unat_take_bit)
  have "(unat lo + n) mod 2 ^ 29 < 2 ^ 32"
    by (rule less_trans [of _ "2 ^ 29"]) simp_all
  then show ?thesis
    unfolding count_lo_def unsigned_ucast_eq m by (intro take_bit_nat_eq_self) simp
qed

lemma div_mod_carry:
  fixes p q b :: nat
  assumes "p < b" "q < b"
  shows "(p + q) div b = (if p + q < b then 0 else 1)"
    and "(p + q) mod b = (if p + q < b then p + q else p + q - b)"
proof -
  have "p + q - b < b" using assms by linarith
  then show "(p + q) mod b = (if p + q < b then p + q else p + q - b)"
    by (simp add: mod_if [of "p + q"])
  show "(p + q) div b = (if p + q < b then 0 else 1)"
    using \<open>p + q - b < b\<close> assms by (simp add: div_if [of "p + q"])
qed

lemma carry_div:
  fixes l n :: nat
  assumes "0 < b"
  shows "(l + n) div b = l div b + n div b + (if (l + n) mod b < l mod b then 1 else 0)"
proof -
  have b: "l mod b < b" "n mod b < b" using assms by simp_all
  have m: "(l + n) mod b = (l mod b + n mod b) mod b" by (rule mod_add_eq [symmetric])
  show ?thesis
    unfolding div_add1_eq [of l n] m div_mod_carry [OF b] using b by auto
qed

lemma md5_update_count:
  assumes "md5_repr st msg" "length data < 2 ^ 63"
  defines "lo \<equiv> count_lo (m_lo st) (length data)"
  shows "unat lo = length (msg @ data) mod 2 ^ 29"
    and "(if lo < m_lo st then m_hi st + 1 else m_hi st) + ucast (drop_bit 29 (of_nat (length data) :: u64))
       = of_nat (length (msg @ data) div 2 ^ 29)"
proof -
  let ?l = "length msg" and ?n = "length data"
  have st: "unat (m_lo st) = ?l mod 2 ^ 29" "m_hi st = of_nat (?l div 2 ^ 29)"
    using assms(1) by (simp_all add: md5_repr_def)
  then have "unat (m_lo st) < 2 ^ 29" by simp
  then show lo: "unat lo = length (msg @ data) mod 2 ^ 29"
    unfolding lo_def using assms(2) st by (simp add: unat_count_lo mod_simps)
  have less: "lo < m_lo st \<longleftrightarrow> (?l + ?n) mod 2 ^ 29 < ?l mod 2 ^ 29"
    by (simp add: word_less_nat_alt lo st)
  have n: "unat (of_nat ?n :: u64) = ?n"
    using assms(2) by (simp add: unat_of_nat take_bit_nat_eq_self)
  have d: "unat (drop_bit 29 (of_nat ?n :: u64)) = ?n div 2 ^ 29"
    by (simp only: unat_drop_bit n)
  have shift: "ucast (drop_bit 29 (of_nat ?n :: u64)) = (of_nat (?n div 2 ^ 29) :: u32)"
    unfolding word_unat_eq_iff unsigned_ucast_eq d by (simp only: unat_of_nat take_bit_eq_mod)
  have c: "(?l + ?n) div 2 ^ 29 = ?l div 2 ^ 29 + ?n div 2 ^ 29
      + (if (?l + ?n) mod 2 ^ 29 < ?l mod 2 ^ 29 then 1 else 0)"
    by (rule carry_div) simp
  show "(if lo < m_lo st then m_hi st + 1 else m_hi st) + ucast (drop_bit 29 (of_nat ?n :: u64))
      = of_nat (length (msg @ data) div 2 ^ 29)"
    unfolding shift less length_append c st(2) by simp
qed

subsection \<open>Every operation keeps the representation\<close>

text \<open>\<open>regs\<close> and \<open>buf\<close> represent a message as far as its blocks are concerned.\<close>

definition md5_data :: "md5_regs \<Rightarrow> bytes \<Rightarrow> bytes \<Rightarrow> bool" where
  "md5_data regs buf msg \<longleftrightarrow>
     length buf = 64 \<and> regs = md5_blocks md5_init msg
     \<and> take (length msg mod 64) buf = md5_rest msg"

lemma md5_repr_data:
  "md5_repr st msg \<longleftrightarrow> md5_data (m_abcd st) (m_buffer st) msg
     \<and> unat (m_lo st) = length msg mod 2 ^ 29 \<and> m_hi st = of_nat (length msg div 2 ^ 29)"
  by (auto simp: md5_repr_def md5_data_def)

lemma mod_64_bound: "(n::nat) mod 64 < 64" by simp

text \<open>Bytes that fit behind the rest only go to the buffer.\<close>

lemma md5_data_short:
  assumes "md5_data regs buf msg" "length msg mod 64 + length data < 64"
    and "buf_copy buf (length msg mod 64) data = Some buf'"
  shows "md5_data regs buf' (msg @ data)"
proof -
  obtain blocks where b: "msg = blocks @ md5_rest msg" "64 dvd length blocks"
    by (rule md5_split)
  have l: "length (md5_rest msg @ data) < 64" using assms(2) by simp
  have m: "msg @ data = blocks @ (md5_rest msg @ data)" using b(1) by (metis append.assoc)
  have "length (msg @ data) mod 64 = length (md5_rest msg @ data)"
    unfolding m using b(2) l by (auto elim!: dvdE)
  moreover have "md5_rest (msg @ data) = md5_rest msg @ data"
    unfolding m using b(2) l by (rule md5_rest_append)
  moreover have "md5_blocks md5_init (msg @ data) = md5_blocks md5_init msg"
    unfolding m using b l mod_64_bound [of "length msg"]
    by (metis md5_blocks_rest md5_rest_length)
  ultimately show ?thesis
    using assms(1) buf_copy_prefix [OF assms(3)] by (simp add: md5_data_def)
qed

text \<open>Bytes that complete the block in the buffer.\<close>

lemma md5_data_fill:
  assumes "md5_data regs buf msg" "length msg mod 64 + length data = 64"
    and "buf_copy buf (length msg mod 64) data = Some buf'"
  shows "md5_body regs buf' = Some (md5_blocks md5_init (msg @ data))"
    and "md5_data (md5_blocks md5_init (msg @ data)) buf' (msg @ data)"
proof -
  obtain blocks where b: "msg = blocks @ md5_rest msg" "64 dvd length blocks"
    by (rule md5_split)
  have regs: "regs = md5_blocks md5_init blocks"
    using assms(1) b mod_64_bound [of "length msg"]
    by (metis md5_blocks_rest md5_data_def md5_rest_length)
  have buf': "buf' = md5_rest msg @ data" "length buf' = 64"
    using assms buf_copy_prefix [OF assms(3)] by (simp_all add: md5_data_def)
  have m: "msg @ data = blocks @ buf'" using b(1) buf'(1) by (metis append.assoc)
  have len: "length (msg @ data) mod 64 = 0" unfolding m using b(2) buf'(2) by (auto elim!: dvdE)
  have "buf' \<noteq> []" using buf'(2) by auto
  with buf'(2) show "md5_body regs buf' = Some (md5_blocks md5_init (msg @ data))"
    unfolding m regs by (simp add: md5_body_blocks md5_blocks_append b(2))
  have "md5_rest (msg @ data) = []"
    using len by (metis length_0_conv md5_rest_length)
  with len buf'(2) show "md5_data (md5_blocks md5_init (msg @ data)) buf' (msg @ data)"
    by (simp add: md5_data_def)
qed

text \<open>Complete blocks with an empty rest.\<close>

lemma md5_data_blocks:
  assumes "md5_data regs buf msg" "64 dvd length msg" "64 dvd length data" "data \<noteq> []"
  shows "md5_body regs data = Some (md5_blocks md5_init (msg @ data))"
    and "md5_data (md5_blocks md5_init (msg @ data)) buf (msg @ data)"
proof -
  show "md5_body regs data = Some (md5_blocks md5_init (msg @ data))"
    using assms by (simp add: md5_data_def md5_body_blocks md5_blocks_append)
  have "64 dvd length (msg @ data)" using assms(2,3) by simp
  then have "length (msg @ data) mod 64 = 0" by presburger
  moreover from this have "md5_rest (msg @ data) = []"
    by (metis length_0_conv md5_rest_length)
  ultimately show "md5_data (md5_blocks md5_init (msg @ data)) buf (msg @ data)"
    using assms(1) by (simp add: md5_data_def)
qed

lemma md5_used: "md5_repr st msg \<Longrightarrow> unat (m_lo st AND 0x3f) = length msg mod 64"
  by (simp add: md5_repr_def unat_and_3f mod_mod_cancel)

text \<open>The block in the buffer is completed, or there is none.\<close>

lemma md5_fill_repr:
  assumes "md5_data (m_abcd st) (m_buffer st) msg"
    and "length msg mod 64 \<noteq> 0 \<Longrightarrow> 64 - length msg mod 64 \<le> length data"
  obtains st' d1 d2 where "md5_fill st (length msg mod 64) data = Some (st', d2)"
    "data = d1 @ d2" "md5_data (m_abcd st') (m_buffer st') (msg @ d1)" "64 dvd length (msg @ d1)"
    "m_lo st' = m_lo st" "m_hi st' = m_hi st"
proof (cases "length msg mod 64 = 0")
  case True
  with assms(1) that [of st data "[]"] show ?thesis
    by (simp add: md5_fill_def dvd_eq_mod_eq_0)
next
  case u: False
  let ?u = "length msg mod 64"
  define d1 d2 where d: "d1 = take (64 - ?u) data" "d2 = drop (64 - ?u) data"
  have buf: "length (m_buffer st) = 64" using assms(1) by (simp add: md5_data_def)
  have l: "?u + length d1 = 64" using assms(2) u by (simp add: d)
  obtain buf' where b: "buf_copy (m_buffer st) ?u d1 = Some buf'"
    using buf_copy_Some [of ?u d1 "m_buffer st"] buf l by auto
  let ?st = "st\<lparr>m_buffer := buf', m_abcd := md5_blocks md5_init (msg @ d1)\<rparr>"
  have "(length msg + length d1) mod 64 = 0"
    using l by (metis mod_add_left_eq mod_self)
  then have "64 dvd length (msg @ d1)" by (simp add: dvd_eq_mod_eq_0)
  moreover have "md5_fill st ?u data = Some (?st, d2)"
    using u b md5_data_fill(1) [OF assms(1) l b] by (simp add: md5_fill_def d Let_def)
  moreover have "data = d1 @ d2" by (simp add: d)
  ultimately show ?thesis
    using that [of ?st d2 d1] md5_data_fill(2) [OF assms(1) l b] by simp
qed

text \<open>The tail of \<open>update\<close>, once the buffer is empty: blocks from the data, rest to the buffer.\<close>

lemma md5_full_repr:
  assumes "md5_data (m_abcd st) (m_buffer st) msg" "64 dvd length msg"
  obtains st' buf' where "md5_full st data = Some (st', md5_rest data)"
    "buf_copy (m_buffer st') 0 (md5_rest data) = Some buf'"
    "md5_data (m_abcd st') buf' (msg @ data)" "m_lo st' = m_lo st" "m_hi st' = m_hi st"
proof -
  let ?n = "64 * (length data div 64)"
  have data: "data = take ?n data @ md5_rest data" by (simp add: md5_rest_split)
  have buf: "length (m_buffer st) = 64" using assms(1) by (simp add: md5_data_def)
  obtain buf' where b: "buf_copy (m_buffer st) 0 (md5_rest data) = Some buf'"
    using buf_copy_Some [of 0 "md5_rest data" "m_buffer st"] buf mod_64_bound [of "length data"] by auto
  define regs' where
    "regs' = (if length data \<ge> 64 then md5_blocks md5_init (msg @ take ?n data) else m_abcd st)"
  let ?st = "st\<lparr>m_abcd := regs'\<rparr>"
  have msg': "64 dvd length (msg @ take ?n data)" using assms(2) by simp
  have d: "md5_data regs' (m_buffer st) (msg @ take ?n data) \<and>
      (length data \<ge> 64 \<longrightarrow> md5_body (m_abcd st) (take ?n data) = Some regs')"
  proof (cases "length data \<ge> 64")
    case True
    then have "take ?n data \<noteq> []" "64 dvd length (take ?n data)" by auto
    from md5_data_blocks [OF assms this(2,1)] True show ?thesis by (simp add: regs'_def)
  qed (use assms in \<open>simp add: regs'_def\<close>)
  have "md5_data regs' buf' ((msg @ take ?n data) @ md5_rest data)"
  proof (rule md5_data_short)
    show "md5_data regs' (m_buffer st) (msg @ take ?n data)" using d by blast
    show "length (msg @ take ?n data) mod 64 + length (md5_rest data) < 64"
      using msg' by (simp del: length_append add: dvd_eq_mod_eq_0)
    show "buf_copy (m_buffer st) (length (msg @ take ?n data) mod 64) (md5_rest data) = Some buf'"
      using b msg' by (simp del: length_append add: dvd_eq_mod_eq_0)
  qed
  then have "md5_data regs' buf' (msg @ data)" using data by (metis append.assoc)
  moreover have "md5_full st data = Some (?st, md5_rest data)"
    using d by (auto simp: regs'_def md5_rest_def md5_full_def Let_def)
  ultimately show ?thesis using b that [of ?st buf'] by simp
qed

lemma md5_update_repr:
  assumes repr: "md5_repr st msg" and len: "length data < 2 ^ 63"
  shows "\<exists>st'. md5_update st data = Some st' \<and> md5_repr st' (msg @ data)"
proof -
  let ?u = "length msg mod 64"
  define lo where "lo = count_lo (m_lo st) (length data)"
  define hi where "hi = (if lo < m_lo st then m_hi st + 1 else m_hi st)
    + ucast (drop_bit 29 (of_nat (length data) :: u64))"
  have count: "unat lo = length (msg @ data) mod 2 ^ 29" "hi = of_nat (length (msg @ data) div 2 ^ 29)"
    unfolding lo_def hi_def by (rule md5_update_count [OF repr len])+
  let ?st = "st\<lparr>m_lo := lo, m_hi := hi\<rparr>"
  have upd: "md5_update st data = (if ?u \<noteq> 0 \<and> length data < 64 - ?u then do {
        buf \<leftarrow> buf_copy (m_buffer ?st) ?u data;
        Some (?st\<lparr>m_buffer := buf\<rparr>)
      } else do {
        (st, data) \<leftarrow> md5_fill ?st ?u data;
        (st, data) \<leftarrow> md5_full st data;
        buf \<leftarrow> buf_copy (m_buffer st) 0 data;
        Some (st\<lparr>m_buffer := buf\<rparr>)
      })"
    by (simp only: md5_update_def Let_def md5_used [OF repr] lo_def hi_def count_lo_def)
  have data: "md5_data (m_abcd ?st) (m_buffer ?st) msg" using repr by (simp add: md5_repr_data)
  then have buf: "length (m_buffer st) = 64" by (simp add: md5_data_def)
  show ?thesis
  proof (cases "?u \<noteq> 0 \<and> length data < 64 - ?u")
    case True
    have less: "?u + length data < 64" using True by linarith
    then have l: "?u + length data \<le> length (m_buffer ?st)" using buf by simp
    obtain buf' where b: "buf_copy (m_buffer ?st) ?u data = Some buf'"
      using buf_copy_Some [OF l] by blast
    have "md5_data (m_abcd st) buf' (msg @ data)"
      using md5_data_short [OF data less b] by simp
    with count True b show ?thesis by (simp add: upd md5_repr_data)
  next
    case False
    obtain st1 d1 d2 where 1: "md5_fill ?st ?u data = Some (st1, d2)" "data = d1 @ d2"
      "m_lo st1 = m_lo ?st" "m_hi st1 = m_hi ?st"
      and r1: "md5_data (m_abcd st1) (m_buffer st1) (msg @ d1)" "64 dvd length (msg @ d1)"
      by (rule md5_fill_repr [OF data, of data]) (use False in auto)
    obtain st2 buf' where 2: "md5_full st1 d2 = Some (st2, md5_rest d2)"
      "buf_copy (m_buffer st2) 0 (md5_rest d2) = Some buf'" "md5_data (m_abcd st2) buf' ((msg @ d1) @ d2)"
      "m_lo st2 = m_lo st1" "m_hi st2 = m_hi st1"
      by (rule md5_full_repr [OF r1, of d2])
    have "md5_update st data = Some (st2\<lparr>m_buffer := buf'\<rparr>)"
      unfolding upd using False by (simp only: if_False 1(1) 2(1,2) bind.bind_lunit prod.case)
    with 1(2-4) 2(3-5) count show ?thesis by (simp add: md5_repr_data)
  qed
qed

subsection \<open>The digest\<close>

lemma buf_copy_append:
  assumes "buf_copy buf off a = Some buf1" "buf_copy buf1 (off + length a) c = Some buf2"
  shows "buf_copy buf off (a @ c) = Some buf2"
proof -
  have l: "off + length a \<le> length buf" "off + length a + length c \<le> length buf"
    and b1: "buf1 = take off buf @ a @ drop (off + length a) buf"
    using assms by (auto simp: buf_copy_def split: if_splits)
  from assms(2) b1 l have "buf2 = (take off buf @ a) @ c @ drop (off + length a + length c) buf"
    by (auto simp: buf_copy_def min_absorb2 add_ac)
  then show ?thesis using l by (simp add: buf_copy_def add_ac)
qed

lemma md5_new_repr: "length buf = 64 \<Longrightarrow> md5_repr (md5_new buf) []"
  by (simp add: md5_repr_def md5_new_def md5_init_def md5_rest_def md5_blocks_short)

lemma word_bytes_length [simp]: "length (word_bytes w) = 4"
  by (simp add: word_bytes_def)

definition md5_bits :: "bytes \<Rightarrow> bytes" where
  "md5_bits msg = word_bytes (of_nat (8 * length msg)) @ word_bytes (of_nat (8 * length msg div 2 ^ 32))"

lemma md5_bits_length [simp]: "length (md5_bits msg) = 8"
  by (simp add: md5_bits_def)

lemma of_nat_mod_32: "of_nat (n mod 2 ^ 32) = (of_nat n :: u32)"
proof -
  have "unat (of_nat n :: u32) = n mod 2 ^ 32"
    unfolding unat_of_nat take_bit_eq_mod by simp
  then show ?thesis by (metis of_nat_unat ucast_id)
qed

lemma md5_bits_repr:
  assumes "md5_repr st msg"
  shows "word_bytes (push_bit 3 (m_lo st)) @ word_bytes (m_hi st) = md5_bits msg"
proof -
  have st: "unat (m_lo st) = length msg mod 2 ^ 29" "m_hi st = of_nat (length msg div 2 ^ 29)"
    using assms by (simp_all add: md5_repr_def)
  have "m_lo st = of_nat (length msg mod 2 ^ 29)" by (simp only: st(1) [symmetric] of_nat_unat ucast_id)
  then have "push_bit 3 (m_lo st) = of_nat (8 * (length msg mod 2 ^ 29))"
    by (simp add: push_bit_eq_mult)
  also have "8 * (length msg mod 2 ^ 29) = 8 * length msg mod 2 ^ 32"
    by (simp add: mult_mod_right)
  also have "of_nat (8 * length msg mod 2 ^ 32) = (of_nat (8 * length msg) :: u32)"
    using of_nat_mod_32 .
  finally have lo: "push_bit 3 (m_lo st) = (of_nat (8 * length msg) :: u32)" .
  have "8 * length msg div 2 ^ 32 = length msg div 2 ^ 29" by simp
  with lo st(2) show ?thesis by (simp only: md5_bits_def)
qed

text \<open>The last block: what is still to write fills the buffer exactly.\<close>

lemma md5_last_block:
  assumes "md5_data regs buf msg"
    and "length msg mod 64 + length tl1 = 56" "length bits1 = 4" "length bits2 = 4"
  shows "\<exists>buf1 buf2 buf3. buf_copy buf (length msg mod 64) tl1 = Some buf1
     \<and> buf_copy buf1 56 bits1 = Some buf2 \<and> buf_copy buf2 60 bits2 = Some buf3
     \<and> md5_body regs buf3 = Some (md5_blocks md5_init (msg @ tl1 @ bits1 @ bits2))"
proof -
  have buf: "length buf = 64" using assms(1) by (simp add: md5_data_def)
  obtain buf1 where 1: "buf_copy buf (length msg mod 64) tl1 = Some buf1"
    using buf_copy_Some [of "length msg mod 64" tl1 buf] assms buf by auto
  then have "length buf1 = 64" using buf buf_copy_prefix(1) by metis
  then obtain buf2 where 2: "buf_copy buf1 56 bits1 = Some buf2"
    using buf_copy_Some [of 56 bits1 buf1] assms by auto
  then have "length buf2 = 64" using \<open>length buf1 = 64\<close> buf_copy_prefix(1) by metis
  then obtain buf3 where 3: "buf_copy buf2 60 bits2 = Some buf3"
    using buf_copy_Some [of 60 bits2 buf2] assms by auto
  have "buf_copy buf (length msg mod 64) (tl1 @ bits1) = Some buf2"
    using buf_copy_append [OF 1] 2 assms(2) by simp
  moreover have l: "length msg mod 64 + (length tl1 + length bits1) = 60" using assms(2,3) by linarith
  ultimately have "buf_copy buf (length msg mod 64) (tl1 @ bits1 @ bits2) = Some buf3"
    using buf_copy_append [of buf "length msg mod 64" "tl1 @ bits1" buf2 bits2] 3 l by simp
  then have "md5_body regs buf3 = Some (md5_blocks md5_init (msg @ tl1 @ bits1 @ bits2))"
    using md5_data_fill(1) [OF assms(1)] assms(2-) by simp
  with 1 2 3 show ?thesis by blast
qed

lemma md5_pad_short:
  "length msg mod 64 \<le> 55 \<Longrightarrow>
   md5_pad msg = msg @ (0x80 # replicate (55 - length msg mod 64) 0) @ md5_bits msg"
proof -
  assume "length msg mod 64 \<le> 55"
  then have "(119 - length msg mod 64) mod 64 = 55 - length msg mod 64"
    by (simp add: mod_if [of "119 - length msg mod 64"])
  then show ?thesis by (simp add: md5_pad_def md5_bits_def)
qed

lemma md5_pad_long:
  assumes "length msg mod 64 > 55"
  shows "md5_pad msg = (msg @ 0x80 # replicate (63 - length msg mod 64) 0) @ replicate 56 0 @ md5_bits msg"
proof -
  have "(119 - length msg mod 64) mod 64 = 119 - length msg mod 64"
    using assms by (intro mod_less) linarith
  also have "\<dots> = (63 - length msg mod 64) + 56"
    using mod_64_bound [of "length msg"] by linarith
  finally have "replicate ((119 - length msg mod 64) mod 64) (0::byte)
      = replicate (63 - length msg mod 64) 0 @ replicate 56 0"
    by (simp only: replicate_add)
  then show ?thesis by (simp only: md5_pad_def md5_bits_def append_assoc append_Cons)
qed

lemma md5_hfinal_repr:
  assumes repr: "md5_repr st msg"
  shows "\<exists>st'. md5_hfinal st = Some (st', md5_spec msg)"
proof -
  let ?u = "length msg mod 64"
  have used: "unat (m_lo st AND 0x3f) = ?u" by (rule md5_used [OF repr])
  have data: "md5_data (m_abcd st) (m_buffer st) msg" using repr by (simp add: md5_repr_data)
  then have buf: "length (m_buffer st) = 64" by (simp add: md5_data_def)
  obtain bits1 bits2 where bits: "word_bytes (push_bit 3 (m_lo st)) = bits1" "word_bytes (m_hi st) = bits2"
    "length bits1 = 4" "length bits2 = 4" "bits1 @ bits2 = md5_bits msg"
    using md5_bits_repr [OF repr] by auto
  obtain buf1 where b1: "buf_copy (m_buffer st) ?u [0x80] = Some buf1"
    using buf_copy_Some [of ?u "[0x80]" "m_buffer st"] buf mod_64_bound [of "length msg"] by auto
  show ?thesis
  proof (cases "?u \<le> 55")
    case True
    let ?z = "replicate (55 - ?u) (0::byte)"
    have l: "?u + length (0x80 # ?z) = 56" using True by simp
    from md5_last_block [OF data l bits(3,4)] obtain buf2 buf3 buf4 where
      "buf_copy (m_buffer st) ?u (0x80 # ?z) = Some buf2"
      "buf_copy buf2 56 bits1 = Some buf3" "buf_copy buf3 60 bits2 = Some buf4"
      "md5_body (m_abcd st) buf4 = Some (md5_blocks md5_init (md5_pad msg))"
      using md5_pad_short [OF True] bits(5) by auto
    moreover have "buf_copy buf1 (?u + 1) ?z = Some buf2"
      using calculation(1) b1 buf_copy_append [OF b1] buf_copy_prefix(1) [OF b1] buf l
        buf_copy_Some [of "?u + 1" ?z buf1] by auto
    ultimately show ?thesis
      using True by (auto simp: md5_hfinal_def Let_def used b1 bits(1,2) md5_spec_def regs_bytes_def
          split: prod.splits)
  next
    case False
    let ?z = "replicate (63 - ?u) (0::byte)" and ?msg = "msg @ 0x80 # replicate (63 - ?u) 0"
    have u: "?u < 64" by simp
    obtain buf2 where b2: "buf_copy buf1 (?u + 1) ?z = Some buf2"
      using buf_copy_Some [of "?u + 1" ?z buf1] buf_copy_prefix(1) [OF b1] buf u by auto
    have b12: "buf_copy (m_buffer st) ?u (0x80 # ?z) = Some buf2"
      using buf_copy_append [OF b1] b2 by simp
    have l: "?u + length (0x80 # ?z) = 64" using u by simp
    define regs where "regs = md5_blocks md5_init ?msg"
    have body: "md5_body (m_abcd st) buf2 = Some regs" and data2: "md5_data regs buf2 ?msg"
      unfolding regs_def by (rule md5_data_fill [OF data l b12])+
    have m0: "length ?msg mod 64 = 0"
      using l by (metis length_append mod_add_left_eq mod_self)
    have l2: "length ?msg mod 64 + length (replicate 56 (0::byte)) = 56" unfolding m0 by simp
    from md5_last_block [OF data2 l2 bits(3,4)] obtain buf3 buf4 buf5 where
      "buf_copy buf2 0 (replicate 56 0) = Some buf3"
      "buf_copy buf3 56 bits1 = Some buf4" "buf_copy buf4 60 bits2 = Some buf5"
      "md5_body regs buf5 = Some (md5_blocks md5_init (md5_pad msg))"
      using md5_pad_long [of msg] False bits(5) unfolding m0 by auto
    then show ?thesis
      using False u body b2 by (auto simp: md5_hfinal_def Let_def used b1 bits(1,2) md5_spec_def regs_bytes_def
          split: prod.splits)
  qed
qed

text \<open>A message fed in pieces.\<close>

fun md5_updates :: "md5 \<Rightarrow> bytes list \<Rightarrow> md5 option" where
  "md5_updates st [] = Some st"
| "md5_updates st (d # ds) = Option.bind (md5_update st d) (\<lambda>st. md5_updates st ds)"

lemma md5_updates_repr:
  "md5_repr st msg \<Longrightarrow> \<forall>d\<in>set ds. length d < 2 ^ 63 \<Longrightarrow>
   \<exists>st'. md5_updates st ds = Some st' \<and> md5_repr st' (msg @ concat ds)"
proof (induction ds arbitrary: st msg)
  case (Cons d ds)
  from md5_update_repr [OF Cons.prems(1), of d] Cons.prems(2) obtain st1
    where 1: "md5_update st d = Some st1" "md5_repr st1 (msg @ d)" by auto
  from Cons.IH [OF 1(2)] Cons.prems(2) 1(1) show ?case by simp
qed simp

section \<open>The property\<close>



end
