(* ===== verification/NcString.thy ===== *)
theory NcString
  imports NcPrelude "HOL-Library.List_Lexorder"
begin

text \<open>
  \<^verbatim>\<open>nc_string.h\<close>: the two character searches and the class \<open>NcString\<close>. A C string is the
  list of the bytes that can be read from its address; \<open>None\<close> is an access outside of it.
  Allocation is assumed to succeed. The last section orders the strings the way
  \<open>NcString::compare\<close> does.
\<close>

section \<open>Searching a character\<close>

text \<open>
  \<open>_nc_strchr(p, last, c)\<close> on a memory \<open>m\<close>, positions being integers: the byte at \<open>p\<close> is
  read before \<open>p\<close> is compared with \<open>last\<close>, and \<open>p\<close> has been advanced past the match when
  the loop ends.
\<close>

function strchr_loop :: "(int \<Rightarrow> byte) \<Rightarrow> int \<Rightarrow> int \<Rightarrow> byte \<Rightarrow> int" where
  "strchr_loop m p lst c =
     (if m p \<noteq> 0 \<and> p < lst then
        (if m p \<noteq> c then strchr_loop m (p + 1) lst c else p + 1)
      else p)"
  by pat_completeness auto
termination by (relation "measure (\<lambda>(m, p, lst, c). nat (lst - p))") auto

declare strchr_loop.simps [simp del]

definition nc_strchr :: "(int \<Rightarrow> byte) \<Rightarrow> int \<Rightarrow> int \<Rightarrow> byte \<Rightarrow> int option" where
  "nc_strchr m p lst c =
     (let p' = strchr_loop m p lst c in if p' \<ge> lst then None else Some (p' - 1))"

function strrchr_loop :: "(int \<Rightarrow> byte) \<Rightarrow> int \<Rightarrow> int \<Rightarrow> byte \<Rightarrow> int" where
  "strrchr_loop m p start c =
     (if m p \<noteq> 0 \<and> p \<ge> start then
        (if m p \<noteq> c then strrchr_loop m (p - 1) start c else p - 1)
      else p)"
  by pat_completeness auto
termination by (relation "measure (\<lambda>(m, p, start, c). nat (p + 1 - start))") auto

declare strrchr_loop.simps [simp del]

definition nc_strrchr :: "(int \<Rightarrow> byte) \<Rightarrow> int \<Rightarrow> int \<Rightarrow> byte \<Rightarrow> int option" where
  "nc_strrchr m p start c =
     (let p' = strrchr_loop m p start c in if p' < start then None else Some (p' + 1))"

text \<open>What the loops do when the first (last) occurrence is at \<open>q\<close>, or there is none.\<close>

lemma strchr_loop_hit:
  "p \<le> q \<Longrightarrow> q < lst \<Longrightarrow> \<forall>i. p \<le> i \<and> i < q \<longrightarrow> m i \<noteq> 0 \<and> m i \<noteq> c \<Longrightarrow> m q = c \<Longrightarrow> c \<noteq> 0 \<Longrightarrow>
   strchr_loop m p lst c = q + 1"
proof (induction "nat (q - p)" arbitrary: p)
  case 0
  then show ?case by (simp add: strchr_loop.simps)
next
  case (Suc n)
  then have "p < q" by simp
  with Suc.prems have "m p \<noteq> 0" "m p \<noteq> c" "p < lst" by auto
  moreover have "strchr_loop m (p + 1) lst c = q + 1"
    using Suc.prems \<open>p < q\<close> Suc.hyps(2) by (intro Suc.hyps(1)) auto
  ultimately show ?case by (subst strchr_loop.simps) simp
qed

lemma strchr_loop_miss:
  "p \<le> lst \<Longrightarrow> \<forall>i. p \<le> i \<and> i < lst \<longrightarrow> m i \<noteq> 0 \<and> m i \<noteq> c \<Longrightarrow> strchr_loop m p lst c = lst"
proof (induction "nat (lst - p)" arbitrary: p)
  case 0
  then show ?case by (simp add: strchr_loop.simps)
next
  case (Suc n)
  then have "p < lst" by simp
  moreover have "strchr_loop m (p + 1) lst c = lst"
    using Suc.prems \<open>p < lst\<close> Suc.hyps(2) by (intro Suc.hyps(1)) auto
  ultimately show ?case using Suc.prems by (subst strchr_loop.simps) simp
qed

text \<open>
  The first occurrence is found, except when it is the last byte of the range: then the
  answer is the same as for a missing character.
\<close>

lemma nc_strchr_hit:
  assumes "p \<le> q" "q < lst" "\<forall>i. p \<le> i \<and> i < q \<longrightarrow> m i \<noteq> 0 \<and> m i \<noteq> c" "m q = c" "c \<noteq> 0"
  shows "nc_strchr m p lst c = (if q = lst - 1 then None else Some q)"
  using assms by (simp add: nc_strchr_def strchr_loop_hit [OF assms])

lemma nc_strchr_miss:
  "p \<le> lst \<Longrightarrow> \<forall>i. p \<le> i \<and> i < lst \<longrightarrow> m i \<noteq> 0 \<and> m i \<noteq> c \<Longrightarrow> nc_strchr m p lst c = None"
  by (simp add: nc_strchr_def strchr_loop_miss)

lemma strrchr_loop_hit:
  "q \<le> p \<Longrightarrow> start \<le> q \<Longrightarrow> \<forall>i. q < i \<and> i \<le> p \<longrightarrow> m i \<noteq> 0 \<and> m i \<noteq> c \<Longrightarrow> m q = c \<Longrightarrow> c \<noteq> 0 \<Longrightarrow>
   strrchr_loop m p start c = q - 1"
proof (induction "nat (p - q)" arbitrary: p)
  case 0
  then show ?case by (simp add: strrchr_loop.simps)
next
  case (Suc n)
  then have "q < p" by simp
  with Suc.prems have "m p \<noteq> 0" "m p \<noteq> c" "start \<le> p" by auto
  moreover have "strrchr_loop m (p - 1) start c = q - 1"
    using Suc.prems \<open>q < p\<close> Suc.hyps(2) by (intro Suc.hyps(1)) auto
  ultimately show ?case by (subst strrchr_loop.simps) simp
qed

lemma nc_strrchr_hit:
  assumes "q \<le> p" "start \<le> q" "\<forall>i. q < i \<and> i \<le> p \<longrightarrow> m i \<noteq> 0 \<and> m i \<noteq> c" "m q = c" "c \<noteq> 0"
  shows "nc_strrchr m p start c = (if q = start then None else Some q)"
  using assms by (simp add: nc_strrchr_def strrchr_loop_hit [OF assms])

section \<open>The class\<close>

record ncstring =
  s_len :: u32
  s_data :: bytes

text \<open>\<^verbatim>\<open>strndup(s, n)\<close> without its terminator, \<^verbatim>\<open>strlen\<close>, and the store \<open>buf[i] = v\<close>.\<close>

fun strndup :: "bytes \<Rightarrow> nat \<Rightarrow> bytes option" where
  "strndup s 0 = Some []"
| "strndup [] (Suc n) = None"
| "strndup (c # s) (Suc n) = (if c = 0 then Some [] else map_option ((#) c) (strndup s n))"

fun c_strlen :: "bytes \<Rightarrow> nat option" where
  "c_strlen [] = None"
| "c_strlen (c # s) = (if c = 0 then Some 0 else map_option Suc (c_strlen s))"

definition store :: "bytes \<Rightarrow> nat \<Rightarrow> byte \<Rightarrow> bytes option" where
  "store buf i v = (if i < length buf then Some (buf[i := v]) else None)"

definition str_new :: ncstring where
  "str_new = \<lparr>s_len = 0, s_data = [0]\<rparr>"

text \<open>The body that the constructors and assignments share: duplicate and terminate.\<close>

definition str_dup :: "bytes \<Rightarrow> u32 \<Rightarrow> ncstring option" where
  "str_dup s len = do {
     d \<leftarrow> strndup s (unat (len + 1));
     buf \<leftarrow> store (d @ [0]) (unat len) 0;
     Some \<lparr>s_len = len, s_data = buf\<rparr>
   }"

definition str_copy :: "ncstring \<Rightarrow> ncstring option" where
  "str_copy s = str_dup (s_data s) (s_len s)"

text \<open>
  \<open>NcString(s, len)\<close> first compares the uninitialised \<open>m_data_\<close> with \<open>s\<close>: when they happen
  to be equal the object stays uninitialised (\<open>None\<close>).
\<close>

definition str_from :: "bool \<Rightarrow> bytes \<Rightarrow> u32 \<Rightarrow> ncstring option" where
  "str_from same s len = (if same then None else str_dup s len)"

definition str_assign :: "bool \<Rightarrow> ncstring \<Rightarrow> ncstring \<Rightarrow> ncstring option" where
  "str_assign self this s = (if self then Some this else str_dup (s_data s) (s_len s))"

definition str_assign_c :: "bool \<Rightarrow> ncstring \<Rightarrow> bytes \<Rightarrow> ncstring option" where
  "str_assign_c self this s =
     (if self then Some this else do { n \<leftarrow> c_strlen s; str_dup s (of_nat n) })"

definition str_setText :: "bytes \<Rightarrow> u32 \<Rightarrow> ncstring" where
  "str_setText text len = \<lparr>s_len = len - 1, s_data = text\<rparr>"

definition str_setRaw :: "bytes \<Rightarrow> ncstring option" where
  "str_setRaw raw = map_option (\<lambda>n. \<lparr>s_len = of_nat n, s_data = raw\<rparr>) (c_strlen raw)"

definition str_empty :: "ncstring \<Rightarrow> bool" where
  "str_empty s \<longleftrightarrow> s_len s = 0"

text \<open>\<^verbatim>\<open>strcmp\<close> and \<^verbatim>\<open>strncmp\<close>, as the sign of the difference of the first bytes that differ.\<close>

fun c_strcmp :: "bytes \<Rightarrow> bytes \<Rightarrow> int option" where
  "c_strcmp (a # s) (b # t) =
     (if a \<noteq> b then Some (sgn (uint a - uint b)) else if a = 0 then Some 0 else c_strcmp s t)"
| "c_strcmp s t = None"

fun c_strncmp :: "nat \<Rightarrow> bytes \<Rightarrow> bytes \<Rightarrow> int option" where
  "c_strncmp 0 s t = Some 0"
| "c_strncmp (Suc n) (a # s) (b # t) =
     (if a \<noteq> b then Some (sgn (uint a - uint b)) else if a = 0 then Some 0 else c_strncmp n s t)"
| "c_strncmp (Suc n) s t = None"

definition str_eq :: "ncstring \<Rightarrow> ncstring \<Rightarrow> bool option" where
  "str_eq this s =
     (if s_len this \<le> 0 then Some False else map_option (\<lambda>r. r = 0) (c_strcmp (s_data this) (s_data s)))"

definition str_eq_c :: "ncstring \<Rightarrow> bytes option \<Rightarrow> bool option" where
  "str_eq_c this s =
     (if s_len this \<le> 0 \<or> s = None then Some False
      else map_option (\<lambda>r. r = 0) (c_strcmp (s_data this) (the s)))"

definition str_compare :: "ncstring \<Rightarrow> ncstring \<Rightarrow> int option" where
  "str_compare this s =
     (if s_len this \<noteq> s_len s then Some (if s_len this > s_len s then 1 else - 1)
      else c_strncmp (unat (s_len this)) (s_data this) (s_data s))"

section \<open>What the object holds\<close>

text \<open>A well-formed object holds a text without \<^verbatim>\<open>'\0'\<close>, terminated, of the stated length.\<close>

definition str_repr :: "ncstring \<Rightarrow> bytes \<Rightarrow> bool" where
  "str_repr s t \<longleftrightarrow> 0 \<notin> set t \<and> length t < 2 ^ 32 - 1 \<and> s_len s = of_nat (length t)
     \<and> (\<exists>rest. s_data s = t @ 0 # rest)"

lemma str_new_repr: "str_repr str_new []"
  by (simp add: str_repr_def str_new_def)

lemma unat_len: "length t < 2 ^ 32 \<Longrightarrow> unat (of_nat (length t) :: u32) = length t"
  by (simp add: unat_of_nat take_bit_nat_eq_self)

lemma strndup_text:
  "0 \<notin> set t \<Longrightarrow> strndup (t @ c # rest) (Suc (length t)) = Some (if c = 0 then t else t @ [c])"
  by (induction t) auto

lemma str_dup_repr:
  assumes "0 \<notin> set t" "length t < 2 ^ 32 - 1"
  shows "\<exists>s. str_dup (t @ c # rest) (of_nat (length t)) = Some s \<and> str_repr s t"
proof -
  let ?n = "of_nat (length t) :: u32"
  have n: "unat ?n = length t" using assms(2) by (intro unat_len) simp
  have "?n + 1 = of_nat (Suc (length t))" by simp
  then have n1: "unat (?n + 1) = Suc (length t)"
    using assms(2) by (simp add: unat_of_nat take_bit_nat_eq_self del: of_nat_Suc)
  have "(t @ [0::byte])[length t := 0] = t @ [0]" "(t @ [c, 0])[length t := 0] = t @ [0, 0]"
    by (simp_all add: list_update_append)
  then show ?thesis
    using assms by (auto simp: str_dup_def n n1 strndup_text store_def str_repr_def)
qed

text \<open>A copy holds the same text; a prefix of a longer string can be taken.\<close>

lemma str_copy_repr: "str_repr s t \<Longrightarrow> \<exists>s'. str_copy s = Some s' \<and> str_repr s' t"
  using str_dup_repr by (auto simp: str_copy_def str_repr_def)

lemma c_strlen_text: "0 \<notin> set t \<Longrightarrow> c_strlen (t @ 0 # rest) = Some (length t)"
  by (induction t) auto

lemma str_assign_c_repr:
  "0 \<notin> set t \<Longrightarrow> length t < 2 ^ 32 - 1 \<Longrightarrow>
   \<exists>s. str_assign_c False this (t @ 0 # rest) = Some s \<and> str_repr s t"
  using str_dup_repr by (simp add: str_assign_c_def c_strlen_text)

lemma c_strcmp_text:
  "0 \<notin> set s \<Longrightarrow> 0 \<notin> set t \<Longrightarrow>
   \<exists>r. c_strcmp (s @ 0 # x) (t @ 0 # y) = Some r \<and> (r = 0 \<longleftrightarrow> s = t)"
proof (induction s arbitrary: t)
  case Nil
  then show ?case by (cases t) (auto simp: word_uint_eq_iff sgn_if)
next
  case (Cons a s)
  then show ?case by (cases t) (auto simp: word_uint_eq_iff sgn_if)
qed

text \<open>\<open>==\<close> is equality of the texts, except that the empty string is not equal to itself.\<close>

lemma str_eq_repr:
  assumes "str_repr s t" "str_repr s' t'"
  shows "str_eq s s' = Some (t = t' \<and> t \<noteq> [])"
proof -
  have len: "s_len s \<le> 0 \<longleftrightarrow> t = []"
    using assms(1) unat_len [of t] by (auto simp: str_repr_def word_le_nat_alt)
  from assms obtain x y where d: "s_data s = t @ 0 # x" "s_data s' = t' @ 0 # y"
    by (auto simp: str_repr_def)
  have "0 \<notin> set t" "0 \<notin> set t'" using assms by (simp_all add: str_repr_def)
  from c_strcmp_text [OF this, of x y] show ?thesis
    unfolding str_eq_def len d by auto
qed

section \<open>The order of the strings\<close>

text \<open>\<open>compare\<close> puts the shorter string first and orders strings of one length by their bytes.\<close>

datatype strkey = StrKey (key_bytes: bytes)

instantiation strkey :: linorder
begin

definition less_eq_strkey :: "strkey \<Rightarrow> strkey \<Rightarrow> bool" where
  "a \<le> b \<longleftrightarrow> length (key_bytes a) < length (key_bytes b)
     \<or> length (key_bytes a) = length (key_bytes b) \<and> key_bytes a \<le> key_bytes b"

definition less_strkey :: "strkey \<Rightarrow> strkey \<Rightarrow> bool" where
  "(a::strkey) < b \<longleftrightarrow> a \<le> b \<and> \<not> b \<le> a"

instance
  by standard (auto simp: less_eq_strkey_def less_strkey_def strkey.expand)

end

lemma c_strncmp_text:
  "0 \<notin> set s \<Longrightarrow> 0 \<notin> set t \<Longrightarrow> length s = length t \<Longrightarrow>
   \<exists>r. c_strncmp (length s) (s @ x) (t @ y) = Some r \<and> (r \<le> 0 \<longleftrightarrow> s \<le> t)"
proof (induction s t rule: list_induct2')
  case (4 a s b t)
  show ?case
  proof (cases "a = b")
    case True
    with 4 show ?thesis by auto
  next
    case False
    then show ?thesis using 4 by (auto simp: sgn_if word_less_def word_uint_eq_iff)
  qed
qed auto

text \<open>\<open>compare\<close> is the comparison of this linear order.\<close>

lemma str_compare_order:
  assumes "str_repr s t" "str_repr s' t'"
  shows "\<exists>r. str_compare s s' = Some r \<and> (r \<le> 0 \<longleftrightarrow> StrKey t \<le> StrKey t')"
proof -
  from assms obtain x y where d: "s_data s = t @ 0 # x" "s_data s' = t' @ 0 # y"
    by (auto simp: str_repr_def)
  have nul: "0 \<notin> set t" "0 \<notin> set t'" using assms by (simp_all add: str_repr_def)
  have len: "unat (s_len s) = length t" "unat (s_len s') = length t'"
    using assms unat_len [of t] unat_len [of t'] by (auto simp: str_repr_def)
  show ?thesis
  proof (cases "length t = length t'")
    case True
    with len have "s_len s = s_len s'" by (simp add: word_unat_eq_iff)
    with c_strncmp_text [OF nul True] True show ?thesis
      by (auto simp: str_compare_def d len less_eq_strkey_def)
  next
    case False
    with len have "s_len s \<noteq> s_len s'" by auto
    with False show ?thesis
      by (auto simp: str_compare_def less_eq_strkey_def word_less_nat_alt len)
  qed
qed



text \<open>The searches find what they promise except at the far end: the first occurrence of a
  byte is found unless it is the last byte of the range, the last one unless it is the first
  byte.\<close>
lemma searches_miss_the_end:
  assumes "p \<le> i" "i \<le> j" "j < lst" "c \<noteq> 0" "m i = c" "m j = c" "\<forall>k. p \<le> k \<and> k < lst \<longrightarrow> m k \<noteq> 0"
    and "\<forall>k. p \<le> k \<and> k < i \<longrightarrow> m k \<noteq> c" "\<forall>k. j < k \<and> k < lst \<longrightarrow> m k \<noteq> c"
  shows "nc_strchr m p lst c = (if i = lst - 1 then None else Some i)
    \<and> nc_strrchr m (lst - 1) p c = (if j = p then None else Some j)"
  using nc_strchr_hit [of p i lst m c] nc_strrchr_hit [of j "lst - 1" p m c] assms by auto

lemma searches_miss_the_end_witness:
  "nc_strchr (\<lambda>k. if k = 2 then 58 else 97) 0 3 58 = None \<and> nc_strrchr (\<lambda>k. if k = 0 then 58 else 97) 2 0 58 = None"
  using searches_miss_the_end [of 0 2 2 3 58 "\<lambda>k. if k = 2 then 58 else 97"]
    searches_miss_the_end [of 0 0 0 3 58 "\<lambda>k. if k = 0 then 58 else 97"] by simp

end
