(* ===== verification/NcUtil.thy ===== *)
theory NcUtil
  imports NcPrelude
begin

text \<open>
  The helpers of \<^verbatim>\<open>nc_util.h\<close> and \<^verbatim>\<open>nc_util.cpp\<close>: number parsing, counters, the loops around
  \<^verbatim>\<open>send\<close> and \<^verbatim>\<open>recv\<close>, address resolution, the socket options and the daemon start-up.

  The operating system is not part of the program: a function that calls it takes the answers
  it gets as a list, one per call, and returns the calls it made where their order matters.
  \<open>None\<close> means that the answers ran out, or are not possible answers of the call (a \<^verbatim>\<open>send\<close>
  that reports more bytes than it was given).
\<close>

section \<open>Numbers\<close>

definition NC_ALIGN :: "u64 \<Rightarrow> u64 \<Rightarrow> u64" where
  "NC_ALIGN d n = (d + (n - 1)) AND NOT (n - 1)"

text \<open>
  \<open>_nc_atoi\<close>. The accumulator is an \<open>int\<close>; \<open>None\<close> is its overflow, which is undefined.
\<close>

definition is_digit :: "byte \<Rightarrow> bool" where
  "is_digit c \<longleftrightarrow> 48 \<le> c \<and> c \<le> 57"

definition digit :: "byte \<Rightarrow> int" where
  "digit c = uint c - 48"

fun atoi_loop :: "int \<Rightarrow> bytes \<Rightarrow> int option" where
  "atoi_loop value [] = Some (if value < 0 then - 1 else value)"
| "atoi_loop value (c # line) =
     (if \<not> is_digit c then Some (- 1)
      else let value = value * 10 + digit c
           in if value \<ge> 2 ^ 31 then None else atoi_loop value line)"

definition nc_atoi :: "bytes \<Rightarrow> int option" where
  "nc_atoi line = (if line = [] then Some (- 1) else atoi_loop 0 line)"

definition ncValidPort :: "int \<Rightarrow> bool" where
  "ncValidPort n \<longleftrightarrow> \<not> (n < 1 \<or> n > 65535)"

text \<open>The value a string of digits denotes, and the digits of a number.\<close>

definition dec_value :: "bytes \<Rightarrow> int" where
  "dec_value ds = foldl (\<lambda>v c. v * 10 + digit c) 0 ds"

fun dec_print :: "nat \<Rightarrow> bytes" where
  "dec_print n = (if n < 10 then [of_nat (48 + n)] else dec_print (n div 10) @ [of_nat (48 + n mod 10)])"

declare dec_print.simps [simp del]

lemma is_digit_iff: "is_digit c \<longleftrightarrow> 48 \<le> uint c \<and> uint c \<le> 57"
  by (simp add: is_digit_def word_le_def)

lemma digit_bounds: "is_digit c \<Longrightarrow> 0 \<le> digit c \<and> digit c \<le> 9"
  by (simp add: is_digit_iff digit_def)

lemma dec_fold_mono:
  "\<forall>c\<in>set ds. is_digit c \<Longrightarrow> 0 \<le> v \<Longrightarrow> v \<le> foldl (\<lambda>v c. v * 10 + digit c) v ds"
proof (induction ds arbitrary: v)
  case (Cons c ds)
  then have "0 \<le> digit c" using digit_bounds by auto
  with Cons.prems have v: "v \<le> v * 10 + digit c" "0 \<le> v * 10 + digit c" by simp_all
  show ?case using order_trans [OF v(1) Cons.IH [OF _ v(2)]] Cons.prems(1) by simp
qed simp

lemma atoi_loop_digits:
  "\<forall>c\<in>set ds. is_digit c \<Longrightarrow> 0 \<le> v \<Longrightarrow> v < 2 ^ 31 \<Longrightarrow>
   atoi_loop v ds = (let w = foldl (\<lambda>v c. v * 10 + digit c) v ds in if w < 2 ^ 31 then Some w else None)"
proof (induction ds arbitrary: v)
  case (Cons c ds)
  let ?v = "v * 10 + digit c"
  have c: "is_digit c" and ds: "\<forall>c\<in>set ds. is_digit c" using Cons.prems(1) by simp_all
  have v: "0 \<le> ?v" using digit_bounds [OF c] Cons.prems(2) by simp
  show ?case
  proof (cases "?v < 2 ^ 31")
    case True
    with Cons.IH [OF ds v True] c show ?thesis by (simp add: Let_def)
  next
    case False
    with dec_fold_mono [OF ds v] c show ?thesis by (auto simp: Let_def)
  qed
qed (simp add: Let_def)

lemma nc_atoi_digits:
  "ds \<noteq> [] \<Longrightarrow> \<forall>c\<in>set ds. is_digit c \<Longrightarrow>
   nc_atoi ds = (if dec_value ds < 2 ^ 31 then Some (dec_value ds) else None)"
  by (simp add: nc_atoi_def atoi_loop_digits dec_value_def Let_def)

lemma nc_atoi_range: "nc_atoi ds = Some n \<Longrightarrow> - 1 \<le> n \<and> n < 2 ^ 31"
proof -
  have "atoi_loop v ds = Some n \<Longrightarrow> 0 \<le> v \<Longrightarrow> v < 2 ^ 31 \<Longrightarrow> - 1 \<le> n \<and> n < 2 ^ 31" for v
  proof (induction v ds rule: atoi_loop.induct)
    case (2 v c ds)
    then show ?case using digit_bounds [of c] by (auto simp: Let_def split: if_splits)
  qed (simp split: if_splits)
  then show "nc_atoi ds = Some n \<Longrightarrow> - 1 \<le> n \<and> n < 2 ^ 31"
    by (auto simp: nc_atoi_def split: if_splits)
qed

lemma uint_dec_digit: "d < 10 \<Longrightarrow> uint (of_nat (48 + d) :: byte) = 48 + int d"
proof -
  assume "d < 10"
  then have "unat (of_nat (48 + d) :: byte) = 48 + d"
    unfolding unat_of_nat by simp
  then show ?thesis by (metis of_nat_add of_nat_numeral uint_nat)
qed

lemma dec_print_digits: "\<forall>c\<in>set (dec_print n). is_digit c"
proof (induction n rule: dec_print.induct)
  case (1 n)
  have "is_digit (of_nat (48 + d))" if "d < 10" for d
    using uint_dec_digit [OF that] that by (simp add: is_digit_iff)
  with 1 show ?case by (subst dec_print.simps) auto
qed

lemma dec_print_value: "dec_value (dec_print n) = int n"
proof (induction n rule: dec_print.induct)
  case (1 n)
  have d: "digit (of_nat (48 + d)) = int d" if "d < 10" for d
    using uint_dec_digit [OF that] by (simp add: digit_def)
  show ?case
  proof (cases "n < 10")
    case True
    with d [OF True] show ?thesis by (simp add: dec_print.simps [of n] dec_value_def)
  next
    case False
    have "int (n div 10) * 10 + int (n mod 10) = int (n div 10 * 10 + n mod 10)"
      by (simp only: of_nat_add of_nat_mult of_nat_numeral)
    also have "\<dots> = int n" by (simp only: div_mult_mod_eq)
    finally show ?thesis
      using False 1 d [of "n mod 10"] by (subst dec_print.simps) (simp add: dec_value_def)
  qed
qed

lemma dec_print_not_Nil [simp]: "dec_print n \<noteq> []"
  by (subst dec_print.simps) simp

text \<open>Printing and parsing a number.\<close>

lemma nc_atoi_dec_print: "n < 2 ^ 31 \<Longrightarrow> nc_atoi (dec_print n) = Some (int n)"
  using dec_print_digits dec_print_value by (simp add: nc_atoi_digits)

section \<open>Counters\<close>

text \<open>The function-local statics of \<open>NcUtil\<close>, with their initial values.\<close>

record statics =
  st_id :: u64
  st_total :: u64
  st_cur :: u32
  st_curc :: u32
  st_chunk :: u32

definition statics_init :: statics where
  "statics_init = \<lparr>st_id = 1, st_total = 0, st_cur = 0, st_curc = 0, st_chunk = 10240\<rparr>"

definition uniqNextId :: "statics \<Rightarrow> u64 \<times> statics" where
  "uniqNextId s = (st_id s, s\<lparr>st_id := st_id s + 1\<rparr>)"

definition ncTotalConn :: "int \<Rightarrow> statics \<Rightarrow> u64 \<times> statics" where
  "ncTotalConn incr s = (let t = st_total s + of_int incr in (t, s\<lparr>st_total := t\<rparr>))"

definition ncCurConn :: "int \<Rightarrow> statics \<Rightarrow> u32 \<times> statics" where
  "ncCurConn incr s = (let t = st_cur s + of_int incr in (t, s\<lparr>st_cur := t\<rparr>))"

definition ncCurCConn :: "int \<Rightarrow> statics \<Rightarrow> u32 \<times> statics" where
  "ncCurCConn incr s = (let t = st_curc s + of_int incr in (t, s\<lparr>st_curc := t\<rparr>))"

definition ncMbufChunkSize :: "u32 \<Rightarrow> statics \<Rightarrow> u32 \<times> statics" where
  "ncMbufChunkSize n s =
     (let s' = (if n > 0 then s\<lparr>st_chunk := n\<rparr> else s) in (st_chunk s', s'))"

text \<open>The identifiers handed out by \<open>k\<close> calls are pairwise different until the counter wraps.\<close>

fun next_ids :: "nat \<Rightarrow> statics \<Rightarrow> u64 list \<times> statics" where
  "next_ids 0 s = ([], s)"
| "next_ids (Suc k) s =
     (let (i, s) = uniqNextId s; (is, s) = next_ids k s in (i # is, s))"

lemma next_ids_eq:
  "fst (next_ids k s) = map (\<lambda>j. st_id s + of_nat j) [0..<k]
   \<and> st_id (snd (next_ids k s)) = st_id s + of_nat k"
proof (induction k arbitrary: s)
  case (Suc k)
  have "[0..<Suc k] = 0 # map Suc [0..<k]" by (simp add: upt_conv_Cons map_Suc_upt del: upt_Suc)
  with Suc [of "s\<lparr>st_id := st_id s + 1\<rparr>"] show ?case
    by (auto simp: uniqNextId_def Let_def split: prod.splits simp del: upt_Suc)
qed simp

lemma next_ids_distinct: "k \<le> 2 ^ 64 \<Longrightarrow> distinct (fst (next_ids k s))"
proof -
  assume k: "k \<le> 2 ^ 64"
  have "inj_on (\<lambda>j. st_id s + of_nat j) {0..<k}"
  proof (rule inj_onI)
    fix i j assume ij: "i \<in> {0..<k}" "j \<in> {0..<k}"
      and "st_id s + of_nat i = st_id s + of_nat j"
    then have "unat (of_nat i :: u64) = unat (of_nat j :: u64)" by simp
    with ij k show "i = j" unfolding unat_of_nat by simp
  qed
  then show ?thesis by (simp add: next_ids_eq distinct_map)
qed

section \<open>Formatted output\<close>

text \<open>\<open>_vscnprintf\<close>: \<open>n\<close> is what \<^verbatim>\<open>vsnprintf\<close> returns (the length of the full text).\<close>

definition vscnprintf :: "int \<Rightarrow> u64 \<Rightarrow> int" where
  "vscnprintf n sz =
     (if n \<le> 0 then 0
      else if n < sint (ucast sz :: u32) then n
      else sint (ucast (sz - 1) :: u32))"

lemma sint_small: "x < 2 ^ 31 \<Longrightarrow> sint (ucast (of_nat x :: u64) :: u32) = int x"
proof -
  assume x: "x < 2 ^ 31"
  have "ucast (of_nat x :: u64) = (of_nat x :: u32)"
    by (rule word_unat_eq_iff [THEN iffD2]) (use x in \<open>simp add: unsigned_ucast_eq unat_of_nat take_bit_nat_eq_self\<close>)
  then show ?thesis using x by (simp add: signed_of_nat signed_take_bit_int_eq_self)
qed

text \<open>The result is the number of characters written, always below the size of the buffer.\<close>

lemma vscnprintf_bound:
  assumes "0 < x" "x < 2 ^ 31"
  shows "vscnprintf n (of_nat x) = max 0 (min n (int x - 1))"
proof -
  have "of_nat x - 1 = (of_nat (x - 1) :: u64)" using assms(1) by (simp add: of_nat_diff)
  then have "sint (ucast (of_nat x - 1 :: u64) :: u32) = int x - 1"
    using assms sint_small [of "x - 1"] by simp
  with sint_small [OF assms(2)] assms(1) show ?thesis by (auto simp: vscnprintf_def)
qed

section \<open>Complete transfers\<close>

text \<open>The numbers of \<^verbatim>\<open>errno\<close> on Linux.\<close>

type_synonym errno = int
abbreviation (input) EINTR :: errno where "EINTR \<equiv> 4"
abbreviation (input) EAGAIN :: errno where "EAGAIN \<equiv> 11"
abbreviation (input) EINVAL :: errno where "EINVAL \<equiv> 22"
abbreviation (input) ENFILE :: errno where "ENFILE \<equiv> 23"
abbreviation (input) EMFILE :: errno where "EMFILE \<equiv> 24"
abbreviation (input) ECONNABORTED :: errno where "ECONNABORTED \<equiv> 103"
abbreviation (input) ETIMEDOUT :: errno where "ETIMEDOUT \<equiv> 110"
abbreviation (input) EHOSTDOWN :: errno where "EHOSTDOWN \<equiv> 112"
abbreviation (input) EINPROGRESS :: errno where "EINPROGRESS \<equiv> 115"

text \<open>What one \<^verbatim>\<open>send\<close> answers, and what one \<^verbatim>\<open>recv\<close> answers.\<close>

datatype send_reply = Sent nat | SErr errno
datatype recv_reply = Data bytes | RErr errno

fun sendn_loop :: "nat \<Rightarrow> bytes \<Rightarrow> bytes \<Rightarrow> send_reply list \<Rightarrow> (int \<times> bytes \<times> send_reply list) option" where
  "sendn_loop n [] sent rs = Some (int n, sent, rs)"
| "sendn_loop n data sent [] = None"
| "sendn_loop n data sent (SErr e # rs) =
     (if e = EINTR then sendn_loop n data sent rs else Some (- 1, sent, rs))"
| "sendn_loop n data sent (Sent k # rs) =
     (if k = 0 then Some (- 1, sent, rs)
      else if k > length data then None
      else sendn_loop n (drop k data) (sent @ take k data) rs)"

text \<open>\<open>_nc_sendn\<close>: the result, the bytes that left, the answers not used.\<close>

definition nc_sendn :: "bytes \<Rightarrow> send_reply list \<Rightarrow> (int \<times> bytes \<times> send_reply list) option" where
  "nc_sendn data rs = sendn_loop (length data) data [] rs"

fun recvn_loop :: "nat \<Rightarrow> bytes \<Rightarrow> recv_reply list \<Rightarrow> (int \<times> bytes \<times> recv_reply list) option" where
  "recvn_loop 0 got rs = Some (int (length got), got, rs)"
| "recvn_loop nleft got [] = None"
| "recvn_loop nleft got (RErr e # rs) =
     (if e = EINTR then recvn_loop nleft got rs else Some (- 1, got, rs))"
| "recvn_loop nleft got (Data bs # rs) =
     (if bs = [] then Some (int (length got), got, rs)
      else if length bs > nleft then None
      else recvn_loop (nleft - length bs) (got @ bs) rs)"

definition nc_recvn :: "nat \<Rightarrow> recv_reply list \<Rightarrow> (int \<times> bytes \<times> recv_reply list) option" where
  "nc_recvn n rs = recvn_loop n [] rs"

lemma sendn_loop_sent:
  "sendn_loop n data sent rs = Some (r, sent', rs') \<Longrightarrow> length (sent @ data) = n \<Longrightarrow>
   (r = int n \<and> sent' = sent @ data) \<or> (r = - 1 \<and> (\<exists>rest. rest \<noteq> [] \<and> sent @ data = sent' @ rest))"
proof (induction n data sent rs rule: sendn_loop.induct)
  case (4 n d data sent k rs)
  show ?case
  proof (cases "k = 0 \<or> k > length (d # data)")
    case False
    then have "sendn_loop n (drop k (d # data)) (sent @ take k (d # data)) rs = Some (r, sent', rs')"
      using 4(2) by simp
    moreover have "length ((sent @ take k (d # data)) @ drop k (d # data)) = n"
      using 4(3) by (simp only: append_assoc append_take_drop_id)
    ultimately show ?thesis
      using 4(1) False by (metis append_assoc append_take_drop_id not_less)
  qed (use 4 in \<open>auto split: if_splits\<close>)
qed (auto split: if_splits)

text \<open>
  \<open>_nc_sendn\<close> returns \<open>n\<close> exactly when all bytes left, in order; otherwise it returns \<open>-1\<close>
  and a proper prefix left.
\<close>

lemma nc_sendn_sent:
  "nc_sendn data rs = Some (r, sent, rs') \<Longrightarrow>
   (r = int (length data) \<and> sent = data) \<or> (r = - 1 \<and> (\<exists>rest. rest \<noteq> [] \<and> data = sent @ rest))"
  using sendn_loop_sent [of "length data" data "[]"] by (simp add: nc_sendn_def)

text \<open>What the answers offer: the bytes up to the first end of file.\<close>

fun offered :: "recv_reply list \<Rightarrow> bytes" where
  "offered [] = []"
| "offered (Data bs # rs) = (if bs = [] then [] else bs @ offered rs)"
| "offered (RErr _ # rs) = offered rs"

lemma recvn_loop_got:
  "recvn_loop nleft got rs = Some (r, got', rs') \<Longrightarrow>
   (\<exists>bs. got' = got @ bs \<and> length bs \<le> nleft \<and> (\<exists>rest. offered rs = bs @ rest))
   \<and> (r = int (length got') \<or> r = - 1)"
proof (induction nleft got rs rule: recvn_loop.induct)
  case (4 n got bs rs)
  show ?case
  proof (cases "bs = [] \<or> length bs > Suc n")
    case False
    with 4(2) have "recvn_loop (Suc n - length bs) (got @ bs) rs = Some (r, got', rs')" by simp
    from 4(1) [OF _ _ this] False obtain cs where
      "got' = got @ bs @ cs" "length cs \<le> Suc n - length bs" "\<exists>rest. offered rs = cs @ rest"
      and "r = int (length got') \<or> r = - 1" by auto
    with False show ?thesis by (auto intro!: exI [of _ "bs @ cs"])
  qed (use 4 in \<open>auto split: if_splits\<close>)
qed (auto split: if_splits)

section \<open>What the callers rely on\<close>

text \<open>Printing a number in decimal and parsing it gives the number back, for every number
  that fits an \<^verbatim>\<open>int\<close>; and whatever text is parsed, the result is the mark of an error or a
  number in that range.\<close>
lemma number_round_trip:
  assumes "n < 2 ^ 31"
  shows "nc_atoi (dec_print n) = Some (int n) \<and> (\<forall>ds v. nc_atoi ds = Some v \<longrightarrow> - 1 \<le> v \<and> v < 2 ^ 31)"
  using nc_atoi_dec_print [OF assms] nc_atoi_range by blast

lemma number_round_trip_witness: "nc_atoi (dec_print 11211) = Some 11211"
  using number_round_trip [of 11211] by simp

text \<open>The identifiers that are handed out, up to the 2 to the 64 that exist, are pairwise
  different, whatever the counter starts with.\<close>
lemma identifiers_distinct:
  assumes "k \<le> 2 ^ 64"
  shows "distinct (fst (next_ids k s)) \<and> length (fst (next_ids k s)) = k"
  using next_ids_distinct [OF assms] by (simp add: next_ids_eq)

lemma identifiers_distinct_witness: "distinct (fst (next_ids 3 (statics_init\<lparr>st_id := - 1\<rparr>)))"
  using identifiers_distinct [of 3] by simp

text \<open>A kernel that makes progress: it is interrupted or takes at least one byte, never more
  than it is given.\<close>

fun progress :: "nat \<Rightarrow> send_reply list \<Rightarrow> bool" where
  "progress n [] \<longleftrightarrow> n = 0"
| "progress n (SErr e # rs) \<longleftrightarrow> n = 0 \<or> e = EINTR \<and> progress n rs"
| "progress n (Sent k # rs) \<longleftrightarrow> n = 0 \<or> 0 < k \<and> k \<le> n \<and> progress (n - k) rs"

lemma sendn_loop_progress:
  "progress (length data) rs \<Longrightarrow> \<exists>rs'. sendn_loop n data sent rs = Some (int n, sent @ data, rs')"
proof (induction n data sent rs rule: sendn_loop.induct)
  case (4 n d data sent k rs)
  then have "\<exists>rs'. sendn_loop n (drop k (d # data)) (sent @ take k (d # data)) rs
      = Some (int n, (sent @ take k (d # data)) @ drop k (d # data), rs')"
    by (intro 4(1)) simp_all
  with 4(2) show ?case by (simp only: append_assoc append_take_drop_id) simp
qed auto

text \<open>C25. Sending a buffer returns its length only when exactly its bytes went out in their
  order, and \<open>-1\<close> only when a proper prefix did; and it does return with everything sent as
  soon as the kernel makes progress, however the bytes are cut and however often it is
  interrupted.\<close>
theorem send_all_or_prefix:
  "(nc_sendn data rs = Some (r, sent, rs') \<longrightarrow>
     r = int (length data) \<and> sent = data \<or> r = - 1 \<and> (\<exists>rest. rest \<noteq> [] \<and> data = sent @ rest))
   \<and> (progress (length data) rs \<longrightarrow> (\<exists>rs'. nc_sendn data rs = Some (int (length data), data, rs')))"
  using nc_sendn_sent sendn_loop_progress [of data rs "length data" "[]"] by (auto simp: nc_sendn_def)

theorem send_all_or_prefix_witness:
  "\<exists>rs. nc_sendn [1, 2, 3] [SErr EINTR, Sent 2, SErr EINTR, Sent 1] = Some (3, [1, 2, 3], rs)"
  using send_all_or_prefix [of "[1, 2, 3]" "[SErr EINTR, Sent 2, SErr EINTR, Sent 1]"] by simp

text \<open>Receiving a buffer stores a prefix of the bytes the connection offers, no more than
  were asked for, and returns their number or \<open>-1\<close>.\<close>
lemma receive_prefix:
  assumes "nc_recvn n rs = Some (r, got, rs')"
  shows "length got \<le> n \<and> (\<exists>rest. offered rs = got @ rest) \<and> (r = int (length got) \<or> r = - 1)"
  using recvn_loop_got [of n "[]" rs r got rs'] assms by (auto simp: nc_recvn_def)

lemma receive_prefix_witness:
  "\<exists>r got rs. nc_recvn 3 [Data [1, 2], RErr EINTR, Data []] = Some (r, got, rs) \<and> (\<exists>rest. [1, 2] = got @ rest)"
proof -
  have "\<exists>r got rs. nc_recvn 3 [Data [1, 2], RErr EINTR, Data []] = Some (r, got, rs)"
    by (simp add: nc_recvn_def numeral_3_eq_3)
  then obtain r got rs where e: "nc_recvn 3 [Data [1, 2], RErr EINTR, Data []] = Some (r, got, rs)" by blast
  with receive_prefix [OF e] show ?thesis by auto
qed

end
