(* ===== verification/NcSys.thy ===== *)
theory NcSys
  imports NcUtil "HOL-Library.State_Monad"
begin

text \<open>
  The parts of \<^verbatim>\<open>nc_util.h\<close> and \<^verbatim>\<open>nc_util.cpp\<close> that are sequences of system calls: socket
  options, address resolution, becoming a daemon and the pid file. The kernel is a parameter:
  a function from the calls made so far and the new call to its answer. A routine is a
  state monad over the list of calls made, so that its theorems can speak of their order.
\<close>

section \<open>System calls\<close>

datatype sockopt = SO_REUSEADDR | TCP_NODELAY | SO_LINGER | SO_SNDBUF | SO_RCVBUF | SO_KEEPALIVE | SO_ERROR

datatype syscall =
    F_GETFL int | F_SETFL int u32
  | Setsockopt int sockopt "int list"
  | Getsockopt int sockopt
  | Sockopt_value int sockopt
  | Fork | Setsid | Signal_SIGHUP_IGN | Chdir_root | Umask_0 | Open_devnull
  | Dup2 int int | Close int
  | Open_trunc bytes | Write int bytes | Unlink bytes

type_synonym trace = "syscall list"
type_synonym kernel = "trace \<Rightarrow> syscall \<Rightarrow> int"
type_synonym 'a sys = "(trace, 'a) state"

definition call :: "kernel \<Rightarrow> syscall \<Rightarrow> int sys" where
  "call k c = State (\<lambda>h. (k h c, h @ [c]))"

lemma run_call [simp]: "run_state (call k c) h = (k h c, h @ [c])"
  by (simp add: call_def)

section \<open>Socket options\<close>

definition O_NONBLOCK :: u32 where "O_NONBLOCK = 0x800"

definition ncSetBlocking :: "kernel \<Rightarrow> int \<Rightarrow> int sys" where
  "ncSetBlocking k sd = do {
     flags \<leftarrow> call k (F_GETFL sd);
     if flags < 0 then State_Monad.return flags
     else call k (F_SETFL sd (of_int flags AND NOT O_NONBLOCK))
   }"

definition ncSetNonBlocking :: "kernel \<Rightarrow> int \<Rightarrow> int sys" where
  "ncSetNonBlocking k sd = do {
     flags \<leftarrow> call k (F_GETFL sd);
     if flags < 0 then State_Monad.return flags
     else call k (F_SETFL sd (of_int flags OR O_NONBLOCK))
   }"

definition ncSetReuseAddr :: "kernel \<Rightarrow> int \<Rightarrow> int sys" where
  "ncSetReuseAddr k sd = call k (Setsockopt sd SO_REUSEADDR [1])"

definition ncSetTcpNodelay :: "kernel \<Rightarrow> int \<Rightarrow> int sys" where
  "ncSetTcpNodelay k sd = call k (Setsockopt sd TCP_NODELAY [1])"

definition ncSetLinger :: "kernel \<Rightarrow> int \<Rightarrow> int \<Rightarrow> int sys" where
  "ncSetLinger k sd timeout = call k (Setsockopt sd SO_LINGER [1, timeout])"

definition ncSetSndBuf :: "kernel \<Rightarrow> int \<Rightarrow> int \<Rightarrow> int sys" where
  "ncSetSndBuf k sd sz = call k (Setsockopt sd SO_SNDBUF [sz])"

definition ncSetRcvBuf :: "kernel \<Rightarrow> int \<Rightarrow> int \<Rightarrow> int sys" where
  "ncSetRcvBuf k sd sz = call k (Setsockopt sd SO_RCVBUF [sz])"

definition ncSetTcpKeepalive :: "kernel \<Rightarrow> int \<Rightarrow> int sys" where
  "ncSetTcpKeepalive k sd = call k (Setsockopt sd SO_KEEPALIVE [1])"

text \<open>
  The getters call \<^verbatim>\<open>getsockopt\<close>, which fills a variable: its value is read by
  \<open>Sockopt_value\<close>. \<open>ncGetSoError\<close> returns the status and the new \<^verbatim>\<open>errno\<close>.
\<close>

definition ncGetSoError :: "kernel \<Rightarrow> int \<Rightarrow> int \<Rightarrow> (int \<times> int) sys" where
  "ncGetSoError k errno0 sd = do {
     status \<leftarrow> call k (Getsockopt sd SO_ERROR);
     if status = 0 then do {
       err \<leftarrow> call k (Sockopt_value sd SO_ERROR);
       State_Monad.return (status, err)
     } else State_Monad.return (status, errno0)
   }"

definition ncGetBuf :: "kernel \<Rightarrow> sockopt \<Rightarrow> int \<Rightarrow> int sys" where
  "ncGetBuf k opt sd = do {
     status \<leftarrow> call k (Getsockopt sd opt);
     if status < 0 then State_Monad.return status else call k (Sockopt_value sd opt)
   }"

definition ncGetSndBuf :: "kernel \<Rightarrow> int \<Rightarrow> int sys" where
  "ncGetSndBuf k sd = ncGetBuf k SO_SNDBUF sd"

definition ncGetRcvBuf :: "kernel \<Rightarrow> int \<Rightarrow> int sys" where
  "ncGetRcvBuf k sd = ncGetBuf k SO_RCVBUF sd"

lemmas sock_defs = ncSetBlocking_def ncSetNonBlocking_def ncSetReuseAddr_def ncSetTcpNodelay_def
  ncSetLinger_def ncSetSndBuf_def ncSetRcvBuf_def ncSetTcpKeepalive_def

text \<open>
  Only the bit \<open>O_NONBLOCK\<close> changes, and nothing is set when the flags cannot be read.
\<close>

lemma bit_O_NONBLOCK: "bit O_NONBLOCK n \<longleftrightarrow> n = 11"
proof -
  have "bit (push_bit 11 1 :: u32) n \<longleftrightarrow> n = 11" by (auto simp only: bit_push_bit_iff bit_1_iff) simp_all
  then show ?thesis by (simp add: O_NONBLOCK_def)
qed

lemma ncSetNonBlocking_flags:
  fixes flags :: u32
  assumes "k [] (F_GETFL sd) = int (unat flags)"
  obtains new where "snd (run_state (ncSetNonBlocking k sd) []) = [F_GETFL sd, F_SETFL sd new]"
    "\<And>n. bit new n \<longleftrightarrow> bit flags n \<or> n = 11"
proof
  show "snd (run_state (ncSetNonBlocking k sd) []) = [F_GETFL sd, F_SETFL sd (flags OR O_NONBLOCK)]"
    using assms by (simp add: ncSetNonBlocking_def)
qed (simp add: bit_or_iff bit_O_NONBLOCK)

section \<open>Time\<close>

text \<open>\<open>gettimeofday\<close> is a parameter: \<open>None\<close> when it fails. A 64-bit product cannot overflow
  before the year 294441, so the time is an \<open>int\<close>.\<close>

definition ncUsecNow :: "(int \<times> int) option \<Rightarrow> int" where
  "ncUsecNow tod = (case tod of None \<Rightarrow> - 1 | Some (sec, usec) \<Rightarrow> sec * 1000000 + usec)"

text \<open>The division of C rounds towards zero.\<close>

definition ncMsecNow :: "(int \<times> int) option \<Rightarrow> int" where
  "ncMsecNow tod = (let u = ncUsecNow tod in sgn u * (\<bar>u\<bar> div 1000))"

lemma ncMsecNow_fail: "ncMsecNow None = 0"
  by (simp add: ncMsecNow_def ncUsecNow_def)

section \<open>Addresses\<close>

datatype sockaddr = Unix bytes | Inet bytes | No_addr

record sockinfo =
  si_family :: int
  si_addrlen :: nat
  si_addr :: sockaddr

definition AF_UNIX :: int where "AF_UNIX = 1"
definition NC_UNIX_ADDRSTRLEN :: nat where "NC_UNIX_ADDRSTRLEN = 108"

text \<open>
  \<open>ncResolve\<close>: \<open>gai node port\<close> stands for \<^verbatim>\<open>getaddrinfo\<close>; its answer is the status and the
  list of (family, length, address). The result is the status and what was stored.
\<close>

definition ncResolve ::
  "(bytes \<Rightarrow> int \<Rightarrow> int \<times> (int \<times> nat \<times> bytes) list) \<Rightarrow> bytes option \<Rightarrow> int \<Rightarrow> sockinfo \<Rightarrow> int \<times> sockinfo" where
  "ncResolve gai name port si =
     (case name of
        None \<Rightarrow> (- 1, si)
      | Some name \<Rightarrow>
          if name = [] then (- 1, si)
          else if hd name = 47 then
            (if length name \<ge> NC_UNIX_ADDRSTRLEN then (- 1, si)
             else (0, si\<lparr>si_addr := Unix name, si_family := AF_UNIX, si_addrlen := 110\<rparr>))
          else
            (let (status, ais) = gai name port in
             if status \<noteq> 0 then (- 1, si)
             else case ais of
                 [] \<Rightarrow> (- 1, si)
               | (family, len, addr) # _ \<Rightarrow>
                   (0, si\<lparr>si_family := family, si_addrlen := len, si_addr := Inet addr\<rparr>)))"

text \<open>A failed resolution leaves the address as it was.\<close>

lemma ncResolve_cases:
  "ncResolve gai name port si = (r, si') \<Longrightarrow> r = 0 \<or> (r = - 1 \<and> si' = si)"
  by (auto simp: ncResolve_def Let_def split: option.splits if_splits list.splits prod.splits)

text \<open>\<open>ncUnresolveAddr\<close>, \<open>ncUnResolvePeerDesc\<close> and \<open>ncUnResolveDesc\<close>: \<open>gni\<close> stands for
  \<^verbatim>\<open>getnameinfo\<close>, \<open>status\<close> is the answer of \<^verbatim>\<open>getpeername\<close> or \<^verbatim>\<open>getsockname\<close>.\<close>

definition unknown :: bytes where
  "unknown = [0x75, 0x6e, 0x6b, 0x6e, 0x6f, 0x77, 0x6e]"

definition ncUnresolveAddr :: "('addr \<Rightarrow> int \<times> bytes \<times> bytes) \<Rightarrow> 'addr \<Rightarrow> bytes" where
  "ncUnresolveAddr gni addr =
     (let (status, host, service) = gni addr in
      if status < 0 then unknown else host @ 58 # service)"

definition ncUnResolvePeerDesc :: "('addr \<Rightarrow> int \<times> bytes \<times> bytes) \<Rightarrow> int \<times> 'addr \<Rightarrow> bytes" where
  "ncUnResolvePeerDesc gni peer =
     (let (status, addr) = peer in if status < 0 then unknown else ncUnresolveAddr gni addr)"

definition ncUnResolveDesc :: "('addr \<Rightarrow> int \<times> bytes \<times> bytes) \<Rightarrow> int \<times> 'addr \<Rightarrow> bytes" where
  "ncUnResolveDesc gni sock =
     (let (status, addr) = sock in if status < 0 then unknown else ncUnresolveAddr gni addr)"

section \<open>Becoming a daemon\<close>

text \<open>\<open>Exited\<close>: the process that called \<open>_exit(0)\<close>; \<open>Returned\<close>: the one that goes on.\<close>

datatype daemon = Exited | Returned rstatus

definition redirect_to :: "kernel \<Rightarrow> int \<Rightarrow> int \<Rightarrow> daemon sys \<Rightarrow> daemon sys" where
  "redirect_to k fd std next = do {
     status \<leftarrow> call k (Dup2 fd std);
     if status < 0 then do {
       _ \<leftarrow> call k (Close fd);
       State_Monad.return (Returned NC_ERROR)
     } else next
   }"

definition daemon_files :: "kernel \<Rightarrow> daemon sys" where
  "daemon_files k = do {
     _ \<leftarrow> call k Umask_0;
     fd \<leftarrow> call k Open_devnull;
     if fd < 0 then State_Monad.return (Returned NC_ERROR)
     else redirect_to k fd 0 (redirect_to k fd 1 (redirect_to k fd 2 (
       if fd > 2 then do {
         status \<leftarrow> call k (Close fd);
         State_Monad.return (Returned (if status < 0 then NC_ERROR else NC_OK))
       } else State_Monad.return (Returned NC_OK))))
   }"

definition ncDaemonize :: "kernel \<Rightarrow> bool \<Rightarrow> daemon sys" where
  "ncDaemonize k dump_core = do {
     pid \<leftarrow> call k Fork;
     if pid = - 1 then State_Monad.return (Returned NC_ERROR)
     else if pid \<noteq> 0 then State_Monad.return Exited
     else do {
       sid \<leftarrow> call k Setsid;
       if sid < 0 then State_Monad.return (Returned NC_ERROR)
       else do {
         sig \<leftarrow> call k Signal_SIGHUP_IGN;
         if sig = - 1 then State_Monad.return (Returned NC_ERROR)
         else do {
           pid \<leftarrow> call k Fork;
           if pid = - 1 then State_Monad.return (Returned NC_ERROR)
           else if pid \<noteq> 0 then State_Monad.return Exited
           else if \<not> dump_core then do {
             status \<leftarrow> call k Chdir_root;
             if status < 0 then State_Monad.return (Returned NC_ERROR) else daemon_files k
           } else daemon_files k
         }
       }
     }
   }"

text \<open>The answer to the first call \<open>c\<close> of a trace.\<close>

definition first_answer :: "kernel \<Rightarrow> trace \<Rightarrow> syscall \<Rightarrow> int" where
  "first_answer k h c = k (takeWhile (\<lambda>x. x \<noteq> c) h) c"

lemmas daemon_defs = ncDaemonize_def daemon_files_def redirect_to_def first_answer_def

text \<open>The process goes on with \<open>NC_OK\<close> only after the whole sequence, in this order.\<close>

lemma ncDaemonize_ok:
  assumes "run_state (ncDaemonize k dump_core) [] = (Returned NC_OK, h)"
  shows "h = [Fork, Setsid, Signal_SIGHUP_IGN, Fork] @ (if dump_core then [] else [Chdir_root])
    @ [Umask_0, Open_devnull] @ map (Dup2 (first_answer k h Open_devnull)) [0, 1, 2]
    @ (if first_answer k h Open_devnull > 2 then [Close (first_answer k h Open_devnull)] else [])"
  using assms by (auto simp: daemon_defs split: if_splits)

text \<open>A descriptor opened for \<^verbatim>\<open>/dev/null\<close> beyond the standard three is closed on every path.\<close>

lemma ncDaemonize_no_leak:
  assumes "run_state (ncDaemonize k dump_core) [] = (d, h)"
    and "Open_devnull \<in> set h" "first_answer k h Open_devnull > 2"
  shows "Close (first_answer k h Open_devnull) \<in> set h"
  using assms by (auto simp: daemon_defs split: if_splits)

section \<open>The pid file\<close>

text \<open>
  \<open>ncCreatePidfile(name, _pid)\<close> formats its own local array \<open>pid\<close> with \<^verbatim>\<open>"%d"\<close>, not the
  argument: the number written is the address \<open>frame\<close> of that array.
\<close>

definition int_print :: "int \<Rightarrow> bytes" where
  "int_print n = (if n < 0 then 45 # dec_print (nat (- n)) else dec_print (nat n))"

definition ncCreatePidfile :: "kernel \<Rightarrow> int \<Rightarrow> bytes \<Rightarrow> int \<Rightarrow> rstatus sys" where
  "ncCreatePidfile k frame name pid = do {
     fd \<leftarrow> call k (Open_trunc name);
     if fd < 0 then State_Monad.return NC_ERROR
     else do {
       n \<leftarrow> call k (Write fd (int_print frame));
       if n < 0 then State_Monad.return NC_ERROR
       else do {
         _ \<leftarrow> call k (Close fd);
         State_Monad.return NC_OK
       }
     }
   }"

definition ncRemovePidfile :: "kernel \<Rightarrow> bytes \<Rightarrow> unit sys" where
  "ncRemovePidfile k name = do {
     _ \<leftarrow> call k (Unlink name);
     State_Monad.return ()
   }"

lemma ncCreatePidfile_pid: "ncCreatePidfile k frame name pid = ncCreatePidfile k frame name pid'"
  by (simp add: ncCreatePidfile_def)

text \<open>C32. A process that becomes a daemon went through exactly the sequence fork, new session,
  ignoring the hangup, second fork, the mask, the null device and the three redirections, in
  this order, with the change of directory only if no core is to be dumped; and on no path,
  failing or not, is the null device left open under a number above two.\<close>
theorem daemon_sequence:
  assumes "run_state (ncDaemonize k dump_core) [] = (d, h)"
  shows "(d = Returned NC_OK \<longrightarrow> h = [Fork, Setsid, Signal_SIGHUP_IGN, Fork] @ (if dump_core then [] else [Chdir_root])
      @ [Umask_0, Open_devnull] @ map (Dup2 (first_answer k h Open_devnull)) [0, 1, 2]
      @ (if first_answer k h Open_devnull > 2 then [Close (first_answer k h Open_devnull)] else []))
    \<and> (Open_devnull \<in> set h \<and> first_answer k h Open_devnull > 2 \<longrightarrow> Close (first_answer k h Open_devnull) \<in> set h)"
  using ncDaemonize_ok [of k dump_core h] ncDaemonize_no_leak [OF assms] assms by blast

theorem daemon_sequence_witness:
  "Close 3 \<in> set (snd (run_state (ncDaemonize (\<lambda>h c. case c of Open_devnull \<Rightarrow> 3 | _ \<Rightarrow> 0) True) []))"
proof -
  let ?k = "\<lambda>(h :: trace) c. case c of Open_devnull \<Rightarrow> 3 | _ \<Rightarrow> (0 :: int)"
  have r: "run_state (ncDaemonize ?k True) [] = (Returned NC_OK, [Fork, Setsid, Signal_SIGHUP_IGN, Fork, Umask_0, Open_devnull,
      Dup2 3 0, Dup2 3 1, Dup2 3 2, Close 3])" by code_simp
  from daemon_sequence [OF r] have "\<forall>x. x = first_answer ?k [Fork, Setsid, Signal_SIGHUP_IGN, Fork, Umask_0, Open_devnull,
      Dup2 3 0, Dup2 3 1, Dup2 3 2, Close 3] Open_devnull \<and> x > 2 \<longrightarrow> Close x \<in> set [Fork, Setsid, Signal_SIGHUP_IGN, Fork,
      Umask_0, Open_devnull, Dup2 3 0, Dup2 3 1, Dup2 3 2, Close 3]" by simp
  then show ?thesis unfolding r by simp
qed

end
