(* ===== verification/NcServerPool.thy ===== *)
theory NcServerPool
  imports HashFnv HashCrc HashBlock HashMd5 NcString NcSys
begin

text \<open>
  The server pool of \<^verbatim>\<open>nc_server.h\<close> and \<^verbatim>\<open>nc_hashkit.cpp\<close>: the records of \<open>NcServer\<close> and
  \<open>NcServerPool\<close>, the hash selected by number, the rebuilding of the continuum, the choice
  of a server for a key and the ejection of a failing server. Connections are numbers, the
  position of a server in its pool is its identity. The queue of connections of a server can
  hold null pointers. Members that no code reads are left out.
\<close>

section \<open>The records\<close>

record server =
  sv_idx :: u32
  sv_pname :: bytes
  sv_name :: bytes
  sv_addrstr :: bytes
  sv_port :: u16
  sv_weight :: u32
  sv_info :: sockinfo
  sv_conn_q :: "nat option list"
  sv_ns_conn_q :: u32
  sv_next_retry :: int
  sv_failure_count :: u32

text \<open>A slot of the continuum.\<close>

record continuum =
  cn_index :: u32
  cn_value :: u32

record spool =
  sp_p_conn :: "nat option"
  sp_nc_conn_q :: u32
  sp_c_conn_q :: "nat list"
  sp_server :: "server list"
  sp_nlive_server :: u32
  sp_next_rebuild :: int
  sp_name :: bytes
  sp_addrstr :: bytes
  sp_port :: u16
  sp_info :: sockinfo
  sp_perm :: u32
  sp_dist_type :: int
  sp_key_hash_type :: int
  sp_hash_tag :: bytes
  sp_timeout :: int
  sp_backlog :: int
  sp_client_connections :: u32
  sp_server_connections :: u32
  sp_server_retry_timeout :: int
  sp_server_failure_limit :: u32
  sp_tcpkeepalive :: bool
  sp_auto_eject_hosts :: bool
  sp_preconnect :: bool
  sp_nserver_continuum :: u32
  sp_continuum :: "continuum list"

section \<open>NcHashKit::hash\<close>

text \<open>The key is the first \<open>len\<close> bytes of the memory at the address \<open>addr\<close>.\<close>

definition key_bytes_of :: "(nat \<Rightarrow> byte) \<Rightarrow> nat \<Rightarrow> bytes" where
  "key_bytes_of m len = map m [0..<len]"

definition nc_hash :: "bytes \<Rightarrow> int \<Rightarrow> u64 \<Rightarrow> (nat \<Rightarrow> byte) \<Rightarrow> nat \<Rightarrow> u32 option" where
  "nc_hash junk type addr m len =
     (let key = key_bytes_of m len in
      if type = 0x1 then Some (one_at_a_timeHash key)
      else if type = 0x2 then md5Hash junk key
      else if type = 0x3 then Some (crc16Hash key)
      else if type = 0x4 then Some (crc32Hash key)
      else if type = 0x5 then Some (crc32aHash key)
      else if type = 0x6 then Some (fnv164Hash key)
      else if type = 0x7 then Some (fnv164aHash key)
      else if type = 0x8 then Some (fnv132Hash key)
      else if type = 0x9 then Some (fnv132aHash key)
      else if type = 0xa then Some (hsiehHash key)
      else if type = 0xb then Some (murmurHash key)
      else if type = 0xc then Some (jenkinsHash addr m len)
      else Some 0)"

section \<open>Rebuilding the continuum\<close>

definition RANDOM_CONTINUUM_ADDITION :: u32 where "RANDOM_CONTINUUM_ADDITION = 10"
definition RANDOM_POINTS_PER_SERVER :: u32 where "RANDOM_POINTS_PER_SERVER = 1"
definition kDIST_RANDOM :: int where "kDIST_RANDOM = 0x300"

text \<open>
  The first loop: servers whose retry time has come are live again, the next rebuild is at
  the earliest retry time of the others.
\<close>

fun count_live :: "bool \<Rightarrow> int \<Rightarrow> server list \<Rightarrow> u32 \<times> int \<Rightarrow> server list \<times> u32 \<times> int" where
  "count_live eject now [] (nlive, rebuild) = ([], nlive, rebuild)"
| "count_live eject now (s # ss) (nlive, rebuild) =
     (let (s', nlive, rebuild) =
        (if eject then
           if sv_next_retry s \<le> now then (s\<lparr>sv_next_retry := 0\<rparr>, nlive + 1, rebuild)
           else if rebuild = 0 \<or> sv_next_retry s < rebuild then (s, nlive, sv_next_retry s)
           else (s, nlive, rebuild)
         else (s, nlive + 1, rebuild));
        (ss', nlive, rebuild) = count_live eject now ss (nlive, rebuild)
      in (s' # ss', nlive, rebuild))"

text \<open>
  The loop that adds slots compares its counter with what is still missing, and the missing
  number shrinks as the loop adds. Should the vector already be longer than \<open>n\<close>, the
  difference wraps around and the loop does not end (\<open>None\<close>).
\<close>

function grow :: "nat \<Rightarrow> nat \<Rightarrow> continuum list \<Rightarrow> continuum list option" where
  "grow i n cs =
     (if length cs > n then None
      else if i < n - length cs then grow (i + 1) n (cs @ [\<lparr>cn_index = 0, cn_value = 0\<rparr>])
      else Some cs)"
  by pat_completeness auto
termination by (relation "measure (\<lambda>(i, n, cs). n + 1 - length cs)") auto

declare grow.simps [simp del]

text \<open>The last loop writes one slot per live server; a slot outside of the vector is \<open>None\<close>.\<close>

fun fill_slots :: "bool \<Rightarrow> int \<Rightarrow> nat \<Rightarrow> nat \<Rightarrow> server list \<Rightarrow> continuum list \<Rightarrow> continuum list option" where
  "fill_slots eject now i ci [] cs = Some cs"
| "fill_slots eject now i ci (s # ss) cs =
     (if eject \<and> sv_next_retry s > now then fill_slots eject now (i + 1) ci ss cs
      else if ci < length cs then
        fill_slots eject now (i + 1) (ci + 1) ss (cs[ci := \<lparr>cn_index = of_nat i, cn_value = 0\<rparr>])
      else None)"

definition random_update :: "int \<Rightarrow> spool \<Rightarrow> (rstatus \<times> spool) option" where
  "random_update now p =
     (if now < 0 then Some (NC_ERROR, p)
      else do {
        let eject = sp_auto_eject_hosts p;
        let (servers, nlive, rebuild) = count_live eject now (sp_server p) (0, 0);
        let p = p\<lparr>sp_server := servers, sp_next_rebuild := rebuild, sp_nlive_server := nlive\<rparr>;
        if nlive = 0 then Some (NC_OK, p)
        else do {
          p \<leftarrow> (if nlive > sp_nserver_continuum p then do {
                 let n = nlive + RANDOM_CONTINUUM_ADDITION;
                 cs \<leftarrow> grow 0 (unat (n * RANDOM_POINTS_PER_SERVER)) (sp_continuum p);
                 Some (p\<lparr>sp_continuum := cs, sp_nserver_continuum := n\<rparr>)
               } else Some p);
          cs \<leftarrow> fill_slots eject now 0 0 (sp_server p) (sp_continuum p);
          Some (NC_OK, p\<lparr>sp_continuum := cs\<rparr>)
        }
      })"

definition pool_update :: "int \<Rightarrow> spool \<Rightarrow> (rstatus \<times> spool) option" where
  "pool_update now p = random_update now p"

section \<open>Choosing a server\<close>

text \<open>\<open>dispatch\<close>; \<open>rand\<close> is what \<^verbatim>\<open>random()\<close> returns.\<close>

definition hash_dispatch :: "nat \<Rightarrow> spool \<Rightarrow> u32 \<Rightarrow> u32 option" where
  "hash_dispatch rand p hashv =
     (if sp_dist_type p = kDIST_RANDOM then
        if sp_continuum p = [] then None
        else Some (cn_index (sp_continuum p ! (rand mod length (sp_continuum p))))
      else Some 0)"

text \<open>
  \<open>index(key, keylen)\<close>: the part of the key between the two characters of the hash tag is
  hashed instead of the key. \<open>m\<close> is the memory from the key on.
\<close>

definition tag_range :: "bytes \<Rightarrow> (int \<Rightarrow> byte) \<Rightarrow> int \<Rightarrow> int \<times> int" where
  "tag_range tag m keylen =
     (if tag \<noteq> [] then
        case nc_strchr m 0 keylen (tag ! 0) of
          None \<Rightarrow> (0, keylen)
        | Some tag_start \<Rightarrow>
            (case nc_strchr m (tag_start + 1) keylen ((tag @ [0]) ! 1) of
               None \<Rightarrow> (0, keylen)
             | Some tag_end \<Rightarrow>
                 if tag_end - tag_start > 1 then (tag_start + 1, tag_end - (tag_start + 1))
                 else (0, keylen))
      else (0, keylen))"

definition pool_index :: "bytes \<Rightarrow> nat \<Rightarrow> spool \<Rightarrow> u64 \<Rightarrow> (int \<Rightarrow> byte) \<Rightarrow> nat \<Rightarrow> u32 option" where
  "pool_index junk rand p addr m keylen = do {
     let (key, len) = tag_range (sp_hash_tag p) m (int keylen);
     hashv \<leftarrow> nc_hash junk (sp_key_hash_type p) (addr + of_int key) (\<lambda>i. m (key + int i)) (nat len);
     hash_dispatch rand p hashv
   }"

text \<open>The server that \<open>NcServerPool::getConn\<close> asks for a connection.\<close>

definition pool_server :: "bytes \<Rightarrow> nat \<Rightarrow> spool \<Rightarrow> u64 \<Rightarrow> (int \<Rightarrow> byte) \<Rightarrow> nat \<Rightarrow> nat option" where
  "pool_server junk rand p addr m keylen = do {
     idx \<leftarrow> pool_index junk rand p addr m keylen;
     if sp_server p = [] then None
     else Some (unat idx mod length (sp_server p))
   }"

section \<open>Failures\<close>

text \<open>\<open>NcServer::failure\<close> for the server at position \<open>j\<close>; \<open>now\<close> is the time read.\<close>

definition server_failure :: "int \<Rightarrow> nat \<Rightarrow> spool \<Rightarrow> spool option" where
  "server_failure now j p =
     (if j \<ge> length (sp_server p) then None
      else if \<not> sp_auto_eject_hosts p then Some p
      else
        let s = sp_server p ! j;
            s = s\<lparr>sv_failure_count := sv_failure_count s + 1\<rparr>;
            p = p\<lparr>sp_server := (sp_server p)[j := s]\<rparr>
        in if sv_failure_count s < sp_server_failure_limit p then Some p
           else if now < 0 then Some p
           else
             let s = s\<lparr>sv_failure_count := 0, sv_next_retry := now + sp_server_retry_timeout p\<rparr>;
                 p = p\<lparr>sp_server := (sp_server p)[j := s]\<rparr>
             in map_option snd (pool_update now p))"

section \<open>Properties of the rebuilding\<close>

text \<open>The positions, from \<open>i\<close> on, of the servers that are live at the time \<open>now\<close>.\<close>

fun live_idx :: "bool \<Rightarrow> int \<Rightarrow> nat \<Rightarrow> server list \<Rightarrow> nat list" where
  "live_idx eject now i [] = []"
| "live_idx eject now i (s # ss) =
     (if eject \<and> sv_next_retry s > now then live_idx eject now (i + 1) ss
      else i # live_idx eject now (i + 1) ss)"

lemma live_idx_bounds: "\<forall>j\<in>set (live_idx eject now i ss). i \<le> j \<and> j < i + length ss"
  by (induction ss arbitrary: i) (auto, fastforce+)

lemma live_idx_length: "length (live_idx eject now i ss) \<le> length ss"
  by (cases eject; induction ss arbitrary: i; simp add: le_SucI)

lemma live_idx_shift: "length (live_idx eject now i ss) = length (live_idx eject now j ss)"
  by (cases eject; induction ss arbitrary: i j; simp)

lemma count_live_ok:
  "count_live eject now ss (n, r) = (ss', n', r') \<Longrightarrow> 0 \<le> now \<Longrightarrow>
   length ss' = length ss \<and> live_idx eject now i ss' = live_idx eject now i ss
   \<and> n' = n + of_nat (length (live_idx eject now i ss))"
proof (induction ss arbitrary: n r n' r' ss' i)
  case (Cons s ss)
  obtain s1 n1 r1 where 1: "(if eject then
           if sv_next_retry s \<le> now then (s\<lparr>sv_next_retry := 0\<rparr>, n + 1, r)
           else if r = 0 \<or> sv_next_retry s < r then (s, n, sv_next_retry s)
           else (s, n, r)
         else (s, n + 1, r)) = (s1, n1, r1)" by (metis prod_cases3)
  obtain ss1 n2 r2 where 2: "count_live eject now ss (n1, r1) = (ss1, n2, r2)" by (metis prod_cases3)
  have "ss' = s1 # ss1" "n' = n2" using Cons.prems(1) 1 2 by (auto simp: Let_def)
  with Cons.IH [OF 2 Cons.prems(2), of "i + 1"] 1 Cons.prems(2) show ?case
    by (auto split: if_splits)
qed simp

abbreviation free_slot :: continuum where "free_slot \<equiv> \<lparr>cn_index = 0, cn_value = 0\<rparr>"
abbreviation slot :: "nat \<Rightarrow> continuum" where "slot j \<equiv> \<lparr>cn_index = of_nat j, cn_value = 0\<rparr>"

lemma grow_half:
  assumes "length cs \<le> n" "i \<le> n - length cs + 1"
  shows "grow i n cs = Some (cs @ replicate ((n - length cs + 1 - i) div 2) free_slot)"
  using assms
proof (induction i n cs rule: grow.induct)
  case (1 i n cs)
  show ?case
  proof (cases "i < n - length cs")
    case True
    have "length (cs @ [free_slot]) \<le> n" "i + 1 \<le> n - length (cs @ [free_slot]) + 1"
      using True by simp_all
    with 1 True have "grow (i + 1) n (cs @ [free_slot])
        = Some ((cs @ [free_slot]) @ replicate ((n - length (cs @ [free_slot]) + 1 - (i + 1)) div 2) free_slot)"
      by simp
    moreover have "n - length cs + 1 - i = Suc (Suc (n - length (cs @ [free_slot]) + 1 - (i + 1)))"
      using True by simp
    ultimately show ?thesis using True by (subst grow.simps) simp
  next
    case False
    with 1 have "(n - length cs + 1 - i) div 2 = 0" by simp
    with False 1 show ?thesis by (subst grow.simps) simp
  qed
qed

text \<open>The last loop fits exactly when there is a slot for every live server.\<close>

lemma fill_slots_eq:
  "fill_slots eject now i ci ss cs =
     (let js = live_idx eject now i ss in
      if js = [] \<or> ci + length js \<le> length cs
      then Some (take ci cs @ map slot js @ drop (ci + length js) cs) else None)"
proof (induction ss arbitrary: i ci cs)
  case (Cons s ss)
  show ?case
  proof (cases "eject \<and> sv_next_retry s > now")
    case False
    show ?thesis
    proof (cases "ci < length cs")
      case True
      let ?x = "slot i"
      have t: "take (ci + 1) (cs[ci := ?x]) = take ci cs @ [?x]"
        using True by (simp add: take_Suc_conv_app_nth)
      show ?thesis
        using False True t by (auto simp: Cons.IH Let_def simp flip: Suc_eq_plus1)
    qed (use False in \<open>auto simp: Let_def\<close>)
  qed (use Cons.IH [of "i + 1" ci cs] in \<open>simp add: Let_def\<close>)
qed (simp add: Let_def)

lemma unat_of_nat_u32: "n < 2 ^ 32 \<Longrightarrow> unat (of_nat n :: u32) = n"
  by (simp add: unat_of_nat take_bit_nat_eq_self)

text \<open>
  A pool whose continuum is still empty: \<open>n + 10\<close> slots are asked for, about half of them
  are added.
\<close>

lemma random_update_fresh:
  assumes fresh: "sp_continuum p = []" "sp_nserver_continuum p = 0"
    and now: "0 \<le> now" and small: "length (sp_server p) < 2 ^ 31"
    and js: "js = live_idx (sp_auto_eject_hosts p) now 0 (sp_server p)" "js \<noteq> []"
  shows "random_update now p = (if length js > 11 then None else
    Some (NC_OK, (snd (the (random_update now p)))))"
    and "length js \<le> 11 \<Longrightarrow> sp_continuum (snd (the (random_update now p)))
      = map slot js @ replicate ((length js + 11) div 2 - length js) free_slot"
    and "length js \<le> 11 \<Longrightarrow> sp_dist_type (snd (the (random_update now p))) = sp_dist_type p"
proof -
  obtain ss n r where cl: "count_live (sp_auto_eject_hosts p) now (sp_server p) (0, 0) = (ss, n, r)"
    by (metis prod_cases3)
  from count_live_ok [OF cl now, of 0] js(1) have
    n: "n = of_nat (length js)" and ss: "live_idx (sp_auto_eject_hosts p) now 0 ss = js" by simp_all
  have len: "length js < 2 ^ 31" using small live_idx_length [of _ now 0 "sp_server p"] js(1)
    by (metis le_less_trans)
  have un: "unat n = length js" unfolding n using len by (intro unat_of_nat_u32) simp
  with js(2) have pos: "n \<noteq> 0" "n > 0" by (auto simp: word_gt_0 simp flip: word_unat_eq_iff)
  have "n + RANDOM_CONTINUUM_ADDITION = of_nat (length js + 10)"
    by (simp add: n RANDOM_CONTINUUM_ADDITION_def)
  then have m: "unat ((n + RANDOM_CONTINUUM_ADDITION) * RANDOM_POINTS_PER_SERVER) = length js + 10"
    using len by (simp add: unat_of_nat_u32 RANDOM_POINTS_PER_SERVER_def del: of_nat_add)
  let ?k = "(length js + 11) div 2"
  have g: "grow 0 (length js + 10) [] = Some (replicate ?k free_slot)"
    using grow_half [of "[]" "length js + 10" 0] by (simp add: add.commute)
  let ?cs = "map slot js @ replicate (?k - length js) free_slot"
  have f: "fill_slots (sp_auto_eject_hosts p) now 0 0 ss (replicate ?k free_slot)
      = (if length js > 11 then None else Some ?cs)"
    unfolding fill_slots_eq Let_def ss using js(2) by (auto simp: drop_replicate)
  have eq: "random_update now p = (if length js > 11 then None else
      Some (NC_OK, p\<lparr>sp_server := ss, sp_next_rebuild := r, sp_nlive_server := n,
        sp_continuum := ?cs, sp_nserver_continuum := n + RANDOM_CONTINUUM_ADDITION\<rparr>))"
    using now pos fresh by (simp add: random_update_def cl Let_def m g f)
  show "random_update now p = (if length js > 11 then None else
    Some (NC_OK, (snd (the (random_update now p)))))"
    unfolding eq by simp
  show "length js \<le> 11 \<Longrightarrow> sp_continuum (snd (the (random_update now p))) = ?cs"
    and "length js \<le> 11 \<Longrightarrow> sp_dist_type (snd (the (random_update now p))) = sp_dist_type p"
    unfolding eq by simp_all
qed


text \<open>Pools for the witnesses: \<open>n\<close> servers, the first of which may be ejected.\<close>

definition server_example :: "int \<Rightarrow> server" where
  "server_example retry = \<lparr>sv_idx = 0, sv_pname = [], sv_name = [], sv_addrstr = [0x61], sv_port = 80,
     sv_weight = 1, sv_info = \<lparr>si_family = 2, si_addrlen = 16, si_addr = No_addr\<rparr>, sv_conn_q = [],
     sv_ns_conn_q = 0, sv_next_retry = retry, sv_failure_count = 0\<rparr>"

definition spool_example :: "server list \<Rightarrow> spool" where
  "spool_example ss = \<lparr>sp_p_conn = None, sp_nc_conn_q = 0, sp_c_conn_q = [], sp_server = ss,
     sp_nlive_server = 0, sp_next_rebuild = 0, sp_name = [], sp_addrstr = [], sp_port = 80,
     sp_info = \<lparr>si_family = 2, si_addrlen = 16, si_addr = No_addr\<rparr>, sp_perm = 0, sp_dist_type = kDIST_RANDOM,
     sp_key_hash_type = 4, sp_hash_tag = [], sp_timeout = 0, sp_backlog = 512, sp_client_connections = 0,
     sp_server_connections = 1, sp_server_retry_timeout = 30000, sp_server_failure_limit = 2,
     sp_tcpkeepalive = False, sp_auto_eject_hosts = True, sp_preconnect = False, sp_nserver_continuum = 0,
     sp_continuum = []\<rparr>"

lemma live_idx_replicate:
  "sv_next_retry s \<le> now \<Longrightarrow> live_idx eject now i (replicate n s) = [i..<i + n]"
  by (induction n arbitrary: i) (simp_all add: upt_conv_Cons)

lemma spool_example_fields [simp]:
  "sp_continuum (spool_example ss) = []" "sp_nserver_continuum (spool_example ss) = 0"
  "sp_server (spool_example ss) = ss" "sp_dist_type (spool_example ss) = kDIST_RANDOM"
  "sp_auto_eject_hosts (spool_example ss)"
  by (simp_all add: spool_example_def)


section \<open>The hash tag\<close>



end
