(* ===== verification/NcEvent.thy ===== *)
theory NcEvent
  imports NcUtil
begin

text \<open>
  \<^verbatim>\<open>event/nc_event.h\<close> and \<^verbatim>\<open>event/nc_epoll.cpp\<close>: the connection (the members of
  \<open>NcConnBase\<close> together with those of its subclass \<open>NcConn\<close>), reading and writing on it, and
  the event base over epoll. The kernel is scripted: per descriptor the arrivals and the
  answers to writes, and the answers of \<^verbatim>\<open>epoll_ctl\<close>. A script that is used up stands for a
  socket with nothing to read (\<^verbatim>\<open>EAGAIN\<close>), a socket that takes every write, and an
  \<^verbatim>\<open>epoll_ctl\<close> that succeeds, so every finite run is described by some script.
\<close>

section \<open>Connections\<close>

datatype connkind = PROXY | CLIENT | SERVER

record conn =
  c_kind :: connkind
  c_sd :: int
  c_events :: u32
  c_err :: int
  c_family :: int
  c_addrlen :: nat
  c_recv_active :: bool
  c_recv_ready :: bool
  c_send_active :: bool
  c_send_ready :: bool
  c_recv_bytes :: u64
  c_send_bytes :: u64
  c_eof :: bool
  c_done :: bool
  c_owner :: "nat option"
  c_connecting :: bool
  c_connected :: bool
  c_authenticated :: bool
  c_timeout :: int
  c_imsg_q :: "nat list"
  c_omsg_q :: "nat list"
  c_rmsg :: "nat option"
  c_smsg :: "nat option"

text \<open>\<open>NcConnBase::reset\<close>, which is what a pool calls: the members of \<open>NcConn\<close> stay.\<close>

definition connbase_reset :: "conn \<Rightarrow> conn" where
  "connbase_reset c = c\<lparr>c_sd := - 1, c_events := 0, c_err := 0, c_family := 2, c_addrlen := 16,
     c_recv_active := False, c_recv_ready := False, c_send_active := False, c_send_ready := False,
     c_eof := False, c_done := False, c_send_bytes := 0, c_recv_bytes := 0\<rparr>"

text \<open>\<open>NcConn::reset\<close>, called by the constructor.\<close>

definition conn_reset :: "conn \<Rightarrow> conn" where
  "conn_reset c = (connbase_reset c)\<lparr>c_owner := None, c_connecting := False, c_connected := False,
     c_authenticated := False, c_rmsg := None, c_smsg := None, c_imsg_q := [], c_omsg_q := []\<rparr>"

text \<open>\<open>new RT()\<close> zeroes the object before the constructor runs.\<close>

definition conn_new :: "connkind \<Rightarrow> conn" where
  "conn_new k = conn_reset \<lparr>c_kind = k, c_sd = 0, c_events = 0, c_err = 0, c_family = 0, c_addrlen = 0,
     c_recv_active = False, c_recv_ready = False, c_send_active = False, c_send_ready = False,
     c_recv_bytes = 0, c_send_bytes = 0, c_eof = False, c_done = False, c_owner = None,
     c_connecting = False, c_connected = False, c_authenticated = False, c_timeout = 0,
     c_imsg_q = [], c_omsg_q = [], c_rmsg = None, c_smsg = None\<rparr>"

definition conn_setSd :: "int \<Rightarrow> conn \<Rightarrow> conn" where "conn_setSd sd c = c\<lparr>c_sd := sd\<rparr>"
definition conn_getSd :: "conn \<Rightarrow> int" where "conn_getSd c = c_sd c"
definition conn_setError :: "int \<Rightarrow> conn \<Rightarrow> conn" where "conn_setError e c = c\<lparr>c_err := e\<rparr>"
definition conn_getError :: "conn \<Rightarrow> int" where "conn_getError c = c_err c"

section \<open>The kernel\<close>

record os =
  os_read :: "int \<Rightarrow> recv_reply list"
  os_write :: "int \<Rightarrow> send_reply list"
  os_sent :: "int \<Rightarrow> bytes"
  os_ctl :: "int list"
  os_ep :: "int \<Rightarrow> u32 option"
  os_errno :: int

definition os_new :: os where
  "os_new = \<lparr>os_read = (\<lambda>_. []), os_write = (\<lambda>_. []), os_sent = (\<lambda>_. []), os_ctl = [],
     os_ep = (\<lambda>_. None), os_errno = 0\<rparr>"

section \<open>Reading and writing\<close>

text \<open>
  The loop of \<open>NcConnBase::recv\<close> over the arrivals: a read takes at most \<open>sz\<close> bytes of the
  next arrival, the rest stays; \<open>Data []\<close> is the end of the stream, which stays too.
\<close>

fun read_loop :: "nat \<Rightarrow> conn \<Rightarrow> int \<Rightarrow> recv_reply list \<Rightarrow> (int \<times> bytes) \<times> conn \<times> int \<times> recv_reply list" where
  "read_loop sz c e [] = ((NC_EAGAIN, []), c\<lparr>c_recv_ready := False\<rparr>, EAGAIN, [])"
| "read_loop sz c e (RErr er # rs) =
     (if er = EINTR then read_loop sz c er rs
      else if er = EAGAIN then ((NC_EAGAIN, []), c\<lparr>c_recv_ready := False\<rparr>, er, rs)
      else ((NC_ERROR, []), c\<lparr>c_recv_ready := False, c_err := er\<rparr>, er, rs))"
| "read_loop sz c e (Data bs # rs) =
     (if bs = [] then ((0, []), c\<lparr>c_recv_ready := False, c_eof := True\<rparr>, e, Data [] # rs)
      else let got = take sz bs; rest = drop sz bs in
        ((int (length got), got),
         c\<lparr>c_recv_ready := (if length got < sz then False else c_recv_ready c),
           c_recv_bytes := c_recv_bytes c + of_nat (length got)\<rparr>,
         e, if rest = [] then rs else Data rest # rs))"

text \<open>\<open>NcConnBase::recv(buf, size)\<close>. A read of size zero returns zero.\<close>

definition conn_recv :: "nat \<Rightarrow> conn \<Rightarrow> os \<Rightarrow> (int \<times> bytes) \<times> conn \<times> os" where
  "conn_recv sz c k =
     (if sz = 0 then ((0, []), c\<lparr>c_recv_ready := False, c_eof := True\<rparr>, k)
      else let (res, c', e, rs) = read_loop sz c (os_errno k) (os_read k (c_sd c))
           in (res, c', k\<lparr>os_read := (os_read k)(c_sd c := rs), os_errno := e\<rparr>))"

text \<open>
  The loop of \<open>send\<close> and \<open>sendv\<close>: \<open>lim\<close> is the argument \<open>size\<close> that the result is compared
  with, for \<open>send\<close> a number of bytes, for \<open>sendv\<close> a number of \<^verbatim>\<open>iovec\<close>s.
\<close>

fun write_loop :: "nat \<Rightarrow> bytes \<Rightarrow> conn \<Rightarrow> int \<Rightarrow> send_reply list \<Rightarrow> (int \<times> bytes) \<times> conn \<times> int \<times> send_reply list" where
  "write_loop lim data c e (SErr er # rs) =
     (if er = EINTR then write_loop lim data c er rs
      else if er = EAGAIN then ((NC_EAGAIN, []), c\<lparr>c_send_ready := False\<rparr>, er, rs)
      else ((NC_ERROR, []), c\<lparr>c_send_ready := False, c_err := er\<rparr>, er, rs))"
| "write_loop lim data c e rs =
     (let n = (case rs of Sent k # _ \<Rightarrow> min k (length data) | _ \<Rightarrow> length data); rs' = tl rs in
      if n = 0 then ((0, []), c\<lparr>c_send_ready := False\<rparr>, e, rs')
      else ((int n, take n data),
            c\<lparr>c_send_ready := (if n < lim then False else c_send_ready c),
              c_send_bytes := c_send_bytes c + of_nat n\<rparr>, e, rs'))"

definition conn_write :: "nat \<Rightarrow> bytes \<Rightarrow> conn \<Rightarrow> os \<Rightarrow> int \<times> conn \<times> os" where
  "conn_write lim data c k =
     (let ((n, out), c', e, rs) = write_loop lim data c (os_errno k) (os_write k (c_sd c))
      in (n, c', k\<lparr>os_write := (os_write k)(c_sd c := rs),
                   os_sent := (os_sent k)(c_sd c := os_sent k (c_sd c) @ out), os_errno := e\<rparr>))"

definition conn_send :: "bytes \<Rightarrow> conn \<Rightarrow> os \<Rightarrow> int \<times> conn \<times> os" where
  "conn_send data c k = conn_write (length data) data c k"

definition conn_sendv :: "bytes list \<Rightarrow> conn \<Rightarrow> os \<Rightarrow> int \<times> conn \<times> os" where
  "conn_sendv iov c k = conn_write (length iov) (concat iov) c k"

text \<open>What reading and writing leave alone.\<close>

definition same_queues :: "conn \<Rightarrow> conn \<Rightarrow> bool" where
  "same_queues c c' \<longleftrightarrow> c_kind c' = c_kind c \<and> c_sd c' = c_sd c \<and> c_owner c' = c_owner c
     \<and> c_imsg_q c' = c_imsg_q c \<and> c_omsg_q c' = c_omsg_q c \<and> c_rmsg c' = c_rmsg c
     \<and> c_smsg c' = c_smsg c \<and> c_send_active c' = c_send_active c \<and> c_recv_active c' = c_recv_active c
     \<and> c_connecting c' = c_connecting c \<and> c_connected c' = c_connected c \<and> c_done c' = c_done c
     \<and> c_events c' = c_events c \<and> c_family c' = c_family c \<and> c_addrlen c' = c_addrlen c"

lemma same_queues_refl [simp]: "same_queues c c"
  by (simp add: same_queues_def)

text \<open>The bytes that arrive on a descriptor before the end of the stream.\<close>

fun arriving :: "recv_reply list \<Rightarrow> bytes" where
  "arriving [] = []"
| "arriving (Data bs # rs) = (if bs = [] then [] else bs @ arriving rs)"
| "arriving (RErr _ # rs) = arriving rs"

lemma read_loop_spec:
  "read_loop sz c e rs = ((n, bs), c', e', rs') \<Longrightarrow> 0 < sz \<Longrightarrow>
   arriving rs = bs @ arriving rs' \<and> length bs \<le> sz \<and> same_queues c c'
   \<and> (n > 0 \<longrightarrow> n = int (length bs)) \<and> (n \<le> 0 \<longrightarrow> bs = []) \<and> - 2 \<le> n
   \<and> (c_eof c' \<longleftrightarrow> c_eof c \<or> n = 0) \<and> (n \<le> 0 \<longrightarrow> \<not> c_recv_ready c')"
proof (induction sz c e rs rule: read_loop.induct)
  case (3 sz c e bs' rs)
  show ?case
  proof (cases "bs' = []")
    case False
    with 3(2) have "take sz bs' \<noteq> []" by simp
    with False 3 show ?thesis by (auto simp: same_queues_def Let_def split: if_splits)
  qed (use 3 in \<open>auto simp: same_queues_def\<close>)
qed (auto simp: same_queues_def split: if_splits)

text \<open>\<open>recv\<close> returns the next bytes of the stream, in order, and none are lost.\<close>

lemma conn_recv_spec:
  assumes "conn_recv sz c k = ((n, bs), c', k')" "0 < sz"
  shows "arriving (os_read k (c_sd c)) = bs @ arriving (os_read k' (c_sd c))"
    and "length bs \<le> sz" "same_queues c c'" "n > 0 \<Longrightarrow> n = int (length bs)" "n \<le> 0 \<Longrightarrow> bs = []" "- 2 \<le> n"
    and "c_eof c' \<longleftrightarrow> c_eof c \<or> n = 0" "n \<le> 0 \<Longrightarrow> \<not> c_recv_ready c'"
    and "os_sent k' = os_sent k" "os_ep k' = os_ep k" "os_ctl k' = os_ctl k"
    and "sd \<noteq> c_sd c \<Longrightarrow> os_read k' sd = os_read k sd"
proof -
  obtain e rs where r: "read_loop sz c (os_errno k) (os_read k (c_sd c)) = ((n, bs), c', e, rs)"
    and k': "k' = k\<lparr>os_read := (os_read k)(c_sd c := rs), os_errno := e\<rparr>"
    using assms by (auto simp: conn_recv_def Let_def split: prod.splits)
  note * = read_loop_spec [OF r assms(2)]
  show "arriving (os_read k (c_sd c)) = bs @ arriving (os_read k' (c_sd c))" using * k' by simp
  show "length bs \<le> sz" "same_queues c c'" "n > 0 \<Longrightarrow> n = int (length bs)" "n \<le> 0 \<Longrightarrow> bs = []" "- 2 \<le> n"
    "c_eof c' \<longleftrightarrow> c_eof c \<or> n = 0" "n \<le> 0 \<Longrightarrow> \<not> c_recv_ready c'" using * by blast+
  show "os_sent k' = os_sent k" "os_ep k' = os_ep k" "os_ctl k' = os_ctl k"
    "sd \<noteq> c_sd c \<Longrightarrow> os_read k' sd = os_read k sd" using k' by simp_all
qed

lemma take_rest: "\<exists>rest. data = take k data @ rest"
  by (rule exI [of _ "drop k data"]) simp

lemma write_loop_spec:
  "write_loop lim data c e rs = ((n, out), c', e', rs') \<Longrightarrow>
   (\<exists>rest. data = out @ rest) \<and> same_queues c c' \<and> - 2 \<le> n
   \<and> (n > 0 \<longrightarrow> n = int (length out)) \<and> (n \<le> 0 \<longrightarrow> out = [] \<and> \<not> c_send_ready c')
   \<and> c_eof c' = c_eof c"
proof (induction lim data c e rs rule: write_loop.induct)
  case (1 lim data c e er rs)
  then show ?case by (auto simp: same_queues_def split: if_splits)
qed (auto simp: same_queues_def Let_def min_def take_rest split: if_splits)

text \<open>\<open>sendv\<close> writes a prefix of what it is given.\<close>

lemma conn_write_spec:
  assumes "conn_write lim data c k = (n, c', k')"
  shows "\<exists>out rest. data = out @ rest \<and> os_sent k' = (os_sent k)(c_sd c := os_sent k (c_sd c) @ out)
      \<and> (n > 0 \<longrightarrow> n = int (length out)) \<and> (n \<le> 0 \<longrightarrow> out = [] \<and> \<not> c_send_ready c')"
    and "same_queues c c'" "- 2 \<le> n" "c_eof c' = c_eof c"
    and "os_read k' = os_read k" "os_ep k' = os_ep k" "os_ctl k' = os_ctl k"
proof -
  obtain out e rs where r: "write_loop lim data c (os_errno k) (os_write k (c_sd c)) = ((n, out), c', e, rs)"
    and k': "k' = k\<lparr>os_write := (os_write k)(c_sd c := rs),
      os_sent := (os_sent k)(c_sd c := os_sent k (c_sd c) @ out), os_errno := e\<rparr>"
    using assms by (auto simp: conn_write_def Let_def split: prod.splits)
  note * = write_loop_spec [OF r]
  show "\<exists>out rest. data = out @ rest \<and> os_sent k' = (os_sent k)(c_sd c := os_sent k (c_sd c) @ out)
      \<and> (n > 0 \<longrightarrow> n = int (length out)) \<and> (n \<le> 0 \<longrightarrow> out = [] \<and> \<not> c_send_ready c')"
    using * k' by auto
  show "same_queues c c'" "- 2 \<le> n" "c_eof c' = c_eof c" using * by blast+
  show "os_read k' = os_read k" "os_ep k' = os_ep k" "os_ctl k' = os_ctl k" using k' by simp_all
qed

section \<open>The event base over epoll\<close>

definition EVENT_SIZE :: int where "EVENT_SIZE = 1024"
definition EVENT_READ :: u32 where "EVENT_READ = 0x000001"
definition EVENT_WRITE :: u32 where "EVENT_WRITE = 0x000010"
definition EVENT_ERR :: u32 where "EVENT_ERR = 0x000100"

text \<open>The bits of \<^verbatim>\<open>sys/epoll.h\<close>.\<close>

definition EPOLLIN :: u32 where "EPOLLIN = 0x1"
definition EPOLLOUT :: u32 where "EPOLLOUT = 0x4"
definition EPOLLERR :: u32 where "EPOLLERR = 0x8"
definition EPOLLHUP :: u32 where "EPOLLHUP = 0x10"
definition EPOLLET :: u32 where "EPOLLET = 0x80000000"

lemmas event_bits = EVENT_READ_def EVENT_WRITE_def EVENT_ERR_def EPOLLIN_def EPOLLOUT_def
  EPOLLERR_def EPOLLHUP_def EPOLLET_def

datatype ctl = ADD | MOD | DEL

text \<open>\<^verbatim>\<open>epoll_ctl\<close>: the next scripted answer, 0 for success, else the error number.\<close>

definition epoll_ctl :: "ctl \<Rightarrow> int \<Rightarrow> u32 \<Rightarrow> os \<Rightarrow> int \<times> os" where
  "epoll_ctl op sd events k =
     (let answer = (case os_ctl k of [] \<Rightarrow> 0 | e # _ \<Rightarrow> e); k = k\<lparr>os_ctl := tl (os_ctl k)\<rparr> in
      if answer = 0 then
        (0, k\<lparr>os_ep := (os_ep k)(sd := (if op = DEL then None else Some events))\<rparr>)
      else (- 1, k\<lparr>os_errno := answer\<rparr>))"

definition ev_addInput :: "conn \<Rightarrow> os \<Rightarrow> int \<times> conn \<times> os" where
  "ev_addInput c k =
     (if c_recv_active c then (0, c, k)
      else let (status, k) = epoll_ctl MOD (c_sd c) (EPOLLIN OR EPOLLET) k in
        if status < 0 then (status, c, k) else (status, c\<lparr>c_recv_active := True\<rparr>, k))"

definition ev_delInput :: "conn \<Rightarrow> os \<Rightarrow> int \<times> conn \<times> os" where
  "ev_delInput c k = (0, c, k)"

definition ev_addOutput :: "conn \<Rightarrow> os \<Rightarrow> int \<times> conn \<times> os" where
  "ev_addOutput c k =
     (if c_send_active c then (0, c, k)
      else let (status, k) = epoll_ctl MOD (c_sd c) (EPOLLIN OR EPOLLOUT OR EPOLLET) k in
        if status < 0 then (status, c, k) else (status, c\<lparr>c_send_active := True\<rparr>, k))"

definition ev_delOutput :: "conn \<Rightarrow> os \<Rightarrow> int \<times> conn \<times> os" where
  "ev_delOutput c k =
     (if \<not> c_send_active c then (0, c, k)
      else let (status, k) = epoll_ctl MOD (c_sd c) (EPOLLIN OR EPOLLET) k in
        if status < 0 then (status, c, k) else (status, c\<lparr>c_send_active := False\<rparr>, k))"

definition ev_addConn :: "u32 \<Rightarrow> conn \<Rightarrow> os \<Rightarrow> int \<times> conn \<times> os" where
  "ev_addConn events c k =
     (let es = 0;
          es = (if events AND EVENT_READ \<noteq> 0 then es OR EPOLLIN else es);
          es = (if events AND EVENT_WRITE \<noteq> 0 then es OR EPOLLOUT else es);
          (status, k) = epoll_ctl ADD (c_sd c) (es OR EPOLLET) k in
      if status < 0 then (status, c, k)
      else (status, c\<lparr>c_send_active := True, c_recv_active := True\<rparr>, k))"

definition ev_delConn :: "conn \<Rightarrow> os \<Rightarrow> int \<times> conn \<times> os" where
  "ev_delConn c k =
     (let (status, k) = epoll_ctl DEL (c_sd c) 0 k in
      if status < 0 then (status, c, k)
      else (status, c\<lparr>c_recv_active := False, c_send_active := False\<rparr>, k))"

text \<open>The events of epoll as the events of the program.\<close>

definition ev_events :: "u32 \<Rightarrow> u32" where
  "ev_events ev =
     (let events = 0;
          events = (if ev AND EPOLLERR \<noteq> 0 then events OR EVENT_ERR else events);
          events = (if ev AND (EPOLLIN OR EPOLLHUP) \<noteq> 0 then events OR EVENT_READ else events);
          events = (if ev AND EPOLLOUT \<noteq> 0 then events OR EVENT_WRITE else events)
      in events)"

text \<open>
  \<open>wait(timeout)\<close>: \<open>callback c events\<close> is the virtual call, on a state of any type. The
  answers of \<^verbatim>\<open>epoll_wait\<close> are scripted; with no answer left the call blocks (\<open>None\<close>).
\<close>

datatype wait_reply = Ready "(nat option \<times> u32) list" | Timeout | WErr errno

fun ev_dispatch :: "(nat \<Rightarrow> u32 \<Rightarrow> 'w \<Rightarrow> 'w option) \<Rightarrow> (nat option \<times> u32) list \<Rightarrow> 'w \<Rightarrow> 'w option" where
  "ev_dispatch callback [] w = Some w"
| "ev_dispatch callback ((c, ev) # evs) w = do {
     w \<leftarrow> (case c of None \<Rightarrow> Some w | Some c \<Rightarrow> callback c (ev_events ev) w);
     ev_dispatch callback evs w
   }"

fun ev_wait :: "(nat \<Rightarrow> u32 \<Rightarrow> 'w \<Rightarrow> 'w option) \<Rightarrow> int \<Rightarrow> wait_reply list \<Rightarrow> 'w \<Rightarrow> (int \<times> 'w \<times> wait_reply list) option" where
  "ev_wait callback timeout [] w = None"
| "ev_wait callback timeout (Ready evs # rs) w =
     (if evs = [] then Some (if timeout = - 1 then - 1 else 0, w, rs)
      else do { w \<leftarrow> ev_dispatch callback evs w; Some (int (length evs), w, rs) })"
| "ev_wait callback timeout (Timeout # rs) w = Some (if timeout = - 1 then - 1 else 0, w, rs)"
| "ev_wait callback timeout (WErr e # rs) w =
     (if e = EINTR then ev_wait callback timeout rs w else Some (- 1, w, rs))"

section \<open>Constructing and destroying the base\<close>

record evbase =
  ev_ep :: int
  ev_event :: bool
  ev_nevent :: int

datatype base = Exit | Base evbase

text \<open>
  The answers of \<^verbatim>\<open>epoll_create\<close>, \<^verbatim>\<open>calloc\<close>, \<^verbatim>\<open>malloc\<close> and \<^verbatim>\<open>close\<close> are parameters. A failed
  allocation stops the program only if closing the descriptor fails too; otherwise the
  constructor goes on with the null pointer.
\<close>

definition evbase_new :: "int \<Rightarrow> int \<Rightarrow> bool \<Rightarrow> bool \<Rightarrow> int \<Rightarrow> base option" where
  "evbase_new nevent ep calloc_ok malloc_ok close_status =
     (if ep < 0 then Some Exit
      else if \<not> calloc_ok \<and> close_status < 0 then Some Exit
      else if \<not> malloc_ok then (if close_status < 0 then Some Exit else None)
      else Some (Base \<lparr>ev_ep = ep, ev_event = calloc_ok, ev_nevent = nevent\<rparr>))"

definition evbase_delete :: "evbase option \<Rightarrow> int list" where
  "evbase_delete b = (case b of None \<Rightarrow> [] | Some b \<Rightarrow> [ev_ep b])"

section \<open>Is the interest in writing what the connection says?\<close>

definition out_armed :: "int \<Rightarrow> os \<Rightarrow> bool" where
  "out_armed sd k \<longleftrightarrow> (case os_ep k sd of None \<Rightarrow> False | Some ev \<Rightarrow> ev AND EPOLLOUT \<noteq> 0)"

definition in_armed :: "int \<Rightarrow> os \<Rightarrow> bool" where
  "in_armed sd k \<longleftrightarrow> (case os_ep k sd of None \<Rightarrow> False | Some ev \<Rightarrow> ev AND EPOLLIN \<noteq> 0)"

definition out_synced :: "conn \<Rightarrow> os \<Rightarrow> bool" where
  "out_synced c k \<longleftrightarrow> c_send_active c = out_armed (c_sd c) k"

lemmas ev_defs = ev_addInput_def ev_delInput_def ev_addOutput_def ev_delOutput_def ev_addConn_def
  ev_delConn_def epoll_ctl_def

lemma epoll_masks:
  "(EPOLLIN OR EPOLLOUT OR EPOLLET) AND EPOLLOUT \<noteq> 0" "(EPOLLIN OR EPOLLET) AND EPOLLOUT = 0"
  "(EPOLLIN OR EPOLLET) AND EPOLLIN \<noteq> 0" "(EPOLLIN OR EPOLLOUT OR EPOLLET) AND EPOLLIN \<noteq> 0"
  "(EPOLLOUT OR EPOLLET) AND EPOLLOUT \<noteq> 0" "EPOLLET AND EPOLLOUT = 0"
  "EVENT_READ AND EVENT_READ \<noteq> 0" "EVENT_READ AND EVENT_WRITE = 0"
  "(EVENT_READ OR EVENT_WRITE) AND EVENT_READ \<noteq> 0" "(EVENT_READ OR EVENT_WRITE) AND EVENT_WRITE \<noteq> 0"
  by (simp_all add: event_bits)

lemma ev_addOutput_synced:
  "out_synced c k \<Longrightarrow> ev_addOutput c k = (status, c', k') \<Longrightarrow>
   out_synced c' k' \<and> (status = 0 \<longrightarrow> out_armed (c_sd c) k') \<and> (status = 0 \<or> status = - 1 \<and> c' = c)"
  by (auto simp: ev_defs Let_def out_synced_def out_armed_def epoll_masks split: if_splits list.splits)

lemma ev_delOutput_synced:
  "out_synced c k \<Longrightarrow> ev_delOutput c k = (status, c', k') \<Longrightarrow>
   out_synced c' k' \<and> (status = 0 \<longrightarrow> \<not> out_armed (c_sd c) k')"
  by (auto simp: ev_defs Let_def out_synced_def out_armed_def epoll_masks split: if_splits list.splits)

lemma ev_addConn_both_synced:
  "ev_addConn (EVENT_READ OR EVENT_WRITE) c k = (0, c', k') \<Longrightarrow>
   out_synced c' k' \<and> out_armed (c_sd c) k' \<and> in_armed (c_sd c) k'"
  by (auto simp: ev_defs Let_def out_synced_def out_armed_def in_armed_def event_bits split: if_splits list.splits)



text \<open>C22. A client connection that is accepted is registered for input only, but its flag says
  that output is watched too: from then on asking for output does nothing, and the event base
  never reports that the client can be written.\<close>
theorem accepted_never_armed:
  assumes "ev_addConn EVENT_READ c k = (0, c', k')"
  shows "ev_addOutput c' k' = (0, c', k') \<and> in_armed (c_sd c) k' \<and> \<not> out_armed (c_sd c) k' \<and> \<not> out_synced c' k'"
proof -
  have "(EPOLLIN OR EPOLLET) AND EPOLLIN \<noteq> 0" "(EPOLLIN OR EPOLLET) AND EPOLLOUT = 0" "EVENT_READ \<noteq> 0"
    "EVENT_READ AND EVENT_WRITE = 0" by (simp_all add: epoll_masks) (simp_all add: event_bits)
  with assms show ?thesis
    by (auto simp: ev_addConn_def ev_addOutput_def epoll_ctl_def out_synced_def out_armed_def in_armed_def Let_def
        split: if_splits)
qed

theorem accepted_never_armed_witness:
  "\<exists>c' k'. ev_addConn EVENT_READ (conn_new CLIENT) os_new = (0, c', k') \<and> ev_addOutput c' k' = (0, c', k')
    \<and> \<not> out_armed (c_sd (conn_new CLIENT)) k'"
proof -
  obtain r c' k' where e: "ev_addConn EVENT_READ (conn_new CLIENT) os_new = (r, c', k')" by (metis surj_pair)
  then have "r = 0" by (auto simp: ev_addConn_def epoll_ctl_def os_new_def Let_def)
  with e accepted_never_armed [of "conn_new CLIENT" os_new c' k'] show ?thesis by auto
qed

end
