(* ===== verification/NcQueue.thy ===== *)
theory NcQueue
  imports NcPrelude
begin

text \<open>
  The class \<open>NcQueue\<close> of \<^verbatim>\<open>nc_queue.h\<close>, a wrapper of \<^verbatim>\<open>std::list\<close>, and the pool
  \<open>NcObjectPool\<close> of \<^verbatim>\<open>nc_core.h\<close>, whose free list is a \<^verbatim>\<open>std::queue\<close>. Both promise a first
  in first out queue: the locale \<open>fifo\<close> states this once, and both are interpretations.

  All queues of the program hold pointers. \<open>front()\<close> and \<open>back()\<close> of an empty
  \<^verbatim>\<open>std::list\<close> are undefined; the callers compare the result with \<^verbatim>\<open>NULL\<close>, which is what the
  list header of libstdc++ (whose size field, zero, stands where the element would be) gives:
  the model returns the null pointer \<open>None\<close>.
\<close>

section \<open>NcQueue\<close>

type_synonym 'a ncqueue = "'a list"

definition q_empty :: "'a ncqueue \<Rightarrow> bool" where "q_empty q \<longleftrightarrow> q = []"

definition q_front :: "'a ncqueue \<Rightarrow> 'a option" where
  "q_front q = (case q of [] \<Rightarrow> None | x # _ \<Rightarrow> Some x)"

definition q_back :: "'a ncqueue \<Rightarrow> 'a option" where
  "q_back q = (if q = [] then None else Some (last q))"

definition q_push :: "'a \<Rightarrow> 'a ncqueue \<Rightarrow> 'a ncqueue" where "q_push v q = q @ [v]"

text \<open>\<open>pop\<close> of an empty list is undefined (\<open>None\<close>).\<close>

definition q_pop :: "'a ncqueue \<Rightarrow> 'a ncqueue option" where
  "q_pop q = (if q = [] then None else Some (tl q))"

definition q_pop_back :: "'a ncqueue \<Rightarrow> 'a ncqueue option" where
  "q_pop_back q = (if q = [] then None else Some (butlast q))"

text \<open>\<^verbatim>\<open>std::list::remove\<close> removes every occurrence.\<close>

definition q_remove :: "'a \<Rightarrow> 'a ncqueue \<Rightarrow> 'a ncqueue" where "q_remove v q = removeAll v q"

definition q_size :: "'a ncqueue \<Rightarrow> nat" where "q_size q = length q"

text \<open>Iterators are positions.\<close>

definition q_find :: "'a \<Rightarrow> 'a ncqueue \<Rightarrow> nat" where
  "q_find v q = length (takeWhile (\<lambda>x. x \<noteq> v) q)"

definition q_begin :: "'a ncqueue \<Rightarrow> nat" where "q_begin q = 0"

definition q_end :: "'a ncqueue \<Rightarrow> nat" where "q_end q = length q"

definition q_clear :: "'a ncqueue \<Rightarrow> 'a ncqueue" where "q_clear q = []"

lemmas q_defs [nc_defs] = q_empty_def q_front_def q_back_def q_push_def q_pop_def q_pop_back_def
  q_remove_def q_size_def q_find_def q_begin_def q_end_def q_clear_def

lemma q_find_front: "q_front q = Some v \<Longrightarrow> q_find v q = q_begin q"
  by (cases q) (simp_all add: q_defs)

lemma q_find_end: "q_find v q = q_end q \<longleftrightarrow> v \<notin> set q"
  by (simp add: q_defs) (metis (mono_tags) length_takeWhile_le takeWhile_eq_all_conv
      takeWhile_eq_take take_all_iff)

text \<open>Removing keeps the relative order of what remains.\<close>

definition before :: "'a list \<Rightarrow> 'a \<Rightarrow> 'a \<Rightarrow> bool" where
  "before q a b \<longleftrightarrow> (\<exists>xs ys zs. q = xs @ a # ys @ b # zs)"

lemma before_push: "before q a b \<Longrightarrow> before (q_push v q) a b"
  by (fastforce simp: before_def q_push_def)

lemma before_remove: "before q a b \<Longrightarrow> v \<noteq> a \<Longrightarrow> v \<noteq> b \<Longrightarrow> before (q_remove v q) a b"
proof -
  assume v: "v \<noteq> a" "v \<noteq> b"
  assume "before q a b"
  then obtain xs ys zs where "q = xs @ a # ys @ b # zs" by (auto simp: before_def)
  with v have "q_remove v q = removeAll v xs @ a # removeAll v ys @ b # removeAll v zs"
    by (simp add: q_remove_def)
  then show ?thesis unfolding before_def by blast
qed

lemma before_pop: "before q a b \<Longrightarrow> q_pop q = Some q' \<Longrightarrow> q_front q \<noteq> Some a \<Longrightarrow> before q' a b"
proof -
  assume "before q a b" and q: "q_pop q = Some q'" "q_front q \<noteq> Some a"
  then obtain xs ys zs where "q = xs @ a # ys @ b # zs" by (auto simp: before_def)
  with q show "before q' a b"
    by (cases xs) (auto simp: before_def q_defs)
qed

section \<open>What a queue promises\<close>

locale fifo =
  fixes push :: "'a \<Rightarrow> 'q \<Rightarrow> 'q"
    and pop :: "'q \<Rightarrow> ('a \<times> 'q) option"
    and items :: "'q \<Rightarrow> 'a list"
  assumes items_push: "items (push v q) = items q @ [v]"
    and items_pop_Nil: "items q = [] \<Longrightarrow> pop q = None"
    and items_pop: "items q = v # vs \<Longrightarrow> \<exists>q'. pop q = Some (v, q') \<and> items q' = vs"
begin

fun pops :: "nat \<Rightarrow> 'q \<Rightarrow> ('a list \<times> 'q) option" where
  "pops 0 q = Some ([], q)"
| "pops (Suc n) q = do {
     (v, q) \<leftarrow> pop q;
     (vs, q) \<leftarrow> pops n q;
     Some (v # vs, q)
   }"

lemma items_pushes: "items (fold push vs q) = items q @ vs"
  by (induction vs arbitrary: q) (simp_all add: items_push)

lemma pops_take: "n \<le> length (items q) \<Longrightarrow>
  \<exists>q'. pops n q = Some (take n (items q), q') \<and> items q' = drop n (items q)"
proof (induction n arbitrary: q)
  case (Suc n)
  then obtain v vs where i: "items q = v # vs" by (cases "items q") auto
  from items_pop [OF i] obtain q1 where q1: "pop q = Some (v, q1)" "items q1 = vs" by blast
  with Suc i show ?case by fastforce
qed simp

text \<open>What goes into an empty queue comes out in the same order, and nothing else does.\<close>

lemma first_in_first_out:
  assumes "items q = []"
  shows "\<exists>q'. pops (length vs) (fold push vs q) = Some (vs, q') \<and> pop q' = None"
  using pops_take [of "length vs" "fold push vs q"] items_pop_Nil assms
  by (auto simp: items_pushes)

end

text \<open>\<open>NcQueue\<close> keeps the promise: the callers read \<open>front()\<close> and then call \<open>pop()\<close>.\<close>

definition q_take :: "'a ncqueue \<Rightarrow> ('a \<times> 'a ncqueue) option" where
  "q_take q = do { v \<leftarrow> q_front q; q' \<leftarrow> q_pop q; Some (v, q') }"

interpretation ncq: fifo q_push q_take "\<lambda>q. q"
  by unfold_locales (simp_all add: q_defs q_take_def)

section \<open>NcObjectPool\<close>

text \<open>
  The free list holds addresses. \<open>alloc\<close> returns an address and whether it is new, \<open>fresh\<close>
  being the address that \<^verbatim>\<open>new\<close> would return.
\<close>

record 'a pool =
  p_queue :: "'a list"
  p_free :: u32
  p_current :: "'a option"

definition pool_new :: "'a pool" where
  "pool_new = \<lparr>p_queue = [], p_free = 0, p_current = None\<rparr>"

definition pool_alloc :: "'a \<Rightarrow> 'a pool \<Rightarrow> ('a \<times> bool) \<times> 'a pool" where
  "pool_alloc fresh p =
     (case p_queue p of
        [] \<Rightarrow> ((fresh, True), p\<lparr>p_current := Some fresh\<rparr>)
      | x # q \<Rightarrow> ((x, False), p\<lparr>p_queue := q, p_current := Some x\<rparr>))"

text \<open>\<open>free\<close>: the reset of the object is the caller's \<open>reset\<close>, done before the push.\<close>

definition pool_free :: "'a option \<Rightarrow> 'a pool \<Rightarrow> 'a pool" where
  "pool_free x p =
     (case x of
        None \<Rightarrow> p
      | Some x \<Rightarrow> p\<lparr>p_queue := p_queue p @ [x], p_free := p_free p + 1\<rparr>)"

text \<open>The destructor deletes the objects of the free list, in order.\<close>

definition pool_deleted :: "'a pool \<Rightarrow> 'a list" where
  "pool_deleted p = p_queue p"

definition pool_take :: "'a pool \<Rightarrow> ('a \<times> 'a pool) option" where
  "pool_take p = (if p_queue p = [] then None
     else case pool_alloc undefined p of ((x, _), p') \<Rightarrow> Some (x, p'))"

interpretation ncpool: fifo "\<lambda>x. pool_free (Some x)" pool_take p_queue
  by unfold_locales (auto simp: pool_free_def pool_take_def pool_alloc_def)

text \<open>
  Ownership: the addresses in use are not in the free list, and no address is there twice.
\<close>

definition pool_ok :: "'a set \<Rightarrow> 'a pool \<Rightarrow> bool" where
  "pool_ok used p \<longleftrightarrow> distinct (p_queue p) \<and> used \<inter> set (p_queue p) = {}"

lemma pool_new_ok: "pool_ok {} pool_new"
  by (simp add: pool_ok_def pool_new_def)

lemma pool_alloc_ok:
  assumes "pool_ok used p" "fresh \<notin> used" "fresh \<notin> set (p_queue p)"
    and "pool_alloc fresh p = ((x, new), p')"
  shows "x \<notin> used" "pool_ok (insert x used) p'" "new \<longleftrightarrow> p_queue p = []"
  using assms by (auto simp: pool_ok_def pool_alloc_def split: list.splits)

lemma pool_free_ok:
  assumes "pool_ok used p" "x \<in> used"
  shows "pool_ok (used - {x}) (pool_free (Some x) p)"
  using assms by (auto simp: pool_ok_def pool_free_def)

text \<open>An address that is freed twice is handed out twice.\<close>

lemma pool_double_free:
  "p_queue p = [] \<Longrightarrow>
   (let p1 = pool_free (Some x) (pool_free (Some x) p);
        ((a, _), p2) = pool_alloc f p1; ((b, _), p3) = pool_alloc f p2
    in a = b)"
  by (simp add: pool_free_def pool_alloc_def)

text \<open>The states of a pool that is used by the rules: what is freed was handed out, and fresh
  memory is memory that is not in use.\<close>

inductive pool_reach :: "'a set \<Rightarrow> 'a pool \<Rightarrow> bool" where
  reach_new: "pool_reach {} pool_new"
| reach_alloc: "pool_reach used p \<Longrightarrow> fresh \<notin> used \<Longrightarrow> fresh \<notin> set (p_queue p) \<Longrightarrow>
    pool_alloc fresh p = ((x, new), p') \<Longrightarrow> pool_reach (insert x used) p'"
| reach_free: "pool_reach used p \<Longrightarrow> x \<in> used \<Longrightarrow> pool_reach (used - {x}) (pool_free (Some x) p)"

lemma pool_reach_ok: "pool_reach used p \<Longrightarrow> pool_ok used p"
  by (induction rule: pool_reach.induct) (auto intro: pool_new_ok pool_alloc_ok pool_free_ok)

text \<open>C27. In every reachable state of an object pool an allocation hands out an object that
  nobody uses, from the pool as long as there is one in it, and the pool holds no object twice.\<close>
theorem pool_never_shares:
  assumes "pool_reach used p" "fresh \<notin> used" "fresh \<notin> set (p_queue p)"
    and "pool_alloc fresh p = ((x, new), p')"
  shows "x \<notin> used \<and> (new \<longleftrightarrow> p_queue p = []) \<and> distinct (p_queue p)"
  using pool_alloc_ok [OF pool_reach_ok [OF assms(1)] assms(2-4)] pool_reach_ok [OF assms(1)] by (simp add: pool_ok_def)

lemma pool_new_alloc: "pool_alloc fresh pool_new = ((fresh, True), pool_new\<lparr>p_current := Some fresh\<rparr>)"
  by (simp add: pool_alloc_def pool_new_def)

theorem pool_never_shares_witness:
  "fst (fst (pool_alloc (1 :: nat) (pool_new\<lparr>p_current := Some 0\<rparr>))) \<notin> {0}"
proof -
  have r: "pool_reach {0 :: nat} (pool_new\<lparr>p_current := Some 0\<rparr>)"
    using reach_alloc [OF reach_new _ _ pool_new_alloc [of 0]] by (simp add: pool_new_def)
  show ?thesis
    using pool_never_shares [OF r, of 1 1 True "pool_new\<lparr>p_current := Some 1\<rparr>"]
    by (simp add: pool_alloc_def pool_new_def)
qed

text \<open>What is put into an empty queue comes out in the same order, and then the queue is
  empty; the same holds for the objects of an empty pool.\<close>
lemma queues_keep_order:
  "(\<exists>q. ncq.pops (length vs) (fold q_push vs []) = Some (vs, q) \<and> q_take q = None)
   \<and> (p_queue p = [] \<longrightarrow>
     (\<exists>p'. ncpool.pops (length xs) (fold (\<lambda>x. pool_free (Some x)) xs p) = Some (xs, p') \<and> pool_take p' = None))"
  using ncq.first_in_first_out ncpool.first_in_first_out by blast

lemma queues_keep_order_witness:
  "\<exists>p. ncpool.pops (length [7, 8 :: nat]) (fold (\<lambda>x. pool_free (Some x)) [7, 8] pool_new) = Some ([7 :: nat, 8], p)"
proof -
  have "p_queue pool_new = ([] :: nat list)" by (simp add: pool_new_def)
  with queues_keep_order [of _ pool_new "[7, 8 :: nat]"] show ?thesis by blast
qed

end
