(* ===== verification/NcMbuf.thy ===== *)
theory NcMbuf
  imports NcPrelude
begin

text \<open>
  The class \<open>NcMbuf\<close> of \<^verbatim>\<open>nc_mbuf.h\<close>. The markers are offsets into the allocated chunk; the
  chunk is as long as \<open>m_chunk_size_\<close>, its last \<open>MBUF_HSIZE\<close> bytes lie behind \<open>m_end_\<close>.
  \<open>None\<close> is an access outside of the chunk.
\<close>

record mbuf =
  b_data :: bytes
  b_pos :: nat
  b_last :: nat
  b_end :: nat
  b_chunk :: u32

text \<open>\<open>sizeof(NcMbuf)\<close> on x86-64: two words of 32 bits with padding and five pointers.\<close>

definition MBUF_HSIZE :: nat where "MBUF_HSIZE = 56"
definition MBUF_MIN_SIZE :: nat where "MBUF_MIN_SIZE = 512"
definition MBUF_MAX_SIZE :: nat where "MBUF_MAX_SIZE = 16777216"
definition MBUF_SIZE :: nat where "MBUF_SIZE = 16384"

section \<open>Operations\<close>

text \<open>The constructor: \<open>junk\<close> is what \<open>nc_alloc\<close> returns. A chunk smaller than the header
  puts \<open>m_end_\<close> in front of the chunk.\<close>

definition mbuf_new :: "bytes \<Rightarrow> u32 \<Rightarrow> mbuf option" where
  "mbuf_new junk chunk =
     (if unat chunk < MBUF_HSIZE \<or> length junk \<noteq> unat chunk then None
      else Some \<lparr>b_data = junk, b_pos = 0, b_last = 0, b_end = unat chunk - MBUF_HSIZE, b_chunk = chunk\<rparr>)"

definition mbuf_rewind :: "mbuf \<Rightarrow> mbuf" where
  "mbuf_rewind b = b\<lparr>b_pos := 0, b_last := b_end b\<rparr>"

definition mbuf_reset :: "mbuf \<Rightarrow> mbuf" where
  "mbuf_reset b = mbuf_rewind b"

definition mbuf_empty :: "mbuf \<Rightarrow> bool" where
  "mbuf_empty b \<longleftrightarrow> b_pos b = b_last b"

definition mbuf_full :: "mbuf \<Rightarrow> bool" where
  "mbuf_full b \<longleftrightarrow> b_last b = b_end b"

definition mbuf_setPos :: "nat \<Rightarrow> mbuf \<Rightarrow> mbuf" where
  "mbuf_setPos n b = b\<lparr>b_pos := b_pos b + n\<rparr>"

definition mbuf_setLast :: "nat \<Rightarrow> mbuf \<Rightarrow> mbuf" where
  "mbuf_setLast n b = b\<lparr>b_last := b_last b + n\<rparr>"

definition mbuf_setComplete :: "mbuf \<Rightarrow> mbuf" where
  "mbuf_setComplete b = b\<lparr>b_pos := b_last b\<rparr>"

text \<open>Pointer differences, cut to 32 bits.\<close>

definition mbuf_length :: "mbuf \<Rightarrow> u32" where
  "mbuf_length b = of_int (int (b_last b) - int (b_pos b))"

definition mbuf_size :: "mbuf \<Rightarrow> u32" where
  "mbuf_size b = of_int (int (b_end b) - int (b_last b))"

definition mbuf_dataSize :: "mbuf \<Rightarrow> nat" where
  "mbuf_dataSize b = unat (b_chunk b) - MBUF_HSIZE"

text \<open>\<open>nc_memcpy(m_last_, pos, n)\<close>.\<close>

definition mbuf_write :: "nat \<Rightarrow> bytes \<Rightarrow> mbuf \<Rightarrow> mbuf option" where
  "mbuf_write at bs b =
     (if at + length bs \<le> length (b_data b)
      then Some (b\<lparr>b_data := take at (b_data b) @ bs @ drop (at + length bs) (b_data b)\<rparr>)
      else None)"

definition mbuf_copy :: "bytes \<Rightarrow> mbuf \<Rightarrow> mbuf option" where
  "mbuf_copy bs b =
     (if bs = [] then Some b
      else map_option (\<lambda>b'. b'\<lparr>b_last := b_last b + length bs\<rparr>) (mbuf_write (b_last b) bs b))"

text \<open>
  \<open>vsnprintf\<close>: \<open>text\<close> is the formatted text, \<open>None\<close> a format error. At most \<open>size() - 1\<close>
  bytes and a terminator are written, but \<open>m_last_\<close> moves by the length of the full text.
\<close>

definition mbuf_vsnprintf :: "bytes option \<Rightarrow> mbuf \<Rightarrow> (int \<times> mbuf) option" where
  "mbuf_vsnprintf txt b =
     (case txt of
        None \<Rightarrow> Some (- 1, b)
      | Some s \<Rightarrow> do {
          let n = unat (mbuf_size b);
          b' \<leftarrow> (if n = 0 then Some b else mbuf_write (b_last b) (take (n - 1) s @ [0]) b);
          Some (int (length s), if s \<noteq> [] then b'\<lparr>b_last := b_last b + length s\<rparr> else b')
        })"

text \<open>The bytes between the markers, and the bytes in a range.\<close>

definition mbuf_range :: "nat \<Rightarrow> nat \<Rightarrow> mbuf \<Rightarrow> bytes option" where
  "mbuf_range from till b =
     (if from \<le> till \<and> till \<le> length (b_data b) then Some (take (till - from) (drop from (b_data b))) else None)"

definition mbuf_bytes :: "mbuf \<Rightarrow> bytes" where
  "mbuf_bytes b = take (b_last b - b_pos b) (drop (b_pos b) (b_data b))"

text \<open>\<open>split(pos)\<close>: the bytes from \<open>pos\<close> on go to a new buffer.\<close>

definition mbuf_split :: "bytes \<Rightarrow> u32 \<Rightarrow> nat \<Rightarrow> mbuf \<Rightarrow> (mbuf \<times> mbuf) option" where
  "mbuf_split junk chunk pos b = do {
     nbuf \<leftarrow> mbuf_new junk chunk;
     bs \<leftarrow> mbuf_range pos (b_last b) b;
     nbuf \<leftarrow> mbuf_copy bs nbuf;
     Some (b\<lparr>b_last := pos\<rparr>, nbuf)
   }"

lemmas mbuf_defs [nc_defs] = mbuf_rewind_def mbuf_reset_def mbuf_empty_def mbuf_full_def
  mbuf_setPos_def mbuf_setLast_def mbuf_setComplete_def mbuf_dataSize_def mbuf_copy_def
  mbuf_write_def mbuf_range_def mbuf_bytes_def

section \<open>The invariant\<close>

definition mbuf_ok :: "mbuf \<Rightarrow> bool" where
  "mbuf_ok b \<longleftrightarrow> b_pos b \<le> b_last b \<and> b_last b \<le> b_end b \<and> b_end b + MBUF_HSIZE = length (b_data b)
     \<and> unat (b_chunk b) = length (b_data b)"

lemma mbuf_okD:
  assumes "mbuf_ok b"
  shows "b_pos b \<le> b_last b" "b_last b \<le> b_end b" "b_pos b \<le> b_end b"
    "b_end b \<le> length (b_data b)" "b_last b \<le> length (b_data b)"
    "b_end b + MBUF_HSIZE = length (b_data b)" "unat (b_chunk b) = length (b_data b)"
  using assms unfolding mbuf_ok_def by linarith+

lemma mbuf_ok_small: "mbuf_ok b \<Longrightarrow> b_end b < 2 ^ 32"
  using unsigned_less [of "b_chunk b", where 'a = nat] by (simp add: mbuf_ok_def MBUF_HSIZE_def)

lemma unat_of_int_diff: "n \<le> m \<Longrightarrow> m < 2 ^ 32 \<Longrightarrow> unat (of_int (int m - int n) :: u32) = m - n"
proof -
  assume "n \<le> m" "m < 2 ^ 32"
  then have "of_int (int m - int n) = (of_nat (m - n) :: u32)" by (simp add: of_nat_diff)
  with \<open>m < 2 ^ 32\<close> show ?thesis by (simp add: unat_of_nat take_bit_nat_eq_self)
qed

lemma mbuf_length_size:
  assumes "mbuf_ok b"
  shows "unat (mbuf_length b) = b_last b - b_pos b" "unat (mbuf_size b) = b_end b - b_last b"
  unfolding mbuf_length_def mbuf_size_def
  by (rule unat_of_int_diff; use mbuf_ok_small [OF assms] mbuf_okD [OF assms] in linarith)+

lemma mbuf_bytes_length: "mbuf_ok b \<Longrightarrow> length (mbuf_bytes b) = unat (mbuf_length b)"
  using mbuf_okD [of b] by (simp add: mbuf_length_size mbuf_bytes_def)

lemma mbuf_new_ok:
  "mbuf_new junk chunk = Some b \<Longrightarrow> mbuf_ok b \<and> mbuf_bytes b = [] \<and> mbuf_empty b"
  by (auto simp: mbuf_new_def mbuf_ok_def mbuf_bytes_def mbuf_empty_def MBUF_HSIZE_def split: if_splits)

lemma mbuf_reset_ok: "mbuf_ok b \<Longrightarrow> mbuf_ok (mbuf_reset b)"
  by (simp add: mbuf_ok_def mbuf_reset_def mbuf_rewind_def)

lemma mbuf_setComplete_ok: "mbuf_ok b \<Longrightarrow> mbuf_ok (mbuf_setComplete b) \<and> mbuf_bytes (mbuf_setComplete b) = []"
  by (simp add: mbuf_ok_def mbuf_setComplete_def mbuf_bytes_def)

lemma mbuf_setPos_ok:
  "mbuf_ok b \<Longrightarrow> n \<le> unat (mbuf_length b) \<Longrightarrow>
   mbuf_ok (mbuf_setPos n b) \<and> mbuf_bytes (mbuf_setPos n b) = drop n (mbuf_bytes b)"
  by (auto simp: mbuf_length_size)
    (auto simp: mbuf_ok_def mbuf_setPos_def mbuf_bytes_def drop_take add_ac)

text \<open>A copy that fits appends the bytes.\<close>

lemma mbuf_copy_ok:
  assumes "mbuf_ok b" "length bs \<le> unat (mbuf_size b)"
  shows "\<exists>b'. mbuf_copy bs b = Some b' \<and> mbuf_ok b' \<and> mbuf_bytes b' = mbuf_bytes b @ bs"
proof (cases "bs = []")
  case False
  have len: "b_last b + length bs \<le> b_end b" "b_pos b \<le> b_last b" "b_last b \<le> length (b_data b)"
    using assms(2) mbuf_length_size [OF assms(1)] mbuf_okD [OF assms(1)] by linarith+
  let ?d = "take (b_last b) (b_data b) @ bs @ drop (b_last b + length bs) (b_data b)"
  have "take (b_last b + length bs - b_pos b) (drop (b_pos b) ?d)
      = take (b_last b - b_pos b) (drop (b_pos b) (b_data b)) @ bs"
    using len by (simp add: drop_take)
  with False assms len show ?thesis
    by (auto simp: mbuf_copy_def mbuf_write_def mbuf_ok_def mbuf_bytes_def MBUF_HSIZE_def)
qed (use assms in \<open>simp add: mbuf_copy_def\<close>)

text \<open>A split cuts the contents in two.\<close>

lemma mbuf_split_ok:
  assumes b: "mbuf_ok b" "b_pos b \<le> pos" "pos \<le> b_last b"
    and new: "length junk = unat chunk" "b_last b - pos + MBUF_HSIZE \<le> unat chunk"
  shows "\<exists>b' nbuf. mbuf_split junk chunk pos b = Some (b', nbuf) \<and> mbuf_ok b' \<and> mbuf_ok nbuf
    \<and> mbuf_bytes b' @ mbuf_bytes nbuf = mbuf_bytes b \<and> length (mbuf_bytes b') = pos - b_pos b"
proof -
  obtain nbuf0 where n0: "mbuf_new junk chunk = Some nbuf0"
    using new by (auto simp: mbuf_new_def MBUF_HSIZE_def)
  let ?bs = "take (b_last b - pos) (drop pos (b_data b))"
  have r: "mbuf_range pos (b_last b) b = Some ?bs" "length ?bs = b_last b - pos"
    using b mbuf_okD [OF b(1)] by (simp_all add: mbuf_range_def)
  from mbuf_new_ok [OF n0] have ok0: "mbuf_ok nbuf0" "mbuf_bytes nbuf0 = []" by simp_all
  have "unat (mbuf_size nbuf0) = unat chunk - MBUF_HSIZE"
    using n0 mbuf_length_size [OF ok0(1)] by (auto simp: mbuf_new_def split: if_splits)
  with new r(2) have "length ?bs \<le> unat (mbuf_size nbuf0)" by simp
  from mbuf_copy_ok [OF ok0(1) this] obtain nbuf where
    n: "mbuf_copy ?bs nbuf0 = Some nbuf" "mbuf_ok nbuf" "mbuf_bytes nbuf = ?bs" using ok0(2) by auto
  have "mbuf_bytes b = take ((pos - b_pos b) + (b_last b - pos)) (drop (b_pos b) (b_data b))"
    using b by (simp add: mbuf_bytes_def)
  also have "\<dots> = take (pos - b_pos b) (drop (b_pos b) (b_data b)) @ ?bs"
    using b by (subst take_add) simp
  finally have "mbuf_bytes b = take (pos - b_pos b) (drop (b_pos b) (b_data b)) @ ?bs" .
  with n0 r n b show ?thesis
    by (auto simp: mbuf_split_def mbuf_ok_def mbuf_bytes_def)
qed

text \<open>
  \<open>reset\<close> sets \<open>m_last_\<close> to the end: a recycled buffer is full (not empty), and the bytes
  between its markers are whatever its last use left there.
\<close>

lemma mbuf_reset_full:
  assumes "mbuf_ok b"
  shows "mbuf_full (mbuf_reset b)" "mbuf_size (mbuf_reset b) = 0"
    "mbuf_bytes (mbuf_reset b) = take (b_end b) (b_data b)"
  by (simp_all add: mbuf_full_def mbuf_reset_def mbuf_rewind_def mbuf_size_def mbuf_bytes_def)


definition demo_mbuf :: mbuf where
  "demo_mbuf = \<lparr>b_data = [4, 5] @ replicate MBUF_HSIZE 0, b_pos = 0, b_last = 2, b_end = 2,
     b_chunk = of_nat (2 + MBUF_HSIZE)\<rparr>"

lemma demo_mbuf_ok: "mbuf_ok demo_mbuf"
  by (simp add: mbuf_ok_def demo_mbuf_def MBUF_HSIZE_def)


text \<open>C24. Splitting a buffer loses and moves no byte: the bytes of the two buffers in a row are
  those of the old one, cut where it was asked for, and both are good.\<close>
theorem split_keeps_bytes:
  assumes "mbuf_ok b" "b_pos b \<le> pos" "pos \<le> b_last b"
    and "length junk = unat chunk" "b_last b - pos + MBUF_HSIZE \<le> unat chunk"
  shows "\<exists>b' nbuf. mbuf_split junk chunk pos b = Some (b', nbuf) \<and> mbuf_ok b' \<and> mbuf_ok nbuf
    \<and> mbuf_bytes b' @ mbuf_bytes nbuf = mbuf_bytes b \<and> length (mbuf_bytes b') = pos - b_pos b"
  by (rule mbuf_split_ok [OF assms])

theorem split_keeps_bytes_witness:
  "\<exists>b' nbuf. mbuf_split (replicate (2 + MBUF_HSIZE) 0) (of_nat (2 + MBUF_HSIZE)) 1 demo_mbuf = Some (b', nbuf)
    \<and> mbuf_bytes b' @ mbuf_bytes nbuf = [4, 5]"
  using split_keeps_bytes [OF demo_mbuf_ok, of 1 "replicate (2 + MBUF_HSIZE) 0" "of_nat (2 + MBUF_HSIZE)"]
  by (auto simp: demo_mbuf_def MBUF_HSIZE_def mbuf_bytes_def)

end
