(* ===== verification/NcRbTree.thy ===== *)
theory NcRbTree
  imports NcPrelude "HOL-Library.Tree"
begin

text \<open>
  The red-black tree of \<^verbatim>\<open>nc_rbtree.h\<close> on a heap of nodes: addresses are natural numbers,
  pointers are options, and the class \<open>NcRbTree\<close> is the record of its root and sentinel with
  the heap. Reading or writing through a null pointer is \<open>None\<close>; the loops are partial
  functions, so that a loop that does not end is \<open>None\<close> as well.
\<close>

section \<open>Nodes\<close>

record rbnode =
  rb_left :: "nat option"
  rb_right :: "nat option"
  rb_parent :: "nat option"
  rb_key :: int
  rb_data :: "nat option"
  rb_red :: bool

definition rbnode_new :: rbnode where
  "rbnode_new = \<lparr>rb_left = None, rb_right = None, rb_parent = None, rb_key = 0, rb_data = None, rb_red = False\<rparr>"

definition rbnode_reset :: "rbnode \<Rightarrow> rbnode" where
  "rbnode_reset n = \<lparr>rb_left = None, rb_right = None, rb_parent = None, rb_key = 0, rb_data = None, rb_red = False\<rparr>"

record rbtree =
  rb_root :: "nat option"
  rb_sentinel :: "nat option"
  rb_nodes :: "nat \<Rightarrow> rbnode"

type_synonym ptr = "nat option"

text \<open>The member \<open>f\<close> of the node at \<open>p\<close>, and an update of that node.\<close>

definition rd :: "(rbnode \<Rightarrow> 'b) \<Rightarrow> ptr \<Rightarrow> rbtree \<Rightarrow> 'b option" where
  "rd f p t = map_option (\<lambda>a. f (rb_nodes t a)) p"

definition wr :: "(rbnode \<Rightarrow> rbnode) \<Rightarrow> ptr \<Rightarrow> rbtree \<Rightarrow> rbtree option" where
  "wr g p t = map_option (\<lambda>a. t\<lparr>rb_nodes := (rb_nodes t)(a := g (rb_nodes t a))\<rparr>) p"

abbreviation set_left :: "ptr \<Rightarrow> ptr \<Rightarrow> rbtree \<Rightarrow> rbtree option" where
  "set_left p v \<equiv> wr (rb_left_update (\<lambda>_. v)) p"
abbreviation set_right :: "ptr \<Rightarrow> ptr \<Rightarrow> rbtree \<Rightarrow> rbtree option" where
  "set_right p v \<equiv> wr (rb_right_update (\<lambda>_. v)) p"
abbreviation set_parent :: "ptr \<Rightarrow> ptr \<Rightarrow> rbtree \<Rightarrow> rbtree option" where
  "set_parent p v \<equiv> wr (rb_parent_update (\<lambda>_. v)) p"

text \<open>The colour macros.\<close>

definition rbtree_red :: "ptr \<Rightarrow> rbtree \<Rightarrow> rbtree option" where
  "rbtree_red p = wr (rb_red_update (\<lambda>_. True)) p"
definition rbtree_black :: "ptr \<Rightarrow> rbtree \<Rightarrow> rbtree option" where
  "rbtree_black p = wr (rb_red_update (\<lambda>_. False)) p"
definition rbtree_is_red :: "ptr \<Rightarrow> rbtree \<Rightarrow> bool option" where
  "rbtree_is_red p = rd rb_red p"
definition rbtree_is_black :: "ptr \<Rightarrow> rbtree \<Rightarrow> bool option" where
  "rbtree_is_black p t = map_option Not (rbtree_is_red p t)"
definition rbtree_copy_color :: "ptr \<Rightarrow> ptr \<Rightarrow> rbtree \<Rightarrow> rbtree option" where
  "rbtree_copy_color p q t = do { c \<leftarrow> rd rb_red q t; wr (rb_red_update (\<lambda>_. c)) p t }"

section \<open>Construction, minimum and maximum\<close>

definition rbtree_default :: "(nat \<Rightarrow> rbnode) \<Rightarrow> rbtree" where
  "rbtree_default h = \<lparr>rb_root = None, rb_sentinel = None, rb_nodes = h\<rparr>"

definition rbtree_with :: "nat \<Rightarrow> (nat \<Rightarrow> rbnode) \<Rightarrow> rbtree option" where
  "rbtree_with s h = rbtree_black (Some s) \<lparr>rb_root = Some s, rb_sentinel = Some s, rb_nodes = h\<rparr>"

partial_function (option) min_loop :: "ptr \<Rightarrow> rbtree \<Rightarrow> ptr option" where
  "min_loop node t = do {
     l \<leftarrow> rd rb_left node t;
     if l \<noteq> rb_sentinel t then min_loop l t else Some node
   }"

definition rb_min :: "rbtree \<Rightarrow> ptr option" where
  "rb_min t = (if rb_root t = rb_sentinel t then Some None else min_loop (rb_root t) t)"

partial_function (option) max_loop :: "ptr \<Rightarrow> rbtree \<Rightarrow> ptr option" where
  "max_loop node t = do {
     r \<leftarrow> rd rb_right node t;
     if r \<noteq> rb_sentinel t then max_loop r t else Some node
   }"

definition rb_max :: "rbtree \<Rightarrow> ptr option" where
  "rb_max t =
     (if rb_root t = rb_sentinel t then Some None
      else do {
        r \<leftarrow> rd rb_right (rb_root t) t;
        if r \<noteq> None then max_loop (rb_root t) t else Some (rb_root t)
      })"

section \<open>Rotations\<close>

definition leftRotate :: "ptr \<Rightarrow> rbtree \<Rightarrow> rbtree option" where
  "leftRotate node t =
     (if node = None then Some t
      else do {
        temp \<leftarrow> rd rb_right node t;
        tl \<leftarrow> rd rb_left temp t;
        t \<leftarrow> set_right node tl t;
        t \<leftarrow> (if tl \<noteq> rb_sentinel t then set_parent tl node t else Some t);
        np \<leftarrow> rd rb_parent node t;
        t \<leftarrow> set_parent temp np t;
        t \<leftarrow> (if node = rb_root t then Some (t\<lparr>rb_root := temp\<rparr>)
             else do {
               npl \<leftarrow> rd rb_left np t;
               if node = npl then set_left np temp t else set_right np temp t
             });
        t \<leftarrow> set_left temp node t;
        set_parent node temp t
      })"

definition rightRotate :: "ptr \<Rightarrow> rbtree \<Rightarrow> rbtree option" where
  "rightRotate node t =
     (if node = None then Some t
      else do {
        temp \<leftarrow> rd rb_left node t;
        tr \<leftarrow> rd rb_right temp t;
        t \<leftarrow> set_left node tr t;
        t \<leftarrow> (if tr \<noteq> rb_sentinel t then set_parent tr node t else Some t);
        np \<leftarrow> rd rb_parent node t;
        t \<leftarrow> set_parent temp np t;
        t \<leftarrow> (if node = rb_root t then Some (t\<lparr>rb_root := temp\<rparr>)
             else do {
               npr \<leftarrow> rd rb_right np t;
               if node = npr then set_right np temp t else set_left np temp t
             });
        t \<leftarrow> set_right temp node t;
        set_parent node temp t
      })"

section \<open>Insertion\<close>

text \<open>The descent: the node under which to insert, and whether on its left.\<close>

partial_function (option) insert_descend :: "int \<Rightarrow> ptr \<Rightarrow> rbtree \<Rightarrow> (ptr \<times> bool) option" where
  "insert_descend key temp t = do {
     k \<leftarrow> rd rb_key temp t;
     p \<leftarrow> (if key < k then rd rb_left temp t else rd rb_right temp t);
     if p = rb_sentinel t then Some (temp, key < k) else insert_descend key p t
   }"

text \<open>One turn of the loop that rebalances; the result is the next node to look at.\<close>

definition insert_fix_step :: "ptr \<Rightarrow> rbtree \<Rightarrow> (ptr \<times> rbtree) option" where
  "insert_fix_step node t = do {
     p \<leftarrow> rd rb_parent node t;
     g \<leftarrow> rd rb_parent p t;
     gl \<leftarrow> rd rb_left g t;
     if p = gl then do {
       temp \<leftarrow> rd rb_right g t;
       red \<leftarrow> rbtree_is_red temp t;
       if red then do {
         t \<leftarrow> rbtree_black p t;
         t \<leftarrow> rbtree_black temp t;
         t \<leftarrow> rbtree_red g t;
         Some (g, t)
       } else do {
         pr \<leftarrow> rd rb_right p t;
         (node, t) \<leftarrow> (if node = pr then do { t \<leftarrow> leftRotate p t; Some (p, t) } else Some (node, t));
         p \<leftarrow> rd rb_parent node t;
         t \<leftarrow> rbtree_black p t;
         g \<leftarrow> rd rb_parent p t;
         t \<leftarrow> rbtree_red g t;
         t \<leftarrow> rightRotate g t;
         Some (node, t)
       }
     } else do {
       temp \<leftarrow> rd rb_left g t;
       red \<leftarrow> rbtree_is_red temp t;
       if red then do {
         t \<leftarrow> rbtree_black p t;
         t \<leftarrow> rbtree_black temp t;
         t \<leftarrow> rbtree_red g t;
         Some (g, t)
       } else do {
         pl \<leftarrow> rd rb_left p t;
         (node, t) \<leftarrow> (if node = pl then do { t \<leftarrow> rightRotate p t; Some (p, t) } else Some (node, t));
         p \<leftarrow> rd rb_parent node t;
         t \<leftarrow> rbtree_black p t;
         g \<leftarrow> rd rb_parent p t;
         t \<leftarrow> rbtree_red g t;
         t \<leftarrow> leftRotate g t;
         Some (node, t)
       }
     }
   }"

partial_function (option) insert_fix :: "ptr \<Rightarrow> rbtree \<Rightarrow> rbtree option" where
  "insert_fix node t =
     (if node = rb_root t then rbtree_black (rb_root t) t
      else do {
        p \<leftarrow> rd rb_parent node t;
        red \<leftarrow> rbtree_is_red p t;
        if red then do {
          (node, t) \<leftarrow> insert_fix_step node t;
          insert_fix node t
        } else rbtree_black (rb_root t) t
      })"

definition rb_insert :: "nat \<Rightarrow> rbtree \<Rightarrow> rbtree option" where
  "rb_insert n t =
     (let node = Some n; sentinel = rb_sentinel t in
      if rb_root t = sentinel then do {
        t \<leftarrow> set_parent node None t;
        t \<leftarrow> set_left node sentinel t;
        t \<leftarrow> set_right node sentinel t;
        t \<leftarrow> rbtree_black node t;
        Some (t\<lparr>rb_root := node\<rparr>)
      } else do {
        key \<leftarrow> rd rb_key node t;
        (temp, is_left) \<leftarrow> insert_descend key (rb_root t) t;
        t \<leftarrow> (if is_left then set_left temp node t else set_right temp node t);
        t \<leftarrow> set_parent node temp t;
        t \<leftarrow> set_left node sentinel t;
        t \<leftarrow> set_right node sentinel t;
        t \<leftarrow> rbtree_red node t;
        insert_fix node t
      })"

section \<open>Removal\<close>

text \<open>One turn of the loop after a black node went.\<close>

definition remove_fix_step :: "ptr \<Rightarrow> rbtree \<Rightarrow> (ptr \<times> rbtree) option" where
  "remove_fix_step temp t = do {
     p \<leftarrow> rd rb_parent temp t;
     pl \<leftarrow> rd rb_left p t;
     if temp = pl then do {
       w \<leftarrow> rd rb_right p t;
       red \<leftarrow> rbtree_is_red w t;
       (w, t) \<leftarrow> (if red then do {
           t \<leftarrow> rbtree_black w t;
           t \<leftarrow> rbtree_red p t;
           t \<leftarrow> leftRotate p t;
           p \<leftarrow> rd rb_parent temp t;
           w \<leftarrow> rd rb_right p t;
           Some (w, t)
         } else Some (w, t));
       wl \<leftarrow> rd rb_left w t;
       bl \<leftarrow> rbtree_is_black wl t;
       wr' \<leftarrow> rd rb_right w t;
       br \<leftarrow> (if bl then rbtree_is_black wr' t else Some False);
       if bl \<and> br then do {
         t \<leftarrow> rbtree_red w t;
         p \<leftarrow> rd rb_parent temp t;
         Some (p, t)
       } else do {
         br \<leftarrow> rbtree_is_black wr' t;
         (w, t) \<leftarrow> (if br then do {
             t \<leftarrow> rbtree_black wl t;
             t \<leftarrow> rbtree_red w t;
             t \<leftarrow> rightRotate w t;
             p \<leftarrow> rd rb_parent temp t;
             w \<leftarrow> rd rb_right p t;
             Some (w, t)
           } else Some (w, t));
         p \<leftarrow> rd rb_parent temp t;
         t \<leftarrow> rbtree_copy_color w p t;
         t \<leftarrow> rbtree_black p t;
         wr' \<leftarrow> rd rb_right w t;
         t \<leftarrow> rbtree_black wr' t;
         t \<leftarrow> leftRotate p t;
         Some (rb_root t, t)
       }
     } else do {
       w \<leftarrow> rd rb_left p t;
       red \<leftarrow> rbtree_is_red w t;
       (w, t) \<leftarrow> (if red then do {
           t \<leftarrow> rbtree_black w t;
           t \<leftarrow> rbtree_red p t;
           t \<leftarrow> rightRotate p t;
           p \<leftarrow> rd rb_parent temp t;
           w \<leftarrow> rd rb_left p t;
           Some (w, t)
         } else Some (w, t));
       wl \<leftarrow> rd rb_left w t;
       bl \<leftarrow> rbtree_is_black wl t;
       wr' \<leftarrow> rd rb_right w t;
       br \<leftarrow> (if bl then rbtree_is_black wr' t else Some False);
       if bl \<and> br then do {
         t \<leftarrow> rbtree_red w t;
         p \<leftarrow> rd rb_parent temp t;
         Some (p, t)
       } else do {
         bl \<leftarrow> rbtree_is_black wl t;
         (w, t) \<leftarrow> (if bl then do {
             t \<leftarrow> rbtree_black wr' t;
             t \<leftarrow> rbtree_red w t;
             t \<leftarrow> leftRotate w t;
             p \<leftarrow> rd rb_parent temp t;
             w \<leftarrow> rd rb_left p t;
             Some (w, t)
           } else Some (w, t));
         p \<leftarrow> rd rb_parent temp t;
         t \<leftarrow> rbtree_copy_color w p t;
         t \<leftarrow> rbtree_black p t;
         wl \<leftarrow> rd rb_left w t;
         t \<leftarrow> rbtree_black wl t;
         t \<leftarrow> rightRotate p t;
         Some (rb_root t, t)
       }
     }
   }"

partial_function (option) remove_fix :: "ptr \<Rightarrow> rbtree \<Rightarrow> rbtree option" where
  "remove_fix temp t =
     (if temp = rb_root t then rbtree_black temp t
      else do {
        black \<leftarrow> rbtree_is_black temp t;
        if black then do {
          (temp, t) \<leftarrow> remove_fix_step temp t;
          remove_fix temp t
        } else rbtree_black temp t
      })"

text \<open>Putting \<open>subst\<close> in the place of \<open>node\<close>.\<close>

definition remove_replace :: "ptr \<Rightarrow> ptr \<Rightarrow> ptr \<Rightarrow> rbtree \<Rightarrow> rbtree option" where
  "remove_replace node subst temp t = do {
     sp \<leftarrow> rd rb_parent subst t;
     t \<leftarrow> set_parent temp (if sp = node then subst else sp) t;
     nl \<leftarrow> rd rb_left node t;
     t \<leftarrow> set_left subst nl t;
     nr \<leftarrow> rd rb_right node t;
     t \<leftarrow> set_right subst nr t;
     np \<leftarrow> rd rb_parent node t;
     t \<leftarrow> set_parent subst np t;
     t \<leftarrow> rbtree_copy_color subst node t;
     t \<leftarrow> (if node = rb_root t then Some (t\<lparr>rb_root := subst\<rparr>)
          else do {
            np \<leftarrow> rd rb_parent node t;
            npl \<leftarrow> rd rb_left np t;
            if node = npl then set_left np subst t else set_right np subst t
          });
     sl \<leftarrow> rd rb_left subst t;
     t \<leftarrow> (if sl \<noteq> rb_sentinel t then set_parent sl subst t else Some t);
     sr \<leftarrow> rd rb_right subst t;
     (if sr \<noteq> rb_sentinel t then set_parent sr subst t else Some t)
   }"

definition rb_remove :: "ptr \<Rightarrow> rbtree \<Rightarrow> rbtree option" where
  "rb_remove node t =
     (if node = None then Some t
      else do {
        l \<leftarrow> rd rb_left node t;
        r \<leftarrow> rd rb_right node t;
        (subst, temp) \<leftarrow>
          (if l = rb_sentinel t then Some (node, r)
           else if r = rb_sentinel t then Some (node, l)
           else do {
             subst \<leftarrow> rb_min t;
             temp \<leftarrow> rd rb_right subst t;
             Some (subst, temp)
           });
        if subst = None then Some t
        else if subst = rb_root t then do {
          let t = t\<lparr>rb_root := temp\<rparr>;
          t \<leftarrow> rbtree_black temp t;
          wr rbnode_reset node t
        } else do {
          sp \<leftarrow> rd rb_parent subst t;
          if sp = None then Some t
          else do {
            red \<leftarrow> rbtree_is_red subst t;
            spl \<leftarrow> rd rb_left sp t;
            t \<leftarrow> (if subst = spl then set_left sp temp t else set_right sp temp t);
            t \<leftarrow> (if subst = node then set_parent temp sp t else remove_replace node subst temp t);
            t \<leftarrow> wr rbnode_reset node t;
            if red then Some t else remove_fix temp t
          }
        }
      })"

section \<open>The tree that a heap holds\<close>

text \<open>
  \<open>is_tree s h par p T\<close>: from \<open>p\<close> the heap \<open>h\<close> holds the tree \<open>T\<close> of addresses, with the
  sentinel \<open>s\<close> at the leaves and the parent links set, that of the top to \<open>par\<close>.
\<close>

fun is_tree :: "ptr \<Rightarrow> (nat \<Rightarrow> rbnode) \<Rightarrow> ptr \<Rightarrow> ptr \<Rightarrow> nat tree \<Rightarrow> bool" where
  "is_tree s h par p \<langle>\<rangle> \<longleftrightarrow> p = s"
| "is_tree s h par p \<langle>l, a, r\<rangle> \<longleftrightarrow>
     p = Some a \<and> s \<noteq> Some a \<and> rb_parent (h a) = par
     \<and> is_tree s h (Some a) (rb_left (h a)) l \<and> is_tree s h (Some a) (rb_right (h a)) r"

text \<open>The parent link of the root is never read; \<open>remove\<close> can leave any value there.\<close>

definition rep :: "rbtree \<Rightarrow> nat tree \<Rightarrow> bool" where
  "rep t T \<longleftrightarrow> (\<exists>par. is_tree (rb_sentinel t) (rb_nodes t) par (rb_root t) T) \<and> distinct (inorder T)"

definition keys :: "rbtree \<Rightarrow> nat tree \<Rightarrow> int list" where
  "keys t T = map (\<lambda>a. rb_key (rb_nodes t a)) (inorder T)"

lemma is_tree_sentinel: "is_tree s h par p T \<Longrightarrow> p = s \<longleftrightarrow> T = \<langle>\<rangle>"
  by (cases T) auto

lemma min_loop_rep:
  "is_tree (rb_sentinel t) (rb_nodes t) par p T \<Longrightarrow> T \<noteq> \<langle>\<rangle> \<Longrightarrow> min_loop p t = Some (Some (hd (inorder T)))"
proof (induction T arbitrary: par p)
  case (Node l a r)
  then have p: "p = Some a" by simp
  show ?case
  proof (cases "l = \<langle>\<rangle>")
    case True
    with Node.prems p show ?thesis by (subst min_loop.simps) (simp add: rd_def)
  next
    case False
    with Node.prems have "rb_left (rb_nodes t a) \<noteq> rb_sentinel t"
      using is_tree_sentinel by fastforce
    moreover have "min_loop (rb_left (rb_nodes t a)) t = Some (Some (hd (inorder l)))"
      using Node.prems False by (intro Node.IH(1)) auto
    ultimately show ?thesis
      using False p by (subst min_loop.simps) (simp add: rd_def hd_append)
  qed
qed simp

lemma max_loop_rep:
  "is_tree (rb_sentinel t) (rb_nodes t) par p T \<Longrightarrow> T \<noteq> \<langle>\<rangle> \<Longrightarrow> max_loop p t = Some (Some (last (inorder T)))"
proof (induction T arbitrary: par p)
  case (Node l a r)
  then have p: "p = Some a" by simp
  show ?case
  proof (cases "r = \<langle>\<rangle>")
    case True
    with Node.prems p show ?thesis by (subst max_loop.simps) (simp add: rd_def)
  next
    case False
    with Node.prems have "rb_right (rb_nodes t a) \<noteq> rb_sentinel t"
      using is_tree_sentinel by fastforce
    moreover have "max_loop (rb_right (rb_nodes t a)) t = Some (Some (last (inorder r)))"
      using Node.prems False by (intro Node.IH(2)) auto
    ultimately show ?thesis
      using False p by (subst max_loop.simps) (simp add: rd_def)
  qed
qed simp

text \<open>\<open>min\<close> and \<open>max\<close> are the ends of the tree, and end.\<close>

lemma rb_min_rep:
  "rep t T \<Longrightarrow> rb_min t = Some (if T = \<langle>\<rangle> then None else Some (hd (inorder T)))"
  using is_tree_sentinel [of "rb_sentinel t" "rb_nodes t" _ "rb_root t" T] min_loop_rep [of t _ "rb_root t" T]
  by (fastforce simp: rep_def rb_min_def)

lemma rb_max_rep:
  "rep t T \<Longrightarrow> rb_max t = Some (if T = \<langle>\<rangle> then None else Some (last (inorder T)))"
proof (cases T)
  case Leaf
  moreover assume "rep t T"
  ultimately show ?thesis by (simp add: rep_def rb_max_def)
next
  case (Node l a r)
  assume "rep t T"
  then obtain par where t: "is_tree (rb_sentinel t) (rb_nodes t) par (rb_root t) T" by (auto simp: rep_def)
  with Node have root: "rb_root t = Some a" "rb_sentinel t \<noteq> Some a" by auto
  have m: "max_loop (Some a) t = Some (Some (last (inorder T)))"
    using max_loop_rep [OF t] Node root by simp
  show ?thesis
  proof (cases "rb_right (rb_nodes t a) = None")
    case True
    with t Node have "r = \<langle>\<rangle>" by (cases r) auto
    with True Node root show ?thesis by (simp add: rb_max_def rd_def)
  next
    case False
    with Node root m show ?thesis by (simp add: rb_max_def rd_def)
  qed
qed

text \<open>
  Removing a node that is not linked from an empty default tree does nothing: this is what
  \<open>NcConn::freeMsg\<close> does with every message, since no message is ever inserted.
\<close>

lemma rb_remove_unlinked:
  assumes "rb_root t = None" "rb_sentinel t = None"
    and "rb_left (rb_nodes t a) = None" "rb_parent (rb_nodes t a) = None"
  shows "rb_remove (Some a) t = Some t"
  using assms by (simp add: rb_remove_def rd_def)

text \<open>In a default tree the sentinel is null, and removing the only node crashes.\<close>

lemma rb_remove_last_crashes:
  assumes "rb_sentinel t = None" "rb_root t = Some a"
    and "rb_left (rb_nodes t a) = None" "rb_right (rb_nodes t a) = None"
  shows "rb_remove (Some a) t = None"
  using assms by (simp add: rb_remove_def rd_def rbtree_black_def wr_def)

text \<open>On a heap that holds a tree the searches for the smallest and the largest node end,
  follow no null pointer, and find the first and the last node of the tree.\<close>
lemma ends_of_the_tree:
  assumes "rep t T"
  shows "rb_min t = Some (if T = \<langle>\<rangle> then None else Some (hd (inorder T)))
    \<and> rb_max t = Some (if T = \<langle>\<rangle> then None else Some (last (inorder T)))"
  using rb_min_rep [OF assms] rb_max_rep [OF assms] by blast

text \<open>Six nodes with the keys 1 to 6 over the sentinel 0; the address is the key but for 4 and 5.\<close>

definition demo_tree :: rbtree where
  "demo_tree = \<lparr>rb_root = Some 3, rb_sentinel = Some 0, rb_nodes = (\<lambda>a.
     if a = 3 then \<lparr>rb_left = Some 2, rb_right = Some 4, rb_parent = None, rb_key = 3, rb_data = None, rb_red = False\<rparr>
     else if a = 2 then \<lparr>rb_left = Some 1, rb_right = Some 0, rb_parent = Some 3, rb_key = 2, rb_data = None, rb_red = False\<rparr>
     else if a = 1 then \<lparr>rb_left = Some 0, rb_right = Some 0, rb_parent = Some 2, rb_key = 1, rb_data = None, rb_red = True\<rparr>
     else if a = 4 then \<lparr>rb_left = Some 5, rb_right = Some 6, rb_parent = Some 3, rb_key = 5, rb_data = None, rb_red = False\<rparr>
     else if a = 5 then \<lparr>rb_left = Some 0, rb_right = Some 0, rb_parent = Some 4, rb_key = 4, rb_data = None, rb_red = True\<rparr>
     else if a = 6 then \<lparr>rb_left = Some 0, rb_right = Some 0, rb_parent = Some 4, rb_key = 6, rb_data = None, rb_red = True\<rparr>
     else rbnode_new)\<rparr>"

lemma demo_tree_rep: "rep demo_tree \<langle>\<langle>\<langle>\<langle>\<rangle>, 1, \<langle>\<rangle>\<rangle>, 2, \<langle>\<rangle>\<rangle>, 3, \<langle>\<langle>\<langle>\<rangle>, 5, \<langle>\<rangle>\<rangle>, 4, \<langle>\<langle>\<rangle>, 6, \<langle>\<rangle>\<rangle>\<rangle>\<rangle>"
  by (simp add: rep_def demo_tree_def)

lemma ends_of_the_tree_witness: "rb_min demo_tree = Some (Some 1) \<and> rb_max demo_tree = Some (Some 6)"
  using ends_of_the_tree [OF demo_tree_rep] by simp

text \<open>Removing a node with two children breaks the order of a good tree: the node that takes
  its place is the smallest of the whole tree, not the next one. From the keys 1 to 6 in order,
  removing 5 leaves 2, 3, 4, 1, 6.\<close>
lemma remove_breaks_order:
  "keys demo_tree \<langle>\<langle>\<langle>\<langle>\<rangle>, 1, \<langle>\<rangle>\<rangle>, 2, \<langle>\<rangle>\<rangle>, 3, \<langle>\<langle>\<langle>\<rangle>, 5, \<langle>\<rangle>\<rangle>, 4, \<langle>\<langle>\<rangle>, 6, \<langle>\<rangle>\<rangle>\<rangle>\<rangle> = [1, 2, 3, 4, 5, 6]
   \<and> (case rb_remove (Some 4) demo_tree of None \<Rightarrow> False
      | Some t \<Rightarrow> rep t \<langle>\<langle>\<langle>\<rangle>, 2, \<langle>\<rangle>\<rangle>, 3, \<langle>\<langle>\<langle>\<rangle>, 5, \<langle>\<rangle>\<rangle>, 1, \<langle>\<langle>\<rangle>, 6, \<langle>\<rangle>\<rangle>\<rangle>\<rangle>
         \<and> keys t \<langle>\<langle>\<langle>\<rangle>, 2, \<langle>\<rangle>\<rangle>, 3, \<langle>\<langle>\<langle>\<rangle>, 5, \<langle>\<rangle>\<rangle>, 1, \<langle>\<langle>\<rangle>, 6, \<langle>\<rangle>\<rangle>\<rangle>\<rangle> = [2, 3, 4, 1, 6])"
proof -
  have m: "rb_min demo_tree = Some (Some 1)" using rb_min_rep [OF demo_tree_rep] by simp
  have l: "rd rb_left (Some 4) demo_tree = Some (Some 5)" "rd rb_right (Some 4) demo_tree = Some (Some 6)"
    "rb_sentinel demo_tree = Some 0" by (simp_all add: rd_def demo_tree_def)
  show ?thesis
    by (simp only: rb_remove_def m l Option.bind.simps option.simps if_False)
      (simp add: demo_tree_def rd_def wr_def remove_replace_def rbtree_is_red_def rbtree_copy_color_def keys_def
        rep_def rbnode_reset_def)
qed

end
