(* ===== verification/NcStore.thy ===== *)
theory NcStore
  imports NcServerPool NcEvent NcQueue NcMbuf NcRbTree
begin

text \<open>
  The state the handlers share: \<open>NcContext\<close> of \<^verbatim>\<open>nc_core.h\<close> with its object pools, the
  messages (\<open>NcMsgBase\<close> and \<open>NcMsg\<close>), the connections and the mbufs, each in a store from
  addresses to objects, the server pool, the timeout tree, the statics and the kernel. An
  object is never unmapped: the pools keep what they free. There is one context and one pool,
  as \<open>NcInstance::createContext\<close> makes them.
\<close>

section \<open>Messages\<close>

datatype parse_result = PARSE_OK | PARSE_ERROR | PARSE_REPAIR | PARSE_AGAIN

text \<open>
  The members of \<open>NcMsgBase\<close> that the code reads, and the queue of mbufs. The inherited
  \<open>rbnode\<close> with its \<open>data\<close> pointer is in the tree of the world, at the same address. The
  parse position is an mbuf and an offset in it.
\<close>

record msg =
  m_id :: u64
  m_peer :: "nat option"
  m_mlen :: u32
  m_pos :: "(nat \<times> nat) option"
  m_err :: int
  m_error :: bool
  m_quit :: bool
  m_noreply :: bool
  m_noforward :: bool
  m_done :: bool
  m_swallow :: bool
  m_mbuf_q :: "nat list"
  m_result :: parse_result

text \<open>\<open>new NcMsg()\<close>: the class has no constructor of its own, so the object is zeroed.\<close>

definition msg_new :: msg where
  "msg_new = \<lparr>m_id = 0, m_peer = None, m_mlen = 0, m_pos = None, m_err = 0, m_error = False,
     m_quit = False, m_noreply = False, m_noforward = False, m_done = False, m_swallow = False,
     m_mbuf_q = [], m_result = PARSE_OK\<rparr>"

text \<open>\<open>NcMsgBase::reset\<close>: the flags and the parse result are not among what it resets.\<close>

definition msg_reset :: "u64 \<Rightarrow> msg \<Rightarrow> msg" where
  "msg_reset i m = m\<lparr>m_id := i, m_peer := None, m_mlen := 0, m_pos := None, m_err := 0\<rparr>"

definition msg_empty :: "msg \<Rightarrow> bool" where "msg_empty m \<longleftrightarrow> m_mlen m = 0"
definition msg_setPos :: "(nat \<times> nat) option \<Rightarrow> msg \<Rightarrow> msg" where "msg_setPos p m = m\<lparr>m_pos := p\<rparr>"
definition msg_setLength :: "u32 \<Rightarrow> msg \<Rightarrow> msg" where "msg_setLength n m = m\<lparr>m_mlen := n\<rparr>"

section \<open>The world\<close>

record world =
  w_os :: os
  w_st :: statics
  w_testi :: int
  w_mbufs :: "nat \<Rightarrow> mbuf"
  w_nmbuf :: nat
  w_msgs :: "nat \<Rightarrow> msg"
  w_nmsg :: nat
  w_conns :: "nat \<Rightarrow> conn"
  w_nconn :: nat
  w_mbuf_pool :: "nat pool"
  w_msg_pool :: "nat pool"
  w_c_pool :: "nat pool"
  w_s_pool :: "nat pool"
  w_p_pool :: "nat pool"
  w_rb :: rbtree
  w_sp :: spool
  w_max_nfd :: u32
  w_max_ncconn :: u32
  w_max_nsconn :: u32
  w_junk :: "nat \<Rightarrow> byte"
  w_rand :: nat
  w_gai :: "bytes \<Rightarrow> int \<Rightarrow> int \<times> (int \<times> nat \<times> bytes) list"
  w_sys :: "int list"

text \<open>
  \<open>w_junk\<close> is what fresh memory holds, \<open>w_rand\<close> what \<^verbatim>\<open>random()\<close> returns and \<open>w_gai\<close> stands
  for \<^verbatim>\<open>getaddrinfo\<close>. \<open>w_sys\<close> scripts
  the calls of which the code only uses whether they succeed (and a new descriptor): 0 or
  more is the result, a negative number is a failure with that \<^verbatim>\<open>errno\<close>. An exhausted
  script answers 0.
\<close>

definition sys :: "world \<Rightarrow> int \<times> world" where
  "sys w =
     (let r = (case w_sys w of [] \<Rightarrow> 0 | r # _ \<Rightarrow> r); w = w\<lparr>w_sys := tl (w_sys w)\<rparr> in
      if r < 0 then (- 1, w\<lparr>w_os := (w_os w)\<lparr>os_errno := - r\<rparr>\<rparr>) else (r, w))"

abbreviation w_errno :: "world \<Rightarrow> int" where "w_errno w \<equiv> os_errno (w_os w)"

text \<open>Updates of one object.\<close>

definition upd_mbuf :: "nat \<Rightarrow> (mbuf \<Rightarrow> mbuf) \<Rightarrow> world \<Rightarrow> world" where
  "upd_mbuf b f w = w\<lparr>w_mbufs := (w_mbufs w)(b := f (w_mbufs w b))\<rparr>"

definition upd_msg :: "nat \<Rightarrow> (msg \<Rightarrow> msg) \<Rightarrow> world \<Rightarrow> world" where
  "upd_msg m f w = w\<lparr>w_msgs := (w_msgs w)(m := f (w_msgs w m))\<rparr>"

definition upd_conn :: "nat \<Rightarrow> (conn \<Rightarrow> conn) \<Rightarrow> world \<Rightarrow> world" where
  "upd_conn c f w = w\<lparr>w_conns := (w_conns w)(c := f (w_conns w c))\<rparr>"

definition upd_sp :: "(spool \<Rightarrow> spool) \<Rightarrow> world \<Rightarrow> world" where
  "upd_sp f w = w\<lparr>w_sp := f (w_sp w)\<rparr>"

definition upd_server :: "nat \<Rightarrow> (server \<Rightarrow> server) \<Rightarrow> world \<Rightarrow> world" where
  "upd_server j f w = upd_sp (\<lambda>p. p\<lparr>sp_server := (sp_server p)[j := f (sp_server p ! j)]\<rparr>) w"

definition upd_rb :: "nat \<Rightarrow> (rbnode \<Rightarrow> rbnode) \<Rightarrow> world \<Rightarrow> world" where
  "upd_rb a f w = w\<lparr>w_rb := (w_rb w)\<lparr>rb_nodes := (rb_nodes (w_rb w))(a := f (rb_nodes (w_rb w) a))\<rparr>\<rparr>"

text \<open>An operation on one connection and the kernel, and its result.\<close>

definition on_conn :: "nat \<Rightarrow> (conn \<Rightarrow> os \<Rightarrow> 'r \<times> conn \<times> os) \<Rightarrow> world \<Rightarrow> 'r \<times> world" where
  "on_conn c f w =
     (let (r, cn, k) = f (w_conns w c) (w_os w) in (r, w\<lparr>w_conns := (w_conns w)(c := cn), w_os := k\<rparr>))"

lemmas upd_defs = upd_mbuf_def upd_msg_def upd_conn_def upd_sp_def upd_server_def upd_rb_def on_conn_def

section \<open>Allocation\<close>

definition alloc_mbuf :: "world \<Rightarrow> (nat \<times> world) option" where
  "alloc_mbuf w =
     (let ((b, new), p) = pool_alloc (w_nmbuf w) (w_mbuf_pool w); w = w\<lparr>w_mbuf_pool := p\<rparr> in
      if new then do {
        let chunk = st_chunk (w_st w);
        m \<leftarrow> mbuf_new (map (w_junk w) [0..<unat chunk]) chunk;
        Some (b, w\<lparr>w_mbufs := (w_mbufs w)(b := m), w_nmbuf := w_nmbuf w + 1\<rparr>)
      } else Some (b, w))"

definition free_mbuf :: "nat option \<Rightarrow> world \<Rightarrow> world" where
  "free_mbuf b w =
     (case b of
        None \<Rightarrow> w
      | Some b \<Rightarrow> (upd_mbuf b mbuf_reset w)\<lparr>w_mbuf_pool := pool_free (Some b) (w_mbuf_pool w)\<rparr>)"

definition alloc_msg :: "world \<Rightarrow> nat \<times> world" where
  "alloc_msg w =
     (let ((m, new), p) = pool_alloc (w_nmsg w) (w_msg_pool w); w = w\<lparr>w_msg_pool := p\<rparr> in
      if new then (m, upd_rb m (\<lambda>_. rbnode_new)
        (w\<lparr>w_msgs := (w_msgs w)(m := msg_new), w_nmsg := w_nmsg w + 1\<rparr>))
      else (m, w))"

definition free_msg :: "nat \<Rightarrow> world \<Rightarrow> world" where
  "free_msg m w =
     (let (i, st) = uniqNextId (w_st w);
          w = upd_msg m (msg_reset i) (upd_rb m rbnode_reset (w\<lparr>w_st := st\<rparr>))
      in w\<lparr>w_msg_pool := pool_free (Some m) (w_msg_pool w)\<rparr>)"

text \<open>The three pools of connections; \<open>alloc<RT>\<close> makes an object of the class \<open>RT\<close>.\<close>

definition alloc_conn ::
  "connkind \<Rightarrow> (world \<Rightarrow> nat pool) \<Rightarrow> (nat pool \<Rightarrow> world \<Rightarrow> world) \<Rightarrow> world \<Rightarrow> nat \<times> world" where
  "alloc_conn kind pool set_pool w =
     (let ((c, new), p) = pool_alloc (w_nconn w) (pool w); w = set_pool p w in
      if new then (c, w\<lparr>w_conns := (w_conns w)(c := conn_new kind), w_nconn := w_nconn w + 1\<rparr>)
      else (c, w))"

definition alloc_client :: "world \<Rightarrow> nat \<times> world" where
  "alloc_client = alloc_conn CLIENT w_c_pool (\<lambda>p w. w\<lparr>w_c_pool := p\<rparr>)"

definition alloc_server :: "world \<Rightarrow> nat \<times> world" where
  "alloc_server = alloc_conn SERVER w_s_pool (\<lambda>p w. w\<lparr>w_s_pool := p\<rparr>)"

definition alloc_from_p :: "connkind \<Rightarrow> world \<Rightarrow> nat \<times> world" where
  "alloc_from_p kind = alloc_conn kind w_p_pool (\<lambda>p w. w\<lparr>w_p_pool := p\<rparr>)"

definition free_client :: "nat \<Rightarrow> world \<Rightarrow> world" where
  "free_client c w = (upd_conn c connbase_reset w)\<lparr>w_c_pool := pool_free (Some c) (w_c_pool w)\<rparr>"

definition free_proxy :: "nat \<Rightarrow> world \<Rightarrow> world" where
  "free_proxy c w = (upd_conn c connbase_reset w)\<lparr>w_p_pool := pool_free (Some c) (w_p_pool w)\<rparr>"

section \<open>The context of a connection\<close>

text \<open>
  \<open>getContext()\<close> goes through the owner: for a client or proxy the pool, for a server
  connection its server. There is one context, so the result is whether it can be reached;
  \<open>None\<close> is the failed assertion on a connection without owner.
\<close>

definition getContext :: "nat \<Rightarrow> world \<Rightarrow> unit option" where
  "getContext c w = map_option (\<lambda>_. ()) (c_owner (w_conns w c))"

section \<open>Releasing messages\<close>

text \<open>\<open>NcMsg::freeMbuf\<close>.\<close>

fun free_mbufs :: "nat list \<Rightarrow> world \<Rightarrow> world" where
  "free_mbufs [] w = w"
| "free_mbufs (b # bs) w = free_mbufs bs (free_mbuf (Some b) w)"

definition freeMbuf :: "nat \<Rightarrow> world \<Rightarrow> world" where
  "freeMbuf m w = upd_msg m (\<lambda>m. m\<lparr>m_mbuf_q := []\<rparr>) (free_mbufs (m_mbuf_q (w_msgs w m)) w)"

text \<open>\<open>NcConn::freeMsg(msg, force)\<close>; \<open>msg\<close> is not null at any call except that of
  \<open>NcClientConn::sendDone\<close>, which passes the peer.\<close>

definition freeMsg :: "nat \<Rightarrow> nat option \<Rightarrow> bool \<Rightarrow> world \<Rightarrow> world option" where
  "freeMsg c msg force w =
     (if c_owner (w_conns w c) = None then Some w
      else case msg of
          None \<Rightarrow> None
        | Some m \<Rightarrow> do {
            w \<leftarrow> (if force then do {
                   let w = (case m_peer (w_msgs w m) of
                       None \<Rightarrow> w
                     | Some p \<Rightarrow>
                         let w = upd_msg m (\<lambda>x. x\<lparr>m_peer := None\<rparr>) w;
                             w = upd_msg p (\<lambda>x. x\<lparr>m_peer := None\<rparr>) w;
                             w = freeMbuf p w
                         in free_msg p w);
                   t \<leftarrow> rb_remove (Some m) (w_rb w);
                   Some (w\<lparr>w_rb := t\<rparr>)
                 } else Some w);
            let w = freeMbuf m w;
            Some (free_msg m w)
          })"

end
