(* ===== verification/NcMessage.thy ===== *)
theory NcMessage
  imports NcStore
begin

text \<open>
  \<^verbatim>\<open>nc_message.cpp\<close> without the parser: filling the mbufs of a message, and what happens to
  a request and to a response. The arguments are the connection \<open>c\<close> and the message \<open>m\<close>
  (the \<^verbatim>\<open>this\<close> of the source).
\<close>

section \<open>The queues of a connection\<close>

text \<open>The virtual functions: a client keeps only the outgoing queue, a proxy neither.\<close>

definition enqueueInput :: "nat \<Rightarrow> nat \<Rightarrow> world \<Rightarrow> world" where
  "enqueueInput c m w =
     (if c_kind (w_conns w c) = SERVER then upd_conn c (\<lambda>x. x\<lparr>c_imsg_q := q_push m (c_imsg_q x)\<rparr>) w else w)"

definition dequeueInput :: "nat \<Rightarrow> nat \<Rightarrow> world \<Rightarrow> world" where
  "dequeueInput c m w =
     (if c_kind (w_conns w c) = SERVER then upd_conn c (\<lambda>x. x\<lparr>c_imsg_q := q_remove m (c_imsg_q x)\<rparr>) w else w)"

definition enqueueOutput :: "nat \<Rightarrow> nat \<Rightarrow> world \<Rightarrow> world" where
  "enqueueOutput c m w =
     (if c_kind (w_conns w c) \<noteq> PROXY then upd_conn c (\<lambda>x. x\<lparr>c_omsg_q := q_push m (c_omsg_q x)\<rparr>) w else w)"

definition dequeueOutput :: "nat \<Rightarrow> nat \<Rightarrow> world \<Rightarrow> world" where
  "dequeueOutput c m w =
     (if c_kind (w_conns w c) \<noteq> PROXY then upd_conn c (\<lambda>x. x\<lparr>c_omsg_q := q_remove m (c_omsg_q x)\<rparr>) w else w)"

section \<open>Filling a message\<close>

text \<open>
  \<open>ensureMbuf\<close>: a new mbuf is taken when there is none or when the first one has room; the
  mbuf that is returned is pushed in both cases.
\<close>

definition ensureMbuf :: "nat \<Rightarrow> nat \<Rightarrow> world \<Rightarrow> (nat \<times> world) option" where
  "ensureMbuf m len w = do {
     let buf = q_front (m_mbuf_q (w_msgs w m));
     (b, w) \<leftarrow> (case buf of
         None \<Rightarrow> alloc_mbuf w
       | Some b \<Rightarrow> if unat (mbuf_size (w_mbufs w b)) \<ge> len then alloc_mbuf w else Some (b, w));
     Some (b, upd_msg m (\<lambda>x. x\<lparr>m_mbuf_q := q_push b (m_mbuf_q x)\<rparr>) w)
   }"

definition copy_to :: "nat \<Rightarrow> bytes \<Rightarrow> world \<Rightarrow> world option" where
  "copy_to b bs w = do { x \<leftarrow> mbuf_copy bs (w_mbufs w b); Some (upd_mbuf b (\<lambda>_. x) w) }"

definition add_mlen :: "nat \<Rightarrow> nat \<Rightarrow> world \<Rightarrow> world" where
  "add_mlen m n = upd_msg m (\<lambda>x. x\<lparr>m_mlen := m_mlen x + of_nat n\<rparr>)"

definition msg_append :: "nat \<Rightarrow> bytes \<Rightarrow> world \<Rightarrow> (rstatus \<times> world) option" where
  "msg_append m bs w = do {
     (b, w) \<leftarrow> ensureMbuf m (length bs) w;
     w \<leftarrow> copy_to b bs w;
     Some (NC_OK, add_mlen m (length bs) w)
   }"

definition msg_preAppend :: "nat \<Rightarrow> bytes \<Rightarrow> world \<Rightarrow> (rstatus \<times> world) option" where
  "msg_preAppend m bs w = do {
     (b, w) \<leftarrow> alloc_mbuf w;
     w \<leftarrow> copy_to b bs w;
     let w = upd_msg m (\<lambda>x. x\<lparr>m_mbuf_q := q_push b (m_mbuf_q x)\<rparr>) w;
     Some (NC_OK, add_mlen m (length bs) w)
   }"

text \<open>\<open>prependFormat\<close>: \<open>txt\<close> is the formatted text. The count is an unsigned number, so the
  test \<open>n <= 0\<close> only catches an empty text, not a format error (\<open>-1\<close>).\<close>

definition msg_prependFormat :: "nat \<Rightarrow> bytes option \<Rightarrow> world \<Rightarrow> (rstatus \<times> world) option" where
  "msg_prependFormat m txt w = do {
     (b, w) \<leftarrow> alloc_mbuf w;
     (r, x) \<leftarrow> mbuf_vsnprintf txt (w_mbufs w b);
     let w = upd_mbuf b (\<lambda>_. x) w;
     let n = (of_int r :: u32);
     if n = 0 then Some (NC_ERROR, w)
     else let w = upd_msg m (\<lambda>x. x\<lparr>m_mbuf_q := q_push b (m_mbuf_q x)\<rparr>) w
       in Some (NC_OK, add_mlen m (unat n) w)
   }"

section \<open>Requests\<close>

definition msg_reply :: "rstatus" where "msg_reply = NC_OK"

definition requestDone :: "nat option \<Rightarrow> bool" where "requestDone m \<longleftrightarrow> True"

definition requestFilter :: "nat \<Rightarrow> nat \<Rightarrow> world \<Rightarrow> (bool \<times> world) option" where
  "requestFilter c m w =
     (if msg_empty (w_msgs w m) then do { w \<leftarrow> freeMsg c (Some m) True w; Some (True, w) }
      else if m_quit (w_msgs w m) then do {
        let w = upd_conn c (\<lambda>x. x\<lparr>c_eof := True, c_recv_ready := False\<rparr>) w;
        w \<leftarrow> freeMsg c (Some m) True w;
        Some (True, w)
      } else Some (False, w))"

definition requestForwardError :: "nat \<Rightarrow> nat \<Rightarrow> world \<Rightarrow> world option" where
  "requestForwardError c m w = do {
     _ \<leftarrow> getContext c w;
     let w = upd_msg m (\<lambda>x. x\<lparr>m_done := True, m_error := True, m_err := w_errno w\<rparr>) w;
     if m_noreply (w_msgs w m) then freeMsg c (Some m) True w
     else if requestDone (q_front (c_omsg_q (w_conns w c))) then
       (let (status, w) = on_conn c ev_addOutput w in
        if status \<noteq> NC_OK then Some (upd_msg m (\<lambda>x. x\<lparr>m_err := w_errno w\<rparr>) w) else Some w)
     else Some w
   }"

text \<open>
  \<open>NcServer::getConn\<close>: a new object of the pool, or the next connection in turn. A new object
  has no owner and no descriptor yet.
\<close>

definition server_getConn :: "nat \<Rightarrow> world \<Rightarrow> nat option \<times> world" where
  "server_getConn j w =
     (let s = sp_server (w_sp w) ! j in
      if sv_ns_conn_q s < sp_server_connections (w_sp w) then
        (let (c, w) = alloc_server w in (Some c, w))
      else
        (let conn = (case q_front (sv_conn_q s) of None \<Rightarrow> None | Some c \<Rightarrow> c)
         in (conn, upd_server j (\<lambda>s. s\<lparr>sv_conn_q := q_push conn (q_remove conn (sv_conn_q s))\<rparr>) w)))"

text \<open>\<open>NcServerPool::getConn(NULL, 0)\<close>.\<close>

definition pool_getConn :: "world \<Rightarrow> (nat option \<times> world) option" where
  "pool_getConn w = do {
     j \<leftarrow> pool_server (map (w_junk w) [0..<64]) (w_rand w) (w_sp w) 0 (\<lambda>_. 0) 0;
     Some (server_getConn j w)
   }"

definition requestForward :: "nat \<Rightarrow> nat \<Rightarrow> world \<Rightarrow> world option" where
  "requestForward c m w = do {
     _ \<leftarrow> getContext c w;
     let w = (if \<not> m_noreply (w_msgs w m) then enqueueOutput c m w else w);
     (s_conn, w) \<leftarrow> pool_getConn w;
     case s_conn of
       None \<Rightarrow> requestForwardError c m w
     | Some s \<Rightarrow>
         if q_empty (c_imsg_q (w_conns w s)) then
           (let (status, w) = on_conn s ev_addOutput w in
            if status \<noteq> NC_OK then do {
              w \<leftarrow> requestForwardError c m w;
              Some (upd_conn s (conn_setError (w_errno w)) w)
            } else Some (enqueueInput s m w))
         else Some (enqueueInput s m w)
   }"

definition requestMakeReply :: "nat \<Rightarrow> nat \<Rightarrow> world \<Rightarrow> (rstatus \<times> world) option" where
  "requestMakeReply c m w = do {
     _ \<leftarrow> getContext c w;
     let (rsp, w) = alloc_msg w;
     let w = upd_msg m (\<lambda>x. x\<lparr>m_peer := Some rsp\<rparr>) w;
     let w = upd_msg rsp (\<lambda>x. x\<lparr>m_peer := Some m\<rparr>) w;
     let w = upd_msg m (\<lambda>x. x\<lparr>m_done := True\<rparr>) w;
     Some (NC_OK, enqueueOutput c m w)
   }"

section \<open>Responses\<close>

text \<open>The stray response is freed before its error flags are set.\<close>

definition responseFilter :: "nat \<Rightarrow> nat \<Rightarrow> world \<Rightarrow> (bool \<times> world) option" where
  "responseFilter c m w =
     (if msg_empty (w_msgs w m) then do { w \<leftarrow> freeMsg c (Some m) False w; Some (True, w) }
      else case q_front (c_omsg_q (w_conns w c)) of
          None \<Rightarrow> do {
            w \<leftarrow> freeMsg c (Some m) False w;
            Some (True, upd_msg m (\<lambda>x. x\<lparr>m_err := EINVAL, m_done := True\<rparr>) w)
          }
        | Some pmsg \<Rightarrow> Some (False, w))"

definition responseForward :: "nat \<Rightarrow> nat \<Rightarrow> world \<Rightarrow> world option" where
  "responseForward c m w = do {
     _ \<leftarrow> getContext c w;
     pmsg \<leftarrow> q_front (c_omsg_q (w_conns w c));
     let w = dequeueOutput c pmsg w;
     let w = upd_msg pmsg (\<lambda>x. x\<lparr>m_done := True\<rparr>) w;
     let w = upd_msg pmsg (\<lambda>x. x\<lparr>m_peer := Some m\<rparr>) w;
     let w = upd_msg m (\<lambda>x. x\<lparr>m_peer := Some pmsg\<rparr>) w;
     c_conn \<leftarrow> rb_data (rb_nodes (w_rb w) pmsg);
     case q_front (c_omsg_q (w_conns w c_conn)) of
       None \<Rightarrow> Some w
     | Some msg \<Rightarrow>
         if requestDone (Some msg) then
           (let (status, w) = on_conn c_conn ev_addOutput w in
            if status \<noteq> NC_OK then Some (upd_conn c_conn (conn_setError (w_errno w)) w) else Some w)
         else Some w
   }"

end
