(* ===== verification/NcClient.thy ===== *)
theory NcClient
  imports NcMessage
begin

text \<open>
  \<^verbatim>\<open>nc_client.cpp\<close>: the connection to a client. Its owner is the server pool, written as the
  number 0. A result \<open>None\<close> of the pointer functions \<open>recvNext\<close> and \<open>sendNext\<close> is the null
  pointer inside the pair, the outer \<open>None\<close> a crash.
\<close>

definition client_ref :: "nat \<Rightarrow> world \<Rightarrow> world" where
  "client_ref c w =
     (let w = upd_conn c (\<lambda>x. x\<lparr>c_owner := Some 0\<rparr>) w;
          w = upd_conn c (\<lambda>x. x\<lparr>c_family := 0, c_addrlen := 0\<rparr>) w
      in upd_sp (\<lambda>p. p\<lparr>sp_nc_conn_q := sp_nc_conn_q p + 1, sp_c_conn_q := q_push c (sp_c_conn_q p)\<rparr>) w)"

definition client_unref :: "nat \<Rightarrow> world \<Rightarrow> world option" where
  "client_unref c w =
     (if c_owner (w_conns w c) = None then None
      else
        let w = upd_conn c (\<lambda>x. x\<lparr>c_owner := None\<rparr>) w
        in Some (upd_sp (\<lambda>p. p\<lparr>sp_nc_conn_q := sp_nc_conn_q p - 1, sp_c_conn_q := q_remove c (sp_c_conn_q p)\<rparr>) w))"

definition client_active :: "conn \<Rightarrow> bool" where
  "client_active x \<longleftrightarrow> c_omsg_q x \<noteq> [] \<or> c_rmsg x \<noteq> None \<or> c_smsg x \<noteq> None"

text \<open>The loop of \<open>close()\<close> over the outstanding requests.\<close>

fun client_discard :: "nat \<Rightarrow> nat list \<Rightarrow> world \<Rightarrow> world option" where
  "client_discard c [] w = Some w"
| "client_discard c (m # ms) w =
     (if m_done (w_msgs w m) then do { w \<leftarrow> freeMsg c (Some m) True w; client_discard c ms w }
      else client_discard c ms (upd_msg m (\<lambda>x. x\<lparr>m_swallow := True\<rparr>) w))"

definition client_close :: "nat \<Rightarrow> world \<Rightarrow> world option" where
  "client_close c w = do {
     _ \<leftarrow> getContext c w;
     if c_sd (w_conns w c) < 0 then do {
       w \<leftarrow> client_unref c w;
       Some (free_client c w)
     } else do {
       w \<leftarrow> (case c_rmsg (w_conns w c) of
           None \<Rightarrow> Some w
         | Some m \<Rightarrow> freeMsg c (Some m) True (upd_conn c (\<lambda>x. x\<lparr>c_rmsg := None\<rparr>) w));
       w \<leftarrow> client_discard c (c_omsg_q (w_conns w c)) w;
       w \<leftarrow> client_unref c w;
       let (_, w) = sys w;
       let w = upd_conn c (conn_setSd (- 1)) w;
       Some (free_client c w)
     }
   }"

definition client_recvNext :: "nat \<Rightarrow> bool \<Rightarrow> world \<Rightarrow> (nat option \<times> world) option" where
  "client_recvNext c alloc w = do {
     _ \<leftarrow> getContext c w;
     let msg = c_rmsg (w_conns w c);
     if c_eof (w_conns w c) then do {
       w \<leftarrow> (case msg of
           None \<Rightarrow> Some w
         | Some m \<Rightarrow> freeMsg c (Some m) True (upd_conn c (\<lambda>x. x\<lparr>c_rmsg := None\<rparr>) w));
       let w = (if \<not> client_active (w_conns w c) then upd_conn c (\<lambda>x. x\<lparr>c_done := True\<rparr>) w else w);
       Some (None, w)
     }
     else if msg \<noteq> None then Some (msg, w)
     else if \<not> alloc then Some (None, w)
     else
       let (m, w) = alloc_msg w;
           w = upd_conn c (\<lambda>x. x\<lparr>c_rmsg := Some m\<rparr>) w;
           w = upd_rb m (\<lambda>n. n\<lparr>rb_data := Some c\<rparr>) w
       in Some (Some m, w)
   }"

text \<open>\<open>recvDone(cmsg, rmsg)\<close>. The queue of fragments is a local that stays empty.\<close>

definition client_recvDone :: "nat \<Rightarrow> nat \<Rightarrow> nat option \<Rightarrow> world \<Rightarrow> world option" where
  "client_recvDone c cmsg rmsg w = do {
     _ \<leftarrow> getContext c w;
     let w = upd_conn c (\<lambda>x. x\<lparr>c_rmsg := rmsg\<rparr>) w;
     (filtered, w) \<leftarrow> requestFilter c cmsg w;
     if filtered then Some w
     else if m_noforward (w_msgs w cmsg) then do {
       (status, w) \<leftarrow> requestMakeReply c cmsg w;
       if status \<noteq> NC_OK then Some (upd_conn c (conn_setError (w_errno w)) w)
       else if msg_reply \<noteq> NC_OK then Some (upd_conn c (conn_setError (w_errno w)) w)
       else
         let (status, w) = on_conn c ev_addOutput w in
         if status \<noteq> NC_OK then Some (upd_conn c (conn_setError (w_errno w)) w) else Some w
     }
     else requestForward c cmsg w
   }"

definition client_sendNext :: "nat \<Rightarrow> world \<Rightarrow> (nat option \<times> world) option" where
  "client_sendNext c w = do {
     _ \<leftarrow> getContext c w;
     case q_front (c_omsg_q (w_conns w c)) of
       None \<Rightarrow>
         (let w = (if c_eof (w_conns w c) then upd_conn c (\<lambda>x. x\<lparr>c_done := True\<rparr>) w else w);
              (status, w) = on_conn c ev_delOutput w
          in Some (None, if status \<noteq> NC_OK then upd_conn c (conn_setError (w_errno w)) w else w))
     | Some pmsg \<Rightarrow>
         if c_smsg (w_conns w c) \<noteq> None then Some (None, upd_conn c (\<lambda>x. x\<lparr>c_smsg := None\<rparr>) w)
         else
           let msg = m_peer (w_msgs w pmsg)
           in Some (msg, upd_conn c (\<lambda>x. x\<lparr>c_smsg := msg\<rparr>) w)
   }"

definition client_sendDone :: "nat \<Rightarrow> nat \<Rightarrow> world \<Rightarrow> world option" where
  "client_sendDone c m w =
     (let pmsg = m_peer (w_msgs w m);
          w = (case pmsg of None \<Rightarrow> w | Some p \<Rightarrow> dequeueOutput c p w)
      in freeMsg c pmsg True w)"

end
