(* ===== verification/NcServerConn.thy ===== *)
theory NcServerConn
  imports NcMessage
begin

text \<open>
  The class \<open>NcServerConn\<close> of \<^verbatim>\<open>nc_server.cpp\<close>: the connection to a server. Its owner is the
  position of the server in the pool.
\<close>

definition server_ref :: "nat \<Rightarrow> nat \<Rightarrow> world \<Rightarrow> world option" where
  "server_ref c j w =
     (if j \<ge> length (sp_server (w_sp w)) then None
      else
        let s = sp_server (w_sp w) ! j;
            (status, info) = ncResolve (w_gai w) (Some (sv_addrstr s)) (uint (sv_port s)) (sv_info s);
            w = upd_server j (\<lambda>s. s\<lparr>sv_info := info\<rparr>) w;
            w = (if status \<noteq> NC_OK then upd_conn c (\<lambda>x. x\<lparr>c_err := EHOSTDOWN, c_done := True\<rparr>) w else w);
            w = upd_conn c (\<lambda>x. x\<lparr>c_family := si_family info, c_addrlen := si_addrlen info\<rparr>) w;
            w = upd_server j (\<lambda>s. s\<lparr>sv_ns_conn_q := sv_ns_conn_q s + 1\<rparr>) w;
            w = upd_server j (\<lambda>s. s\<lparr>sv_conn_q := q_push (Some c) (sv_conn_q s)\<rparr>) w
        in Some (upd_conn c (\<lambda>x. x\<lparr>c_owner := Some j\<rparr>) w))"

definition server_unref :: "nat \<Rightarrow> world \<Rightarrow> world option" where
  "server_unref c w = do {
     j \<leftarrow> c_owner (w_conns w c);
     let w = upd_conn c (\<lambda>x. x\<lparr>c_owner := None\<rparr>) w;
     let w = upd_server j (\<lambda>s. s\<lparr>sv_ns_conn_q := sv_ns_conn_q s - 1\<rparr>) w;
     Some (upd_server j (\<lambda>s. s\<lparr>sv_conn_q := q_remove (Some c) (sv_conn_q s)\<rparr>) w)
   }"

definition server_active :: "conn \<Rightarrow> bool" where
  "server_active x \<longleftrightarrow> c_imsg_q x \<noteq> [] \<or> c_omsg_q x \<noteq> [] \<or> c_rmsg x \<noteq> None \<or> c_smsg x \<noteq> None"

text \<open>\<open>close()\<close> has no body yet.\<close>

definition server_close :: "nat \<Rightarrow> world \<Rightarrow> world option" where
  "server_close c w = Some w"

text \<open>The error exit of \<open>connect()\<close>.\<close>

definition connect_error :: "nat \<Rightarrow> rstatus \<Rightarrow> world \<Rightarrow> rstatus \<times> world" where
  "connect_error c status w = (status, upd_conn c (conn_setError (w_errno w)) w)"

text \<open>\<open>NcUtil::ncSetNonBlocking\<close> on the script of status results.\<close>

definition sys_nonblock :: "world \<Rightarrow> int \<times> world" where
  "sys_nonblock w = (let (flags, w) = sys w in if flags < 0 then (flags, w) else sys w)"

text \<open>The calls of \<open>connect()\<close> from \<^verbatim>\<open>socket\<close> on.\<close>

definition connect_socket :: "nat \<Rightarrow> server \<Rightarrow> world \<Rightarrow> rstatus \<times> world" where
  "connect_socket c s w =
     (let (sd, w) = sys w; w = upd_conn c (conn_setSd sd) w in
      if sd < 0 then connect_error c NC_ERROR w
      else
        let (status, w) = sys_nonblock w in
        if status \<noteq> NC_OK then connect_error c status w
        else
          let (_, w) = (if hd (sv_name s @ [0]) \<noteq> 47 then sys w else (0, w));
              (status, w) = on_conn c (ev_addConn (EVENT_READ OR EVENT_WRITE)) w in
          if status \<noteq> NC_OK then connect_error c status w
          else
            let (status, w) = sys w in
            if status \<noteq> NC_OK then
              if w_errno w = EINPROGRESS then (NC_OK, upd_conn c (\<lambda>x. x\<lparr>c_connecting := True\<rparr>) w)
              else connect_error c status w
            else (NC_OK, upd_conn c (\<lambda>x. x\<lparr>c_connected := True\<rparr>) w))"

definition server_connect :: "nat \<Rightarrow> world \<Rightarrow> (rstatus \<times> world) option" where
  "server_connect c w = do {
     j \<leftarrow> c_owner (w_conns w c);
     if c_err (w_conns w c) \<noteq> 0 then
       Some (NC_ERROR, w\<lparr>w_os := (w_os w)\<lparr>os_errno := c_err (w_conns w c)\<rparr>\<rparr>)
     else if c_sd (w_conns w c) > 0 then Some (NC_OK, w)
     else Some (connect_socket c (sp_server (w_sp w) ! j) w)
   }"

text \<open>
  \<open>sendNext()\<close>: the first request, or the second one when a message is being sent already.
\<close>

definition server_sendNext :: "nat \<Rightarrow> world \<Rightarrow> (nat option \<times> world) option" where
  "server_sendNext c w = do {
     _ \<leftarrow> getContext c w;
     w \<leftarrow> (if c_connecting (w_conns w c) then map_option snd (server_connect c w) else Some w);
     case c_imsg_q (w_conns w c) of
       [] \<Rightarrow>
         (let (status, w) = on_conn c ev_delOutput w
          in Some (None, if status \<noteq> NC_OK then upd_conn c (conn_setError (w_errno w)) w else w))
     | m # ms \<Rightarrow>
         let nmsg = (if c_smsg (w_conns w c) \<noteq> None then (case ms of [] \<Rightarrow> None | m' # _ \<Rightarrow> Some m') else Some m)
         in Some (nmsg, upd_conn c (\<lambda>x. x\<lparr>c_smsg := nmsg\<rparr>) w)
   }"

definition server_sendDone :: "nat \<Rightarrow> nat \<Rightarrow> world \<Rightarrow> world option" where
  "server_sendDone c m w =
     (let w = dequeueInput c m w in
      if \<not> m_noreply (w_msgs w m) then Some (enqueueOutput c m w) else freeMsg c (Some m) True w)"

definition server_recvNext :: "nat \<Rightarrow> bool \<Rightarrow> world \<Rightarrow> (nat option \<times> world) option" where
  "server_recvNext c alloc w = do {
     _ \<leftarrow> getContext c w;
     let msg = c_rmsg (w_conns w c);
     if c_eof (w_conns w c) then do {
       w \<leftarrow> (case msg of
           None \<Rightarrow> Some w
         | Some m \<Rightarrow> freeMsg c (Some m) False (upd_conn c (\<lambda>x. x\<lparr>c_rmsg := None\<rparr>) w));
       Some (None, upd_conn c (\<lambda>x. x\<lparr>c_done := True\<rparr>) w)
     }
     else if msg \<noteq> None then Some (msg, w)
     else if \<not> alloc then Some (None, w)
     else let (m, w) = alloc_msg w in Some (Some m, upd_conn c (\<lambda>x. x\<lparr>c_rmsg := Some m\<rparr>) w)
   }"

definition server_recvDone :: "nat \<Rightarrow> nat \<Rightarrow> nat option \<Rightarrow> world \<Rightarrow> world option" where
  "server_recvDone c cmsg rmsg w = do {
     let w = upd_conn c (\<lambda>x. x\<lparr>c_rmsg := rmsg\<rparr>) w;
     (filtered, w) \<leftarrow> responseFilter c cmsg w;
     if filtered then Some w else responseForward c cmsg w
   }"

text \<open>\<open>NcServer::preconnect\<close>.\<close>

definition server_preconnect :: "nat \<Rightarrow> world \<Rightarrow> (rstatus \<times> world) option" where
  "server_preconnect j w =
     (case server_getConn j w of
        (None, w) \<Rightarrow> Some (NC_ENOMEM, w)
      | (Some c, w) \<Rightarrow> do {
          (status, w) \<leftarrow> server_connect c w;
          w \<leftarrow> (if status \<noteq> NC_OK then server_close c w else Some w);
          Some (NC_OK, w)
        })"

end
