(* ===== verification/NcProxy.thy ===== *)
theory NcProxy
  imports NcClient NcServerConn
begin

text \<open>
  \<^verbatim>\<open>nc_proxy.cpp\<close>: the listening connection and the acceptance of clients. Its owner is the
  server pool, written as the number 0.
\<close>

definition proxy_ref :: "nat \<Rightarrow> world \<Rightarrow> world" where
  "proxy_ref c w =
     (let info = sp_info (w_sp w);
          w = upd_conn c (\<lambda>x. x\<lparr>c_owner := Some 0, c_family := si_family info, c_addrlen := si_addrlen info\<rparr>) w
      in upd_sp (\<lambda>p. p\<lparr>sp_p_conn := Some c\<rparr>) w)"

definition proxy_unref :: "nat \<Rightarrow> world \<Rightarrow> world option" where
  "proxy_unref c w =
     (if c_owner (w_conns w c) = None then None
      else Some (upd_sp (\<lambda>p. p\<lparr>sp_p_conn := None\<rparr>) (upd_conn c (\<lambda>x. x\<lparr>c_owner := None\<rparr>) w)))"

definition proxy_active :: "conn \<Rightarrow> bool" where "proxy_active x \<longleftrightarrow> True"

definition proxy_close :: "nat \<Rightarrow> world \<Rightarrow> world option" where
  "proxy_close c w = do {
     _ \<leftarrow> getContext c w;
     w \<leftarrow> proxy_unref c w;
     if c_sd (w_conns w c) < 0 then Some (free_proxy c w)
     else
       let (_, w) = sys w;
           w = upd_conn c (conn_setSd (- 1)) w
       in Some (free_proxy c w)
   }"

text \<open>\<open>reuse()\<close>: 2 and 10 are \<^verbatim>\<open>AF_INET\<close> and \<^verbatim>\<open>AF_INET6\<close>.\<close>

definition proxy_reuse :: "nat \<Rightarrow> world \<Rightarrow> rstatus \<times> world" where
  "proxy_reuse c w =
     (let family = c_family (w_conns w c) in
      if family = 2 \<or> family = 10 then sys w
      else if family = AF_UNIX then (let (_, w) = sys w in (NC_OK, w))
      else (NC_ERROR, w))"

definition proxy_listen :: "nat \<Rightarrow> world \<Rightarrow> (rstatus \<times> world) option" where
  "proxy_listen c w = do {
     _ \<leftarrow> c_owner (w_conns w c);
     let (sd, w) = sys w;
     let w = upd_conn c (conn_setSd sd) w;
     if sd < 0 then Some (NC_ERROR, w)
     else do {
       let (status, w) = proxy_reuse c w;
       if status < 0 then Some (NC_ERROR, w)
       else do {
         let (status, w) = sys w;
         if status < 0 then Some (NC_ERROR, w)
         else do {
           let (status, w) =
             (if c_family (w_conns w c) = AF_UNIX \<and> sp_perm (w_sp w) \<noteq> 0 then sys w else (0, w));
           if status < 0 then Some (NC_ERROR, w)
           else do {
             let (status, w) = sys w;
             if status < 0 then Some (NC_ERROR, w)
             else do {
               let (status, w) = sys_nonblock w;
               if status < 0 then Some (NC_ERROR, w)
               else do {
                 let (status, w) = on_conn c (ev_addConn (EVENT_READ OR EVENT_WRITE)) w;
                 if status < 0 then Some (NC_ERROR, w)
                 else
                   let (status, w) = on_conn c ev_delOutput w
                   in Some (if status < 0 then NC_ERROR else NC_OK, w)
               }
             }
           }
         }
       }
     }
   }"

text \<open>
  The loop around \<^verbatim>\<open>accept\<close>: \<open>Inl\<close> is the status to return, \<open>Inr\<close> the new descriptor. The
  answers come from the script of system results; when it is used up, nobody is waiting.
\<close>

fun accept_loop :: "nat \<Rightarrow> int list \<Rightarrow> world \<Rightarrow> (rstatus + int) \<times> world" where
  "accept_loop c [] w = (Inl NC_OK, upd_conn c (\<lambda>x. x\<lparr>c_recv_ready := False\<rparr>) (w\<lparr>w_sys := []\<rparr>))"
| "accept_loop c (r # rs) w =
     (let w = w\<lparr>w_sys := rs\<rparr> in
      if r \<ge> 0 then (Inr r, w)
      else
        let e = - r; w = w\<lparr>w_os := (w_os w)\<lparr>os_errno := e\<rparr>\<rparr> in
        if e = EINTR then accept_loop c rs w
        else if e = EAGAIN \<or> e = ECONNABORTED \<or> e = EMFILE \<or> e = ENFILE then
          (Inl NC_OK, upd_conn c (\<lambda>x. x\<lparr>c_recv_ready := False\<rparr>) w)
        else (Inl NC_ERROR, w))"

text \<open>\<open>accept()\<close> after a descriptor \<open>sd\<close> was returned.\<close>

definition accept_client :: "nat \<Rightarrow> int \<Rightarrow> world \<Rightarrow> (rstatus \<times> world) option" where
  "accept_client c sd w =
     (if st_curc (w_st w) \<ge> w_max_ncconn w then (let (_, w) = sys w in Some (NC_OK, w))
      else
        let (conn, w) = alloc_client w;
            w = upd_conn conn (conn_setSd sd) w;
            w = client_ref conn w;
            (status, w) = sys_nonblock w in
        if status < 0 then do { w \<leftarrow> client_close conn w; Some (status, w) }
        else
          let (_, w) = (if sp_tcpkeepalive (w_sp w) then sys w else (0, w));
              family = c_family (w_conns w c);
              (_, w) = (if family = 2 \<or> family = 10 then sys w else (0, w));
              (status, w) = on_conn conn (ev_addConn EVENT_READ) w in
          if status < 0 then do { w \<leftarrow> client_close conn w; Some (status, w) }
          else Some (NC_OK, w))"

definition proxy_accept :: "nat \<Rightarrow> world \<Rightarrow> (rstatus \<times> world) option" where
  "proxy_accept c w = do {
     _ \<leftarrow> getContext c w;
     case accept_loop c (w_sys w) w of
       (Inl status, w) \<Rightarrow> Some (status, w)
     | (Inr sd, w) \<Rightarrow> accept_client c sd w
   }"

text \<open>\<open>recvMsg()\<close> of the proxy accepts until there is nothing to accept.\<close>

partial_function (option) proxy_recv_loop :: "nat \<Rightarrow> world \<Rightarrow> (rstatus \<times> world) option" where
  "proxy_recv_loop c w = do {
     (status, w) \<leftarrow> proxy_accept c w;
     if status \<noteq> NC_OK then Some (status, w)
     else if c_recv_ready (w_conns w c) then proxy_recv_loop c w
     else Some (NC_OK, w)
   }"

definition proxy_recvMsg :: "nat \<Rightarrow> world \<Rightarrow> (rstatus \<times> world) option" where
  "proxy_recvMsg c w = proxy_recv_loop c (upd_conn c (\<lambda>x. x\<lparr>c_recv_ready := True\<rparr>) w)"

definition proxy_sendMsg :: "nat \<Rightarrow> world \<Rightarrow> (rstatus \<times> world) option" where
  "proxy_sendMsg c w = Some (NC_OK, w)"

end
