(* ===== verification/NcConnection.thy ===== *)
theory NcConnection
  imports NcProxy
begin

text \<open>
  \<^verbatim>\<open>nc_connection.cpp\<close> and the parser part of \<^verbatim>\<open>nc_message.cpp\<close>: receiving into a message,
  parsing it, sending a chain of messages, and the callback of the event base. The virtual
  functions are resolved by the kind of the connection.
\<close>

section \<open>Virtual functions\<close>

definition conn_recvNext :: "nat \<Rightarrow> bool \<Rightarrow> world \<Rightarrow> (nat option \<times> world) option" where
  "conn_recvNext c alloc w =
     (case c_kind (w_conns w c) of
        CLIENT \<Rightarrow> client_recvNext c alloc w
      | SERVER \<Rightarrow> server_recvNext c alloc w
      | PROXY \<Rightarrow> Some (None, w))"

definition conn_recvDone :: "nat \<Rightarrow> nat \<Rightarrow> nat option \<Rightarrow> world \<Rightarrow> world option" where
  "conn_recvDone c cmsg rmsg w =
     (case c_kind (w_conns w c) of
        CLIENT \<Rightarrow> client_recvDone c cmsg rmsg w
      | SERVER \<Rightarrow> server_recvDone c cmsg rmsg w
      | PROXY \<Rightarrow> Some w)"

definition conn_sendNext :: "nat \<Rightarrow> world \<Rightarrow> (nat option \<times> world) option" where
  "conn_sendNext c w =
     (case c_kind (w_conns w c) of
        CLIENT \<Rightarrow> client_sendNext c w
      | SERVER \<Rightarrow> server_sendNext c w
      | PROXY \<Rightarrow> Some (None, w))"

definition conn_sendDone :: "nat \<Rightarrow> nat \<Rightarrow> world \<Rightarrow> world option" where
  "conn_sendDone c m w =
     (case c_kind (w_conns w c) of
        CLIENT \<Rightarrow> client_sendDone c m w
      | SERVER \<Rightarrow> server_sendDone c m w
      | PROXY \<Rightarrow> Some w)"

definition conn_close :: "nat \<Rightarrow> world \<Rightarrow> world option" where
  "conn_close c w =
     (case c_kind (w_conns w c) of
        CLIENT \<Rightarrow> client_close c w
      | SERVER \<Rightarrow> server_close c w
      | PROXY \<Rightarrow> proxy_close c w)"

section \<open>Parsing\<close>

text \<open>\<open>mbuf->split(pos)\<close> makes its new mbuf with \<^verbatim>\<open>new\<close>, not from the pool; \<open>pos\<close> has to point
  into the mbuf.\<close>

definition split_mbuf :: "nat \<Rightarrow> (nat \<times> nat) option \<Rightarrow> world \<Rightarrow> (nat \<times> world) option" where
  "split_mbuf b pos w = do {
     (pb, off) \<leftarrow> pos;
     if pb \<noteq> b then None
     else do {
       let chunk = st_chunk (w_st w);
       (old, new) \<leftarrow> mbuf_split (map (w_junk w) [0..<unat chunk]) chunk off (w_mbufs w b);
       let n = w_nmbuf w;
       Some (n, w\<lparr>w_mbufs := (w_mbufs w)(b := old, n := new), w_nmbuf := n + 1\<rparr>)
     }
   }"

definition parseDone :: "nat \<Rightarrow> nat \<Rightarrow> world \<Rightarrow> (rstatus \<times> world) option" where
  "parseDone c m w = do {
     _ \<leftarrow> getContext c w;
     case q_back (m_mbuf_q (w_msgs w m)) of
       None \<Rightarrow> Some (NC_ENOMEM, w)
     | Some b \<Rightarrow>
         if m_pos (w_msgs w m) = Some (b, b_last (w_mbufs w b)) then do {
           w \<leftarrow> conn_recvDone c m None w;
           Some (NC_OK, w)
         } else do {
           (nb, w) \<leftarrow> split_mbuf b (m_pos (w_msgs w m)) w;
           let (nm, w) = alloc_msg w;
           let w = upd_msg nm (\<lambda>x. x\<lparr>m_mbuf_q := q_push nb (m_mbuf_q x)\<rparr>) w;
           let w = upd_msg nm (msg_setPos (Some (nb, b_pos (w_mbufs w nb)))) w;
           let w = upd_msg nm (msg_setLength (mbuf_length (w_mbufs w nb))) w;
           let w = upd_msg m (\<lambda>x. x\<lparr>m_mlen := m_mlen x - m_mlen (w_msgs w nm)\<rparr>) w;
           w \<leftarrow> conn_recvDone c m (Some nm) w;
           Some (NC_OK, w)
         }
   }"

definition repairDone :: "nat \<Rightarrow> world \<Rightarrow> (rstatus \<times> world) option" where
  "repairDone m w =
     (case q_back (m_mbuf_q (w_msgs w m)) of
        None \<Rightarrow> Some (NC_ERROR, w)
      | Some b \<Rightarrow> do {
          (nb, w) \<leftarrow> split_mbuf b (m_pos (w_msgs w m)) w;
          let w = upd_msg m (\<lambda>x. x\<lparr>m_mbuf_q := q_push nb (m_mbuf_q x)\<rparr>) w;
          let w = upd_msg m (msg_setPos (Some (nb, b_pos (w_mbufs w nb)))) w;
          Some (NC_OK, w)
        })"

text \<open>
  \<open>parse()\<close>. The parser is a stub: as long as its static counter is not negative it accepts
  everything that was read. The counter is an \<open>int\<close> and overflows after \<open>2 ^ 31\<close> calls.
\<close>

definition msg_parse :: "nat \<Rightarrow> nat \<Rightarrow> world \<Rightarrow> (rstatus \<times> world) option" where
  "msg_parse c m w =
     (if msg_empty (w_msgs w m) then do {
        w \<leftarrow> conn_recvDone c m None w;
        Some (NC_OK, w)
      } else do {
        w \<leftarrow> (if w_testi w \<ge> 0 then do {
               b \<leftarrow> q_back (m_mbuf_q (w_msgs w m));
               Some (upd_msg m (\<lambda>x. x\<lparr>m_result := PARSE_OK, m_pos := Some (b, b_last (w_mbufs w b))\<rparr>) w)
             } else Some w);
        if w_testi w + 1 \<ge> 2 ^ 31 then None
        else do {
          let w = w\<lparr>w_testi := w_testi w + 1\<rparr>;
          (status, w) \<leftarrow> (case m_result (w_msgs w m) of
              PARSE_OK \<Rightarrow> parseDone c m w
            | PARSE_REPAIR \<Rightarrow> repairDone m w
            | PARSE_AGAIN \<Rightarrow> Some (NC_OK, w)
            | PARSE_ERROR \<Rightarrow> Some (NC_ERROR, upd_conn c (conn_setError (w_errno w)) w));
          Some (if c_err (w_conns w c) \<noteq> 0 then NC_ERROR else status, w)
        }
      })"

section \<open>Receiving\<close>

text \<open>The loop that parses the message and those split from it.\<close>

partial_function (option) parse_loop :: "nat \<Rightarrow> nat \<Rightarrow> world \<Rightarrow> (rstatus \<times> world) option" where
  "parse_loop c m w = do {
     (status, w) \<leftarrow> msg_parse c m w;
     if status \<noteq> NC_OK then Some (status, w)
     else do {
       (nmsg, w) \<leftarrow> conn_recvNext c False w;
       case nmsg of
         None \<Rightarrow> Some (NC_OK, w)
       | Some n \<Rightarrow> if n = m then Some (NC_OK, w) else parse_loop c n w
     }
   }"

text \<open>The mbuf to read into: the last one of the message, or a new one if that is full.\<close>

definition recv_mbuf :: "nat \<Rightarrow> world \<Rightarrow> (nat \<times> world) option" where
  "recv_mbuf m w =
     (case q_back (m_mbuf_q (w_msgs w m)) of
        Some b \<Rightarrow>
          if \<not> mbuf_full (w_mbufs w b) then Some (b, w)
          else do {
            (b, w) \<leftarrow> alloc_mbuf w;
            let w = upd_msg m (\<lambda>x. x\<lparr>m_mbuf_q := q_push b (m_mbuf_q x)\<rparr>) w;
            Some (b, upd_msg m (msg_setPos (Some (b, b_pos (w_mbufs w b)))) w)
          }
      | None \<Rightarrow> do {
          (b, w) \<leftarrow> alloc_mbuf w;
          let w = upd_msg m (\<lambda>x. x\<lparr>m_mbuf_q := q_push b (m_mbuf_q x)\<rparr>) w;
          Some (b, upd_msg m (msg_setPos (Some (b, b_pos (w_mbufs w b)))) w)
        })"

definition recvChain :: "nat \<Rightarrow> nat \<Rightarrow> world \<Rightarrow> (rstatus \<times> world) option" where
  "recvChain c m w = do {
     _ \<leftarrow> getContext c w;
     (b, w) \<leftarrow> recv_mbuf m w;
     let ((n, bs), w) = on_conn c (conn_recv (unat (mbuf_size (w_mbufs w b)))) w;
     x \<leftarrow> mbuf_write (b_last (w_mbufs w b)) bs (w_mbufs w b);
     let w = upd_mbuf b (\<lambda>_. x) w;
     if n < 0 then Some (if n = NC_EAGAIN then NC_OK else NC_ERROR, w)
     else do {
       let w = upd_mbuf b (mbuf_setLast (nat n)) w;
       let w = upd_msg m (msg_setLength (of_int n)) w;
       parse_loop c m w
     }
   }"

partial_function (option) recv_loop :: "nat \<Rightarrow> world \<Rightarrow> (rstatus \<times> world) option" where
  "recv_loop c w = do {
     (msg, w) \<leftarrow> conn_recvNext c True w;
     case msg of
       None \<Rightarrow> Some (NC_OK, w)
     | Some m \<Rightarrow> do {
         (status, w) \<leftarrow> recvChain c m w;
         if status \<noteq> NC_OK then Some (status, w)
         else if c_recv_ready (w_conns w c) then recv_loop c w
         else Some (NC_OK, w)
       }
   }"

definition conn_recvMsg :: "nat \<Rightarrow> world \<Rightarrow> (rstatus \<times> world) option" where
  "conn_recvMsg c w =
     (if c_kind (w_conns w c) = PROXY then proxy_recvMsg c w
      else recv_loop c (upd_conn c (\<lambda>x. x\<lparr>c_recv_ready := True\<rparr>) w))"

section \<open>Sending\<close>

definition NC_IOV_MAX :: nat where "NC_IOV_MAX = 128"
definition SSIZE_MAX :: nat where "SSIZE_MAX = 2 ^ 63 - 1"

text \<open>The \<^verbatim>\<open>iovec\<close>s for a queue of mbufs; \<open>None\<close> is a write behind the array \<open>iov\<close>.\<close>

fun gather_mbufs :: "world \<Rightarrow> nat list \<Rightarrow> bytes list \<Rightarrow> nat \<Rightarrow> (bytes list \<times> nat) option" where
  "gather_mbufs w [] iov nsend = Some (iov, nsend)"
| "gather_mbufs w (b # bs) iov nsend =
     (if nsend \<ge> SSIZE_MAX then Some (iov, nsend)
      else if mbuf_empty (w_mbufs w b) then gather_mbufs w bs iov nsend
      else
        let mlen = unat (mbuf_length (w_mbufs w b));
            mlen = (if nsend + mlen > SSIZE_MAX then SSIZE_MAX - nsend else mlen);
            pos = b_pos (w_mbufs w b) in
        if length iov \<ge> NC_IOV_MAX then None
        else do {
          v \<leftarrow> mbuf_range pos (pos + mlen) (w_mbufs w b);
          gather_mbufs w bs (iov @ [v]) (nsend + mlen)
        })"

text \<open>
  The loop that collects messages: \<open>first\<close> is the message whose queue of mbufs the pointer
  \<open>mbuf_queue\<close> was set to before the loop.
\<close>

partial_function (option) gather ::
  "nat \<Rightarrow> nat \<Rightarrow> nat \<Rightarrow> nat list \<Rightarrow> bytes list \<Rightarrow> nat \<Rightarrow> world \<Rightarrow> (nat list \<times> bytes list \<times> nat \<times> world) option" where
  "gather c first cmsg msgq iov nsend w = do {
     let msgq = q_push cmsg msgq;
     (iov, nsend) \<leftarrow> gather_mbufs w (m_mbuf_q (w_msgs w first)) iov nsend;
     if length iov \<ge> NC_IOV_MAX \<or> nsend > SSIZE_MAX then Some (msgq, iov, nsend, w)
     else do {
       (next, w) \<leftarrow> conn_sendNext c w;
       case next of
         None \<Rightarrow> Some (msgq, iov, nsend, w)
       | Some n \<Rightarrow> gather c first n msgq iov nsend w
     }
   }"

text \<open>
  What was sent is taken off the mbufs of a message. The result: are all its mbufs done, and
  how much of the sent bytes is left over?
\<close>

fun advance_mbufs :: "nat list \<Rightarrow> nat \<Rightarrow> world \<Rightarrow> bool \<times> nat \<times> world" where
  "advance_mbufs [] nsent w = (True, nsent, w)"
| "advance_mbufs (b # bs) nsent w =
     (if mbuf_empty (w_mbufs w b) then advance_mbufs bs nsent w
      else
        let mlen = unat (mbuf_length (w_mbufs w b)) in
        if nsent < mlen then (False, 0, upd_mbuf b (mbuf_setPos nsent) w)
        else advance_mbufs bs (nsent - mlen) (upd_mbuf b mbuf_setComplete w))"

text \<open>
  The loop over the messages. \<open>remove(*iter++)\<close> removes every occurrence of the message while
  the iterator already stands on the next one: if that is the same message, the iterator is
  left dangling, which is harmless only if the queue is empty then, since the loop tests this
  first (\<open>None\<close> otherwise).
\<close>

function account :: "nat \<Rightarrow> nat list \<Rightarrow> nat \<Rightarrow> world \<Rightarrow> world option" where
  "account c [] nsent w = Some w"
| "account c (m # ms) nsent w =
     (if ms \<noteq> [] \<and> hd ms = m \<and> q_remove m ms \<noteq> [] then None
      else
        let ms = q_remove m ms in
        if nsent = 0 then
          if m_mlen (w_msgs w m) = 0 then do { w \<leftarrow> conn_sendDone c m w; account c ms nsent w }
          else account c ms nsent w
        else
          (let (finished, nsent, w) = advance_mbufs (m_mbuf_q (w_msgs w m)) nsent w in
           if finished then do { w \<leftarrow> conn_sendDone c m w; account c ms nsent w }
           else account c ms nsent w))"
  by pat_completeness auto
termination
  by (relation "measure (\<lambda>(c, ms, nsent, w). length ms)")
    (auto simp: q_remove_def intro: le_less_trans [OF length_removeAll_less_eq])

definition sendChain :: "nat \<Rightarrow> nat \<Rightarrow> world \<Rightarrow> (rstatus \<times> world) option" where
  "sendChain c m w = do {
     _ \<leftarrow> getContext c w;
     (msgq, iov, nsend, w) \<leftarrow> gather c m m [] [] 0 w;
     let w = upd_conn c (\<lambda>x. x\<lparr>c_smsg := None\<rparr>) w;
     let (n, w) = (if msgq \<noteq> [] \<and> nsend \<noteq> 0 then on_conn c (conn_sendv iov) w else (0, w));
     let nsent = (if n > 0 then nat n else 0);
     w \<leftarrow> account c msgq nsent w;
     Some (if n > 0 then NC_OK else if n = NC_EAGAIN then NC_OK else NC_ERROR, w)
   }"

partial_function (option) send_loop :: "nat \<Rightarrow> world \<Rightarrow> (rstatus \<times> world) option" where
  "send_loop c w = do {
     (msg, w) \<leftarrow> conn_sendNext c w;
     case msg of
       None \<Rightarrow> Some (NC_OK, w)
     | Some m \<Rightarrow> do {
         (status, w) \<leftarrow> sendChain c m w;
         if status \<noteq> NC_OK then Some (status, w)
         else if c_send_ready (w_conns w c) then send_loop c w
         else Some (NC_OK, w)
       }
   }"

definition conn_sendMsg :: "nat \<Rightarrow> world \<Rightarrow> (rstatus \<times> world) option" where
  "conn_sendMsg c w =
     (if c_kind (w_conns w c) = PROXY then proxy_sendMsg c w
      else send_loop c (upd_conn c (\<lambda>x. x\<lparr>c_send_ready := True\<rparr>) w))"

section \<open>The callback\<close>

definition processClose :: "nat \<Rightarrow> world \<Rightarrow> world option" where
  "processClose c w = do {
     _ \<leftarrow> getContext c w;
     let (_, w) = on_conn c ev_delConn w;
     conn_close c w
   }"

text \<open>\<open>ncGetSoError\<close> sets \<^verbatim>\<open>errno\<close> to the pending error of the socket if it can read it.\<close>

definition processError :: "nat \<Rightarrow> world \<Rightarrow> world option" where
  "processError c w =
     (let (status, w) = sys w;
          w = (if status = 0 then let (e, w) = sys w in w\<lparr>w_os := (w_os w)\<lparr>os_errno := e\<rparr>\<rparr> else w);
          w = upd_conn c (conn_setError (w_errno w)) w
      in processClose c w)"

definition processRecv :: "nat \<Rightarrow> world \<Rightarrow> (rstatus \<times> world) option" where
  "processRecv c w = conn_recvMsg c w"

definition processSend :: "nat \<Rightarrow> world \<Rightarrow> (rstatus \<times> world) option" where
  "processSend c w = conn_sendMsg c w"

definition conn_failed :: "rstatus \<Rightarrow> conn \<Rightarrow> bool" where
  "conn_failed status x \<longleftrightarrow> status \<noteq> NC_OK \<or> c_done x \<or> c_err x \<noteq> 0"

definition conn_callback :: "nat \<Rightarrow> u32 \<Rightarrow> world \<Rightarrow> (rstatus \<times> world) option" where
  "conn_callback c events w = do {
     _ \<leftarrow> getContext c w;
     let w = upd_conn c (\<lambda>x. x\<lparr>c_events := events\<rparr>) w;
     if events AND EVENT_ERR \<noteq> 0 then do {
       w \<leftarrow> processError c w;
       Some (NC_ERROR, w)
     } else do {
       (failed, w) \<leftarrow> (if events AND EVENT_READ \<noteq> 0 then do {
             (status, w) \<leftarrow> processRecv c w;
             Some (conn_failed status (w_conns w c), w)
           } else Some (False, w));
       if failed then do { w \<leftarrow> processClose c w; Some (NC_ERROR, w) }
       else do {
         (failed, w) \<leftarrow> (if events AND EVENT_WRITE \<noteq> 0 then do {
               (status, w) \<leftarrow> processSend c w;
               Some (conn_failed status (w_conns w c), w)
             } else Some (False, w));
         if failed then do { w \<leftarrow> processClose c w; Some (NC_ERROR, w) }
         else Some (NC_OK, w)
       }
     }
   }"

end
