(* ===== verification/NcConf.thy ===== *)
theory NcConf
  imports NcString NcSys
begin

text \<open>
  \<^verbatim>\<open>nc_conf.h\<close> and \<^verbatim>\<open>nc_conf.cpp\<close>: the configuration. \<open>parse\<close> of an address line, the machine
  that turns the events of the YAML library into pools, and its loops. The library is a
  parameter: the parser is the list of the answers it is going to give. After the last event
  of a stream it answers with an empty event for ever (\<^verbatim>\<open>yaml_parser_parse\<close>).

  Objects come from \<^verbatim>\<open>malloc\<close>: members without initialiser hold what was in the memory, an
  argument \<open>junk\<close> of the constructors. \<open>None\<close> is a crash or a loop that does not end.
\<close>

section \<open>Defaults\<close>

definition CONF_ROOT_DEPTH :: u32 where "CONF_ROOT_DEPTH = 1"
definition CONF_DEFAULT_TIMEOUT :: int where "CONF_DEFAULT_TIMEOUT = - 1"
definition CONF_DEFAULT_LISTEN_BACKLOG :: int where "CONF_DEFAULT_LISTEN_BACKLOG = 512"
definition CONF_DEFAULT_CLIENT_CONNECTIONS :: int where "CONF_DEFAULT_CLIENT_CONNECTIONS = 0"
definition CONF_DEFAULT_PRECONNECT :: int where "CONF_DEFAULT_PRECONNECT = 0"
definition CONF_DEFAULT_AUTO_EJECT_HOSTS :: int where "CONF_DEFAULT_AUTO_EJECT_HOSTS = 0"
definition CONF_DEFAULT_SERVER_RETRY_TIMEOUT :: int where "CONF_DEFAULT_SERVER_RETRY_TIMEOUT = 30 * 1000"
definition CONF_DEFAULT_SERVER_FAILURE_LIMIT :: int where "CONF_DEFAULT_SERVER_FAILURE_LIMIT = 2"
definition CONF_DEFAULT_SERVER_CONNECTIONS :: int where "CONF_DEFAULT_SERVER_CONNECTIONS = 1"
definition CONF_DEFAULT_TCPKEEPALIVE :: int where "CONF_DEFAULT_TCPKEEPALIVE = 0"

lemmas conf_default_defs = CONF_DEFAULT_TIMEOUT_def CONF_DEFAULT_LISTEN_BACKLOG_def
  CONF_DEFAULT_CLIENT_CONNECTIONS_def CONF_DEFAULT_PRECONNECT_def CONF_DEFAULT_AUTO_EJECT_HOSTS_def
  CONF_DEFAULT_SERVER_RETRY_TIMEOUT_def CONF_DEFAULT_SERVER_FAILURE_LIMIT_def
  CONF_DEFAULT_SERVER_CONNECTIONS_def CONF_DEFAULT_TCPKEEPALIVE_def

section \<open>Classes\<close>

record conf_listen =
  cl_pname :: ncstring
  cl_name :: ncstring
  cl_port :: int
  cl_perm :: u32
  cl_info :: sockinfo
  cl_valid :: u32

record conf_server = conf_listen +
  cs_weight :: int
  cs_addrstr :: ncstring

record conf_pool =
  cp_name :: ncstring
  cp_listen :: conf_listen
  cp_hash_tag :: ncstring
  cp_distribution :: int
  cp_timeout :: int
  cp_backlog :: int
  cp_client_connections :: int
  cp_tcpkeepalive :: int
  cp_preconnect :: int
  cp_auto_eject_hosts :: int
  cp_server_connections :: int
  cp_server_retry_timeout :: int
  cp_server_failure_limit :: int
  cp_server :: "conf_server list"
  cp_valid :: u32

text \<open>The constructors, over the memory they get.\<close>

definition conf_listen_new :: "'a conf_listen_scheme \<Rightarrow> 'a conf_listen_scheme" where
  "conf_listen_new junk = junk\<lparr>cl_pname := str_new, cl_name := str_new, cl_valid := 0\<rparr>"

definition conf_server_new :: "conf_server \<Rightarrow> conf_server" where
  "conf_server_new junk = (conf_listen_new junk)\<lparr>cs_addrstr := str_new, cs_weight := 0\<rparr>"

definition conf_pool_new :: "conf_pool \<Rightarrow> conf_pool" where
  "conf_pool_new junk = junk\<lparr>cp_name := str_new, cp_listen := conf_listen_new (cp_listen junk),
     cp_hash_tag := str_new, cp_server := [], cp_timeout := CONF_DEFAULT_TIMEOUT,
     cp_backlog := CONF_DEFAULT_LISTEN_BACKLOG, cp_client_connections := CONF_DEFAULT_CLIENT_CONNECTIONS,
     cp_tcpkeepalive := CONF_DEFAULT_TCPKEEPALIVE, cp_preconnect := CONF_DEFAULT_PRECONNECT,
     cp_auto_eject_hosts := CONF_DEFAULT_AUTO_EJECT_HOSTS,
     cp_server_connections := CONF_DEFAULT_SERVER_CONNECTIONS,
     cp_server_retry_timeout := CONF_DEFAULT_SERVER_RETRY_TIMEOUT,
     cp_server_failure_limit := CONF_DEFAULT_SERVER_FAILURE_LIMIT\<rparr>"

section \<open>The library functions used\<close>

text \<open>
  \<^verbatim>\<open>strtol(s, NULL, 8)\<close>: leading space, a sign, octal digits; the value is clamped to a
  \<open>long\<close>, and the flag says that \<^verbatim>\<open>errno\<close> became \<^verbatim>\<open>ERANGE\<close>.
\<close>

definition c_isspace :: "byte \<Rightarrow> bool" where
  "c_isspace c \<longleftrightarrow> c = 32 \<or> 9 \<le> c \<and> c \<le> 13"

fun oct_value :: "int \<Rightarrow> bytes \<Rightarrow> int" where
  "oct_value v [] = v"
| "oct_value v (c # s) = (if 48 \<le> c \<and> c \<le> 55 then oct_value (v * 8 + digit c) s else v)"

definition c_strtol8 :: "bytes \<Rightarrow> int \<times> bool" where
  "c_strtol8 s =
     (let s = dropWhile c_isspace s;
          neg = (s \<noteq> [] \<and> hd s = 45);
          s = (if s \<noteq> [] \<and> (hd s = 45 \<or> hd s = 43) then tl s else s);
          v = (if neg then - oct_value 0 s else oct_value 0 s)
      in if v < - (2 ^ 63) then (- (2 ^ 63), True)
         else if v \<ge> 2 ^ 63 then (2 ^ 63 - 1, True)
         else (v, False))"

text \<open>
  The memory around a string, for \<open>nc_strrchr\<close>. A search that fails reads one byte in front of
  the string; what it finds there does not change its result, so it is written as 0.
\<close>

definition str_mem :: "ncstring \<Rightarrow> int \<Rightarrow> byte" where
  "str_mem s i = (if 0 \<le> i \<and> nat i < length (s_data s) then s_data s ! nat i else 0)"

definition str_slice :: "ncstring \<Rightarrow> int \<Rightarrow> int \<Rightarrow> bytes option" where
  "str_slice s a n =
     (if 0 \<le> a \<and> 0 \<le> n \<and> nat (a + n) \<le> length (s_data s) then Some (take (nat n) (drop (nat a) (s_data s)))
      else None)"

definition str_text :: "ncstring \<Rightarrow> bytes" where
  "str_text s = take (unat (s_len s)) (s_data s)"

section \<open>Addresses\<close>

text \<open>The permissions behind position \<open>q\<close>; the member is set before it is checked.\<close>

definition parse_perm :: "ncstring \<Rightarrow> int \<Rightarrow> 'a conf_listen_scheme \<Rightarrow> rstatus \<times> 'a conf_listen_scheme" where
  "parse_perm value q l =
     (let (v, erange) = c_strtol8 (takeWhile (\<lambda>c. c \<noteq> 0) (drop (nat (q + 1)) (s_data value)));
          l = l\<lparr>cl_perm := word_of_int v\<rparr>
      in (if erange \<or> cl_perm l > 0x1FF then NC_ERROR else NC_OK, l))"

text \<open>The port between the positions \<open>q\<close> and \<open>p\<close>, the latter included.\<close>

definition parse_port ::
  "ncstring \<Rightarrow> int \<Rightarrow> int \<Rightarrow> 'a conf_listen_scheme \<Rightarrow> (rstatus \<times> 'a conf_listen_scheme) option" where
  "parse_port value q p l = do {
     ds \<leftarrow> str_slice value (q + 1) (p - (q + 1) + 1);
     port \<leftarrow> nc_atoi ds;
     let l = l\<lparr>cl_port := port\<rparr>;
     Some (if port < 0 \<or> \<not> ncValidPort port then NC_ERROR else NC_OK, l)
   }"

text \<open>
  The assignments at the end of both \<open>parse\<close>. The temporary \<open>NcString(_name, _namelen)\<close> is
  taken to be constructed, see \<open>str_from\<close>.
\<close>

definition parse_finish ::
  "(bytes \<Rightarrow> int \<Rightarrow> int \<times> (int \<times> nat \<times> bytes) list) \<Rightarrow> ncstring \<Rightarrow> int \<Rightarrow> 'a conf_listen_scheme
    \<Rightarrow> (rstatus \<times> 'a conf_listen_scheme) option" where
  "parse_finish gai value namelen l = do {
     pname \<leftarrow> str_assign False (cl_pname l) value;
     let l = l\<lparr>cl_pname := pname\<rparr>;
     tmp \<leftarrow> str_from False (s_data value) (word_of_int namelen);
     name \<leftarrow> str_assign False (cl_name l) tmp;
     let l = l\<lparr>cl_name := name\<rparr>;
     let (status, info) = ncResolve gai (Some (str_text name)) (cl_port l) (cl_info l);
     let l = l\<lparr>cl_info := info\<rparr>;
     if status \<noteq> NC_OK then Some (NC_ERROR, l) else Some (NC_OK, l\<lparr>cl_valid := 1\<rparr>)
   }"

text \<open>\<open>NcConfListen::parse\<close>: \<^verbatim>\<open>"/path permissions"\<close> or \<^verbatim>\<open>"hostname:port"\<close>, from the end.\<close>

definition conf_listen_parse ::
  "(bytes \<Rightarrow> int \<Rightarrow> int \<times> (int \<times> nat \<times> bytes) list) \<Rightarrow> ncstring \<Rightarrow> 'a conf_listen_scheme
    \<Rightarrow> (rstatus \<times> 'a conf_listen_scheme) option" where
  "conf_listen_parse gai value l =
     (let p = int (unat (s_len value)) - 1 in
      case s_data value of
        [] \<Rightarrow> None
      | c # _ \<Rightarrow>
          if c = 47 then
            (case nc_strrchr (str_mem value) p 0 32 of
               None \<Rightarrow> parse_finish gai value (int (unat (s_len value))) l
             | Some q \<Rightarrow>
                 let (status, l) = parse_perm value q l in
                 if status \<noteq> NC_OK then Some (NC_ERROR, l) else parse_finish gai value q l)
          else
            (case nc_strrchr (str_mem value) p 0 58 of
               None \<Rightarrow> Some (NC_ERROR, l)
             | Some q \<Rightarrow> do {
                 (status, l) \<leftarrow> parse_port value q p l;
                 if status \<noteq> NC_OK then Some (NC_ERROR, l) else parse_finish gai value q l
               }))"

text \<open>The weight and the rest of \<open>NcConfServer::parse\<close>; \<open>q\<close> is the position in front of it.\<close>

definition parse_weight ::
  "(bytes \<Rightarrow> int \<Rightarrow> int \<times> (int \<times> nat \<times> bytes) list) \<Rightarrow> ncstring \<Rightarrow> int \<Rightarrow> int \<Rightarrow> conf_server
    \<Rightarrow> (rstatus \<times> conf_server) option" where
  "parse_weight gai value q namelen l = do {
     ds \<leftarrow> str_slice value (q + 1) (int (unat (s_len value)) - 1 - (q + 1) + 1);
     weight \<leftarrow> nc_atoi ds;
     let l = l\<lparr>cs_weight := weight\<rparr>;
     if weight < 0 \<or> weight > 0x7FFFFFFF then Some (NC_ERROR, l) else parse_finish gai value namelen l
   }"

definition conf_server_parse ::
  "(bytes \<Rightarrow> int \<Rightarrow> int \<times> (int \<times> nat \<times> bytes) list) \<Rightarrow> ncstring \<Rightarrow> conf_server
    \<Rightarrow> (rstatus \<times> conf_server) option" where
  "conf_server_parse gai value l =
     (let p = int (unat (s_len value)) - 1 in
      case s_data value of
        [] \<Rightarrow> None
      | c # _ \<Rightarrow>
          if c = 47 then
            (case nc_strrchr (str_mem value) p 0 32 of
               None \<Rightarrow> Some (NC_ERROR, l)
             | Some w \<Rightarrow>
                 (case nc_strrchr (str_mem value) (w - 1) 0 32 of
                    None \<Rightarrow> parse_weight gai value w (int (unat (s_len value))) l
                  | Some q \<Rightarrow>
                      let (status, l) = parse_perm value q l in
                      if status \<noteq> NC_OK then Some (NC_ERROR, l) else parse_weight gai value w q l))
          else
            (case nc_strrchr (str_mem value) p 0 58 of
               None \<Rightarrow> Some (NC_ERROR, l)
             | Some w \<Rightarrow>
                 (case nc_strrchr (str_mem value) (w - 1) 0 58 of
                    None \<Rightarrow> Some (NC_ERROR, l)
                  | Some q \<Rightarrow> do {
                      (status, l) \<leftarrow> parse_port value q (w - 1) l;
                      if status \<noteq> NC_OK then Some (NC_ERROR, l) else parse_weight gai value w q l
                    })))"

section \<open>The machine\<close>

text \<open>Events of the library; \<open>NO_EVENT\<close> is the empty event behind the end of the stream.\<close>

datatype yaml_event = NO_EVENT | STREAM_START_EVENT | STREAM_END_EVENT | DOCUMENT_START_EVENT
  | DOCUMENT_END_EVENT | ALIAS_EVENT | SCALAR_EVENT bytes | SEQUENCE_START_EVENT | SEQUENCE_END_EVENT
  | MAPPING_START_EVENT | MAPPING_END_EVENT

text \<open>
  \<open>NcConf\<close>. The answers of the library are in \<open>cf_parser\<close>, \<open>None\<close> for a failure; those of
  \<^verbatim>\<open>fseek\<close> and \<^verbatim>\<open>yaml_parser_initialize\<close> are the last two members. \<open>cf_fname\<close> is \<open>None\<close> while
  it is not initialised.
\<close>

record conf =
  cf_pool :: "conf_pool list"
  cf_args :: "ncstring list"
  cf_fname :: "bytes option"
  cf_fh :: bool
  cf_depth :: u32
  cf_parser :: "yaml_event option list"
  cf_event :: yaml_event
  cf_seq :: bool
  cf_valid_parser :: bool
  cf_valid_event :: bool
  cf_parsed :: bool
  cf_seek :: int
  cf_init :: bool

definition conf_new :: "int \<Rightarrow> bool \<Rightarrow> conf" where
  "conf_new seek init = \<lparr>cf_pool = [], cf_args = [], cf_fname = None, cf_fh = False, cf_depth = 0,
     cf_parser = [], cf_event = NO_EVENT, cf_seq = False, cf_valid_parser = False,
     cf_valid_event = False, cf_parsed = False, cf_seek = seek, cf_init = init\<rparr>"

text \<open>\<open>~NcConf\<close> releases \<open>fname\<close>, which is no pointer yet when no file was opened.\<close>

definition conf_delete :: "conf \<Rightarrow> bytes option" where
  "conf_delete cf = cf_fname cf"

definition conf_openFile :: "bool \<Rightarrow> bytes \<Rightarrow> yaml_event option list \<Rightarrow> conf \<Rightarrow> rstatus \<times> conf" where
  "conf_openFile fopen name events cf =
     (if \<not> fopen then (NC_ERROR, cf)
      else (NC_OK, cf\<lparr>cf_fname := Some name, cf_fh := True, cf_parser := events\<rparr>))"

definition yamlInit :: "conf \<Rightarrow> rstatus \<times> conf" where
  "yamlInit cf =
     (if cf_seek cf < 0 then (NC_ERROR, cf)
      else if \<not> cf_init cf then (NC_ERROR, cf)
      else (NC_OK, cf\<lparr>cf_valid_parser := True\<rparr>))"

definition yamlDeinit :: "conf \<Rightarrow> conf" where
  "yamlDeinit cf = (if cf_valid_parser cf then cf\<lparr>cf_valid_parser := False\<rparr> else cf)"

definition yamlEventNext :: "conf \<Rightarrow> rstatus \<times> conf" where
  "yamlEventNext cf =
     (case cf_parser cf of
        [] \<Rightarrow> (NC_OK, cf\<lparr>cf_event := NO_EVENT, cf_valid_event := True\<rparr>)
      | None # evs \<Rightarrow> (NC_ERROR, cf\<lparr>cf_parser := evs, cf_event := NO_EVENT\<rparr>)
      | Some e # evs \<Rightarrow> (NC_OK, cf\<lparr>cf_parser := evs, cf_event := e, cf_valid_event := True\<rparr>))"

definition yamlEventDone :: "conf \<Rightarrow> conf" where
  "yamlEventDone cf =
     (if cf_valid_event cf then cf\<lparr>cf_event := NO_EVENT, cf_valid_event := False\<rparr> else cf)"

definition yamlPushScalar :: "bytes \<Rightarrow> conf \<Rightarrow> (rstatus \<times> conf) option" where
  "yamlPushScalar scalar cf =
     (if (of_nat (length scalar) :: u32) = 0 then Some (NC_ERROR, cf)
      else do {
        value \<leftarrow> str_from False (scalar @ [0]) (of_nat (length scalar));
        arg \<leftarrow> str_copy value;
        Some (NC_OK, cf\<lparr>cf_args := cf_args cf @ [arg]\<rparr>)
      })"

definition yamlPopScalar :: "conf \<Rightarrow> conf option" where
  "yamlPopScalar cf = (if cf_args cf = [] then None else Some (cf\<lparr>cf_args := butlast (cf_args cf)\<rparr>))"

text \<open>\<open>handler\<close>: the status of \<open>parse\<close> is logged and dropped.\<close>

definition listen_key :: bytes where "listen_key = [0x6c, 0x69, 0x73, 0x74, 0x65, 0x6e]"
definition servers_key :: bytes where "servers_key = [0x73, 0x65, 0x72, 0x76, 0x65, 0x72, 0x73]"

record env =
  e_gai :: "bytes \<Rightarrow> int \<Rightarrow> int \<times> (int \<times> nat \<times> bytes) list"
  e_pool :: "nat \<Rightarrow> conf_pool"
  e_server :: "nat \<Rightarrow> conf_server"

text \<open>The memory a new object gets may depend on how many there are.\<close>

definition handle_entry :: "env \<Rightarrow> ncstring \<Rightarrow> ncstring \<Rightarrow> conf_pool \<Rightarrow> conf_pool option" where
  "handle_entry e key value p = do {
     is_listen \<leftarrow> str_eq_c key (Some (listen_key @ [0]));
     if is_listen then do {
       (status, l) \<leftarrow> conf_listen_parse (e_gai e) value (cp_listen p);
       Some (p\<lparr>cp_listen := l\<rparr>)
     } else do {
       is_servers \<leftarrow> str_eq_c key (Some (servers_key @ [0]));
       if is_servers then do {
         (status, cs) \<leftarrow> conf_server_parse (e_gai e) value (conf_server_new (e_server e (length (cp_server p))));
         Some (if status \<noteq> NC_OK then p else p\<lparr>cp_server := cp_server p @ [cs]\<rparr>)
       } else Some p
     }
   }"

definition conf_handler :: "env \<Rightarrow> nat option \<Rightarrow> conf \<Rightarrow> (rstatus \<times> conf) option" where
  "conf_handler e data cf =
     (let narg = length (cf_args cf) in
      if narg \<le> 1 then Some (NC_OK, cf)
      else do {
        value \<leftarrow> str_copy (cf_args cf ! (narg - 1));
        key \<leftarrow> str_copy (cf_args cf ! (narg - 2));
        case data of
          None \<Rightarrow> do {
            is_listen \<leftarrow> str_eq_c key (Some (listen_key @ [0]));
            is_servers \<leftarrow> str_eq_c key (Some (servers_key @ [0]));
            if is_listen then None
            else if is_servers then do {
              (status, cs) \<leftarrow> conf_server_parse (e_gai e) value (conf_server_new (e_server e 0));
              if status \<noteq> NC_OK then Some (NC_OK, cf) else None
            }
            else Some (NC_OK, cf)
          }
        | Some j \<Rightarrow> do {
            p \<leftarrow> handle_entry e key value (cf_pool cf ! j);
            Some (NC_OK, cf\<lparr>cf_pool := (cf_pool cf)[j := p]\<rparr>)
          }
      })"

text \<open>\<open>parseBegin\<close>, \<open>parseCore\<close> and \<open>parseEnd\<close>; the recursion of \<open>parseCore\<close> is a loop.\<close>

partial_function (option) begin_loop :: "conf \<Rightarrow> (rstatus \<times> conf) option" where
  "begin_loop cf =
     (let (status, cf) = yamlEventNext cf in
      if status \<noteq> NC_OK then Some (status, cf)
      else
        let finished = (cf_event cf = MAPPING_START_EVENT);
            cf = (if finished then cf\<lparr>cf_depth := cf_depth cf + 1\<rparr> else cf);
            cf = yamlEventDone cf in
        if finished then Some (NC_OK, cf) else begin_loop cf)"

definition parseBegin :: "conf \<Rightarrow> (rstatus \<times> conf) option" where
  "parseBegin cf =
     (let (status, cf) = yamlInit cf in if status \<noteq> NC_OK then Some (status, cf) else begin_loop cf)"

partial_function (option) end_loop :: "conf \<Rightarrow> (rstatus \<times> conf) option" where
  "end_loop cf =
     (let (status, cf) = yamlEventNext cf in
      if status \<noteq> NC_OK then Some (status, cf)
      else
        let finished = (cf_event cf = STREAM_END_EVENT); cf = yamlEventDone cf in
        if finished then Some (NC_OK, cf) else end_loop cf)"

definition parseEnd :: "conf \<Rightarrow> (rstatus \<times> conf) option" where
  "parseEnd cf = do {
     (status, cf) \<leftarrow> end_loop cf;
     Some (status, if status = NC_OK then yamlDeinit cf else cf)
   }"

text \<open>
  The \<^verbatim>\<open>switch\<close> of \<open>parseCore\<close>: the status, the flags \<open>done\<close>, \<open>leaf\<close> and \<open>new_pool\<close>, and the
  current pool.
\<close>

record step =
  st_status :: rstatus
  st_done :: bool
  st_leaf :: bool
  st_new_pool :: bool
  st_data :: "nat option"

definition core_scalar :: "env \<Rightarrow> bytes \<Rightarrow> nat option \<Rightarrow> conf \<Rightarrow> (step \<times> conf) option" where
  "core_scalar e scalar data cf =
     (let r = \<lparr>st_status = NC_OK, st_done = False, st_leaf = False, st_new_pool = False, st_data = data\<rparr> in
      do {
        (status, cf) \<leftarrow> yamlPushScalar scalar cf;
        if status \<noteq> NC_OK then Some (r\<lparr>st_status := status\<rparr>, cf)
        else if cf_seq cf then Some (r\<lparr>st_leaf := True\<rparr>, cf)
        else if cf_depth cf = CONF_ROOT_DEPTH then
          Some (r\<lparr>st_new_pool := True, st_data := Some (length (cf_pool cf))\<rparr>,
                cf\<lparr>cf_pool := cf_pool cf @ [conf_pool_new (e_pool e (length (cf_pool cf)))]\<rparr>)
        else if length (cf_args cf) = unat (cf_depth cf + 1) then Some (r\<lparr>st_leaf := True\<rparr>, cf)
        else Some (r, cf)
      })"

definition core_switch :: "env \<Rightarrow> nat option \<Rightarrow> conf \<Rightarrow> (step \<times> conf) option" where
  "core_switch e data cf =
     (let r = \<lparr>st_status = NC_OK, st_done = False, st_leaf = False, st_new_pool = False, st_data = data\<rparr> in
      case cf_event cf of
        MAPPING_END_EVENT \<Rightarrow>
          (let cf = cf\<lparr>cf_depth := cf_depth cf - 1\<rparr> in
           if cf_depth cf = 1 then do { cf \<leftarrow> yamlPopScalar cf; Some (r, cf) }
           else if cf_depth cf = 0 then Some (r\<lparr>st_done := True\<rparr>, cf)
           else Some (r, cf))
      | MAPPING_START_EVENT \<Rightarrow> Some (r, cf\<lparr>cf_depth := cf_depth cf + 1\<rparr>)
      | SEQUENCE_START_EVENT \<Rightarrow> Some (r, cf\<lparr>cf_seq := True\<rparr>)
      | SEQUENCE_END_EVENT \<Rightarrow> do { cf \<leftarrow> yamlPopScalar cf; Some (r, cf\<lparr>cf_seq := False\<rparr>) }
      | SCALAR_EVENT scalar \<Rightarrow> core_scalar e scalar data cf
      | _ \<Rightarrow> Some (r, cf))"

text \<open>What follows the \<^verbatim>\<open>switch\<close>: \<open>Inl\<close> is a return, \<open>Inr\<close> the pool of the next round.\<close>

definition core_leaf :: "conf \<Rightarrow> conf option" where
  "core_leaf cf = do { cf \<leftarrow> yamlPopScalar cf; if \<not> cf_seq cf then yamlPopScalar cf else Some cf }"

definition core_step :: "env \<Rightarrow> nat option \<Rightarrow> conf \<Rightarrow> ((rstatus + nat option) \<times> conf) option" where
  "core_step e data cf =
     (let (status, cf) = yamlEventNext cf in
      if status \<noteq> NC_OK then Some (Inl status, cf)
      else do {
        (r, cf) \<leftarrow> core_switch e data cf;
        let cf = yamlEventDone cf;
        if st_status r \<noteq> NC_OK then Some (Inl (st_status r), cf)
        else if st_done r then Some (Inl NC_OK, cf)
        else if st_leaf r \<or> st_new_pool r then do {
          (status, cf) \<leftarrow> conf_handler e (st_data r) cf;
          cf \<leftarrow> (if st_leaf r then core_leaf cf else Some cf);
          if status \<noteq> NC_OK then Some (Inl status, cf) else Some (Inr (st_data r), cf)
        }
        else Some (Inr (st_data r), cf)
      })"

partial_function (option) parseCore :: "env \<Rightarrow> nat option \<Rightarrow> conf \<Rightarrow> (rstatus \<times> conf) option" where
  "parseCore e data cf = do {
     (r, cf) \<leftarrow> core_step e data cf;
     case r of Inl status \<Rightarrow> Some (status, cf) | Inr data \<Rightarrow> parseCore e data cf
   }"

definition parseProcess :: "env \<Rightarrow> conf \<Rightarrow> (rstatus \<times> conf) option" where
  "parseProcess e cf = do {
     (status, cf) \<leftarrow> parseBegin cf;
     if status \<noteq> NC_OK then Some (status, cf)
     else do {
       (status, cf) \<leftarrow> parseCore e None cf;
       if status \<noteq> NC_OK then Some (status, cf)
       else do {
         (status, cf) \<leftarrow> parseEnd cf;
         if status \<noteq> NC_OK then Some (status, cf) else Some (NC_OK, cf\<lparr>cf_parsed := True\<rparr>)
       }
     }
   }"

end
