(* ===== verification/NcCore.thy ===== *)
theory NcCore
  imports NcConnection NcConf
begin

text \<open>
  \<^verbatim>\<open>nc_core.cpp\<close> and the \<open>setConf\<close> of the server pool: how a context is made from a
  configured pool, and the loop of the instance with the requests that timed out. The state
  is the world of the message store; there is one context. What fresh memory holds and the
  clock are parameters.
\<close>

section \<open>A server pool from its configuration\<close>

text \<open>The constructors initialise the members that have one, the others keep the memory.\<close>

definition server_new :: "server \<Rightarrow> server" where
  "server_new junk = junk\<lparr>sv_pname := [], sv_name := [], sv_addrstr := [], sv_conn_q := []\<rparr>"

definition spool_new :: "spool \<Rightarrow> spool" where
  "spool_new junk = junk\<lparr>sp_c_conn_q := [], sp_server := [], sp_name := [], sp_addrstr := [],
     sp_hash_tag := [], sp_continuum := []\<rparr>"

definition server_setConf :: "conf_server \<Rightarrow> server \<Rightarrow> server" where
  "server_setConf cs s = s\<lparr>sv_name := str_text (cl_name cs), sv_addrstr := str_text (cl_name cs),
     sv_pname := str_text (cl_pname cs), sv_port := word_of_int (cl_port cs), sv_info := cl_info cs,
     sv_weight := word_of_int (cs_weight cs)\<rparr>"

definition spool_setConf :: "(nat \<Rightarrow> server) \<Rightarrow> conf_pool \<Rightarrow> spool \<Rightarrow> spool" where
  "spool_setConf junk cp p = p\<lparr>sp_nlive_server := 0, sp_next_rebuild := 0,
     sp_name := str_text (cp_name cp), sp_addrstr := str_text (cl_pname (cp_listen cp)),
     sp_port := word_of_int (cl_port (cp_listen cp)), sp_info := cl_info (cp_listen cp),
     sp_perm := cl_perm (cp_listen cp), sp_tcpkeepalive := cp_tcpkeepalive cp \<noteq> 0,
     sp_timeout := cp_timeout cp, sp_backlog := cp_backlog cp,
     sp_client_connections := word_of_int (cp_client_connections cp),
     sp_server_connections := word_of_int (cp_server_connections cp),
     sp_server_retry_timeout := cp_server_retry_timeout cp * 1000,
     sp_server_failure_limit := word_of_int (cp_server_failure_limit cp),
     sp_server := sp_server p
       @ map (\<lambda>i. server_setConf (cp_server cp ! i) (server_new (junk i))) [0..<length (cp_server cp)]\<rparr>"

section \<open>The context\<close>

definition RESERVED_FDS :: u32 where "RESERVED_FDS = 32"

text \<open>
  A deleted object can still be in a pool. Both functions return the objects they deleted,
  with the status.
\<close>

definition createProxyConn :: "world \<Rightarrow> (rstatus \<times> nat list \<times> world) option" where
  "createProxyConn w = do {
     let (conn, w) = alloc_from_p PROXY w;
     let w = proxy_ref conn w;
     (status, w) \<leftarrow> proxy_listen conn w;
     if status \<noteq> NC_OK then do {
       w \<leftarrow> proxy_close conn w;
       Some (status, [conn], w)
     } else Some (NC_OK, [], w)
   }"

fun create_servers :: "nat list \<Rightarrow> world \<Rightarrow> (rstatus \<times> nat list \<times> world) option" where
  "create_servers [] w = Some (NC_OK, [], w)"
| "create_servers (i # is) w = do {
     let (conn, w) = alloc_from_p SERVER w;
     w \<leftarrow> server_ref conn i w;
     (status, w) \<leftarrow> server_connect conn w;
     if status \<noteq> NC_OK then do {
       w \<leftarrow> server_close conn w;
       Some (status, [conn], w)
     } else create_servers is w
   }"

definition createServerConn :: "world \<Rightarrow> (rstatus \<times> nat list \<times> world) option" where
  "createServerConn w = create_servers [0..<length (sp_server (w_sp w))] w"

text \<open>\<^verbatim>\<open>getrlimit\<close> and the limit it stores are two answers of the script.\<close>

definition calcConnections :: "world \<Rightarrow> rstatus \<times> world" where
  "calcConnections w =
     (let (status, w) = sys w in
      if status < 0 then (NC_ERROR, w)
      else
        let (cur, w) = sys w;
            w = w\<lparr>w_max_nfd := word_of_int cur\<rparr>
        in (NC_OK, w\<lparr>w_max_ncconn := w_max_nfd w - w_max_nsconn w - RESERVED_FDS\<rparr>))"

text \<open>
  \<open>delete _ctx\<close> deletes what is in the pools; an object that was deleted before is deleted
  twice (\<open>None\<close>).
\<close>

definition context_delete :: "nat list \<Rightarrow> world \<Rightarrow> world option" where
  "context_delete deleted w =
     (if set deleted \<inter> set (p_queue (w_c_pool w) @ p_queue (w_s_pool w) @ p_queue (w_p_pool w)) \<noteq> {} then None
      else Some (w\<lparr>w_c_pool := pool_new, w_s_pool := pool_new, w_p_pool := pool_new, w_msg_pool := pool_new,
                   w_mbuf_pool := pool_new\<rparr>))"

text \<open>\<open>createContext\<close>; the flag says whether a context is returned or the null pointer.\<close>

definition context_new :: "u32 \<Rightarrow> spool \<Rightarrow> (nat \<Rightarrow> server) \<Rightarrow> conf_pool \<Rightarrow> world \<Rightarrow> world" where
  "context_new chunk junk_sp junk_sv cp w =
     (let (_, st) = uniqNextId (w_st w);
          w = w\<lparr>w_st := st, w_max_nfd := 0, w_max_ncconn := 0, w_max_nsconn := 0, w_sp := spool_new junk_sp,
                w_c_pool := pool_new, w_s_pool := pool_new, w_p_pool := pool_new, w_msg_pool := pool_new,
                w_mbuf_pool := pool_new\<rparr>;
          (_, st) = ncMbufChunkSize chunk (w_st w);
          w = w\<lparr>w_st := st\<rparr>
      in upd_sp (spool_setConf junk_sv cp) w)"

definition createContext ::
  "u32 \<Rightarrow> spool \<Rightarrow> (nat \<Rightarrow> server) \<Rightarrow> conf_pool \<Rightarrow> world \<Rightarrow> (bool \<times> world) option" where
  "createContext chunk junk_sp junk_sv cp w =
     (let w = context_new chunk junk_sp junk_sv cp w;
          (status, w) = calcConnections w in
      if status \<noteq> NC_OK then map_option (\<lambda>w. (False, w)) (context_delete [] w)
      else do {
        (status, deleted, w) \<leftarrow> createServerConn w;
        if status \<noteq> NC_OK then map_option (\<lambda>w. (False, w)) (context_delete deleted w)
        else do {
          (status, deleted, w) \<leftarrow> createProxyConn w;
          if status \<noteq> NC_OK then map_option (\<lambda>w. (False, w)) (context_delete deleted w)
          else Some (True, w)
        }
      })"

section \<open>The loop of the instance\<close>

text \<open>
  The inner loop over the tree of timeouts: \<open>clock i\<close> is the answer to the \<open>i\<close>-th look at the
  clock. A node is a message, its data the connection that waits for the response.
\<close>

partial_function (option) timeout_loop :: "(nat \<Rightarrow> (int \<times> int) option) \<Rightarrow> nat \<Rightarrow> world \<Rightarrow> world option" where
  "timeout_loop clock i w = do {
     node \<leftarrow> rb_min (w_rb w);
     case node of
       None \<Rightarrow> Some w
     | Some m \<Rightarrow>
         if m_error (w_msgs w m) \<or> m_done (w_msgs w m) then do {
           t \<leftarrow> rb_remove (Some m) (w_rb w);
           timeout_loop clock i (w\<lparr>w_rb := t\<rparr>)
         } else
           (let after = rb_key (rb_nodes (w_rb w) m); now = ncMsecNow (clock i) in
            if now < after then Some w
            else do {
              conn \<leftarrow> rb_data (rb_nodes (w_rb w) m);
              t \<leftarrow> rb_remove (Some m) (w_rb w);
              w \<leftarrow> processClose conn (upd_conn conn (conn_setError ETIMEDOUT) (w\<lparr>w_rb := t\<rparr>));
              timeout_loop clock (i + 1) w
            })
   }"

text \<open>\<open>loop()\<close>: the answers of \<^verbatim>\<open>epoll_wait\<close> are a parameter and what is left of them is returned.\<close>

definition instance_loop ::
  "(nat \<Rightarrow> (int \<times> int) option) \<Rightarrow> wait_reply list \<Rightarrow> world \<Rightarrow> (rstatus \<times> world \<times> wait_reply list) option" where
  "instance_loop clock replies w = do {
     (nsd, w, replies) \<leftarrow> ev_wait (\<lambda>c events w. map_option snd (conn_callback c events w)) (- 1) replies w;
     if nsd < 0 then Some (nsd, w, replies)
     else do { w \<leftarrow> timeout_loop clock 0 w; Some (NC_OK, w, replies) }
   }"

end
