(* ===== verification/NcLog.thy ===== *)
theory NcLog
  imports NcSys
begin

text \<open>
  \<^verbatim>\<open>nc_log.h\<close>, \<^verbatim>\<open>nc_log.cpp\<close> and \<^verbatim>\<open>nc_signal.h\<close>: the logger, how it builds a line in its
  buffer of fixed size, and the installation of the signal handlers. The logger is a static
  object, so its members start as zero. The texts that \<^verbatim>\<open>strftime\<close> and \<^verbatim>\<open>vsnprintf\<close> format are
  parameters, as are the answers of \<^verbatim>\<open>open\<close> and \<^verbatim>\<open>write\<close>. \<open>None\<close> is an access outside of a
  buffer. The other theories leave logging out: it changes nothing they speak of.
\<close>

section \<open>The logger\<close>

definition LLOG_EMERG :: int where "LLOG_EMERG = 0"
definition LLOG_ALERT :: int where "LLOG_ALERT = 1"
definition LLOG_WARN :: int where "LLOG_WARN = 4"
definition LLOG_VVVERB :: int where "LLOG_VVVERB = 10"
definition LLOG_PVERB :: int where "LLOG_PVERB = 11"
definition LOG_MAX_LEN :: nat where "LOG_MAX_LEN = 2046"
definition STDERR_FILENO :: int where "STDERR_FILENO = 2"

record logger =
  lg_name :: "bytes option"
  lg_level :: int
  lg_fd :: int
  lg_nerror :: int

definition logger_new :: logger where
  "logger_new = \<lparr>lg_name = None, lg_level = LLOG_PVERB, lg_fd = 1, lg_nerror = 0\<rparr>"

text \<open>\<open>~NcLogger\<close>: the descriptor to close, if any.\<close>

definition logger_delete :: "logger \<Rightarrow> int option" where
  "logger_delete l = (if lg_fd l > 0 \<and> lg_fd l \<noteq> STDERR_FILENO then Some (lg_fd l) else None)"

definition clamp_level :: "int \<Rightarrow> int" where
  "clamp_level level =
     (let m = (if level < LLOG_PVERB then level else LLOG_PVERB) in if LLOG_EMERG > m then LLOG_EMERG else m)"

definition logger_setLevel :: "int \<Rightarrow> logger \<Rightarrow> logger" where
  "logger_setLevel level l = l\<lparr>lg_level := clamp_level level\<rparr>"

text \<open>\<open>opens\<close> stands for \<^verbatim>\<open>open\<close>, applied to the null pointer when there is no name.\<close>

definition logger_init :: "(bytes option \<Rightarrow> int) \<Rightarrow> int \<Rightarrow> bytes option \<Rightarrow> logger \<Rightarrow> int \<times> logger" where
  "logger_init opens level name l =
     (let l = l\<lparr>lg_level := clamp_level level, lg_name := None\<rparr> in
      case name of
        None \<Rightarrow> (0, l\<lparr>lg_fd := STDERR_FILENO\<rparr>)
      | Some n \<Rightarrow>
          if n = [] then (0, l\<lparr>lg_fd := STDERR_FILENO\<rparr>)
          else
            let l = l\<lparr>lg_name := Some n, lg_fd := opens (Some n)\<rparr>
            in (if lg_fd l < 0 then - 1 else 0, l))"

definition logger_reopen :: "(bytes option \<Rightarrow> int) \<Rightarrow> logger \<Rightarrow> logger" where
  "logger_reopen opens l = (if lg_fd l \<noteq> STDERR_FILENO then l\<lparr>lg_fd := opens (lg_name l)\<rparr> else l)"

definition logAble :: "int \<Rightarrow> logger \<Rightarrow> bool" where
  "logAble level l \<longleftrightarrow> \<not> level > lg_level l"

section \<open>Searching a name\<close>

text \<open>A C string: the bytes that can be read from its address, \<open>None\<close> for the null pointer.\<close>

fun index_loop :: "bytes \<Rightarrow> byte \<Rightarrow> int \<Rightarrow> int option" where
  "index_loop [] c i = None"
| "index_loop (x # s) c i = (if x \<noteq> 0 \<and> x \<noteq> c then index_loop s c (i + 1) else Some i)"

definition stringIndexOf :: "bytes option \<Rightarrow> byte \<Rightarrow> int option" where
  "stringIndexOf s c =
     (case s of
        None \<Rightarrow> Some (- 1)
      | Some [] \<Rightarrow> None
      | Some (x # s) \<Rightarrow> if x = 0 then Some (- 1) else index_loop (x # s) c 0)"

fun last_loop :: "bytes \<Rightarrow> byte \<Rightarrow> int \<Rightarrow> int \<Rightarrow> int option" where
  "last_loop [] c i lst = None"
| "last_loop (x # s) c i lst =
     (if x \<noteq> 0 then last_loop s c (i + 1) (if x = c then (if i \<ge> lst then i else lst) else lst)
      else Some lst)"

definition stringLastOf :: "bytes option \<Rightarrow> byte \<Rightarrow> int option" where
  "stringLastOf s c =
     (case s of
        None \<Rightarrow> Some (- 1)
      | Some [] \<Rightarrow> None
      | Some (x # s) \<Rightarrow> if x = 0 then Some (- 1) else last_loop (x # s) c 0 0)"

section \<open>Writing a line\<close>

text \<open>\<open>len += nc_scnprintf(buf + len, size - len, ...)\<close> of a formatted text.\<close>

definition put :: "bytes \<Rightarrow> bytes \<Rightarrow> bytes" where
  "put txt buf = buf @ take (nat (vscnprintf (int (length txt)) (of_int (int LOG_MAX_LEN - int (length buf))))) txt"

text \<open>\<^verbatim>\<open>strftime\<close> writes all of the text or nothing.\<close>

definition put_time :: "bytes \<Rightarrow> bytes \<Rightarrow> bytes" where
  "put_time stamp buf = (if length stamp < LOG_MAX_LEN - length buf then buf @ stamp else buf)"

definition pad3 :: "nat \<Rightarrow> bytes" where
  "pad3 n = replicate (3 - length (dec_print n)) 48 @ dec_print n"

text \<open>The array \<open>filetemp\<close> has 256 bytes.\<close>

definition file_part :: "bytes \<Rightarrow> bytes option" where
  "file_part file = do {
     k \<leftarrow> stringLastOf (Some (file @ [0])) 47;
     let k = nat (k + 1);
     if length file - k + 1 \<le> 256 then Some (drop k file) else None
   }"

definition end_line :: "bytes \<Rightarrow> bytes option" where
  "end_line buf = (if length buf < LOG_MAX_LEN then Some (buf @ [10]) else None)"

definition log_line :: "bytes \<Rightarrow> nat \<Rightarrow> bytes \<Rightarrow> int \<Rightarrow> bytes \<Rightarrow> bytes option" where
  "log_line stamp usec file line msg = do {
     let buf = put_time stamp [91];
     let buf = put (pad3 (usec div 1000)) buf;
     name \<leftarrow> file_part file;
     let buf = put ([93, 32, 91] @ name @ [58] @ int_print line @ [93, 32]) buf;
     end_line (put msg buf)
   }"

definition loga_line :: "bytes \<Rightarrow> bytes option" where
  "loga_line msg = end_line (put msg [])"

text \<open>
  \<open>_log\<close> and \<open>_loga\<close>: what is written (nothing without a descriptor), whether the program is
  aborted, and the logger. \<open>status\<close> is the answer of \<^verbatim>\<open>write\<close>.
\<close>

definition logger_log ::
  "int \<Rightarrow> bytes \<Rightarrow> nat \<Rightarrow> bytes \<Rightarrow> int \<Rightarrow> bool \<Rightarrow> bytes \<Rightarrow> logger \<Rightarrow> (bytes option \<times> bool \<times> logger) option" where
  "logger_log status stamp usec file line panic msg l =
     (if lg_fd l < 0 then Some (None, False, l)
      else do {
        text \<leftarrow> log_line stamp usec file line msg;
        let l = (if status < 0 then l\<lparr>lg_nerror := lg_nerror l + 1\<rparr> else l);
        Some (Some text, panic, l)
      })"

definition logger_loga :: "int \<Rightarrow> bytes \<Rightarrow> logger \<Rightarrow> (bytes option \<times> logger) option" where
  "logger_loga status msg l =
     (if lg_fd l < 0 then Some (None, l)
      else do {
        text \<leftarrow> loga_line msg;
        Some (Some text, if status < 0 then l\<lparr>lg_nerror := lg_nerror l + 1\<rparr> else l)
      })"

section \<open>Signals\<close>

datatype signal = SIGUSR1 | SIGUSR2 | SIGTTIN | SIGTTOU | SIGHUP | SIGINT | SIGSEGV | SIGPIPE

definition handled_signals :: "signal list" where
  "handled_signals = [SIGUSR1, SIGUSR2, SIGTTIN, SIGTTOU, SIGHUP, SIGINT, SIGSEGV, SIGPIPE]"

text \<open>The constructor: the signals whose handler is installed, with the flag \<^verbatim>\<open>SA_RESETHAND\<close>, and
  the answers of \<^verbatim>\<open>sigaction\<close>, of which a failure is only logged.\<close>

definition install_signals :: "(signal \<Rightarrow> int) \<Rightarrow> (signal \<times> bool) list" where
  "install_signals sigaction =
     filter (\<lambda>(s, _). \<not> sigaction s < 0) (map (\<lambda>s. (s, s = SIGSEGV)) handled_signals)"

text \<open>\<open>signalHandler\<close> ends the program with this status.\<close>

definition signalHandler :: "signal \<Rightarrow> int" where "signalHandler s = 0"

section \<open>The line always fits\<close>

lemma put_bound:
  assumes "length buf < LOG_MAX_LEN"
  shows "length (put txt buf) < LOG_MAX_LEN" "put txt buf = buf @ take (LOG_MAX_LEN - 1 - length buf) txt"
proof -
  let ?x = "LOG_MAX_LEN - length buf"
  have x: "0 < ?x" "?x < 2 ^ 31" "(of_int (int LOG_MAX_LEN - int (length buf)) :: u64) = of_nat ?x"
    using assms by (simp_all add: LOG_MAX_LEN_def of_nat_diff)
  have "put txt buf = buf @ take (nat (max 0 (min (int (length txt)) (int ?x - 1)))) txt"
    unfolding put_def x(3) vscnprintf_bound [OF x(1,2)] ..
  also have "nat (max 0 (min (int (length txt)) (int ?x - 1))) = min (length txt) (LOG_MAX_LEN - 1 - length buf)"
    using x(1) by (simp add: min_def max_def of_nat_diff) arith
  finally show eq: "put txt buf = buf @ take (LOG_MAX_LEN - 1 - length buf) txt"
    by (simp add: min_def)
  show "length (put txt buf) < LOG_MAX_LEN" using assms by (simp add: eq)
qed

lemma put_time_bound: "length buf < LOG_MAX_LEN \<Longrightarrow> length (put_time stamp buf) < LOG_MAX_LEN"
  by (auto simp: put_time_def)

lemma log_line_total:
  assumes "file_part file = Some name"
  shows "\<exists>buf. log_line stamp usec file line msg = Some (buf @ [10]) \<and> length buf < LOG_MAX_LEN"
proof -
  have "length [91::byte] < LOG_MAX_LEN" by (simp add: LOG_MAX_LEN_def)
  note b = put_bound(1) [OF put_bound(1) [OF put_bound(1) [OF put_time_bound [OF this]]],
      of msg "[93, 32, 91] @ name @ [58] @ int_print line @ [93, 32]" "pad3 (usec div 1000)" stamp]
  then show ?thesis using assms by (simp add: log_line_def end_line_def Let_def)
qed

lemma last_loop_none:
  "0 \<notin> set s \<Longrightarrow> c \<notin> set s \<Longrightarrow> last_loop (s @ [0]) c i lst = Some lst"
  by (induction s arbitrary: i) auto

lemma last_loop_hit:
  "0 \<notin> set (xs @ c # ys) \<Longrightarrow> c \<notin> set ys \<Longrightarrow> lst \<le> i \<Longrightarrow> last_loop (xs @ c # ys @ [0]) c i lst = Some (i + int (length xs))"
proof (induction xs arbitrary: i lst)
  case Nil
  then show ?case using last_loop_none [of ys c] by auto
next
  case (Cons x xs)
  then show ?case using Cons.IH [of "i + 1"] by auto
qed

text \<open>The directory is cut off; a name without a directory loses its first letter.\<close>

lemma file_part_dir:
  assumes "0 \<notin> set (dir @ name)" "47 \<notin> set name" "length name < 256"
  shows "file_part (dir @ 47 # name) = Some name"
proof -
  have "stringLastOf (Some (dir @ 47 # name @ [0])) 47 = Some (int (length dir))"
    using last_loop_hit [of dir 47 name 0 0] assms
    by (cases dir) (auto simp: stringLastOf_def)
  with assms(3) show ?thesis by (simp add: file_part_def nat_add_distrib)
qed

lemma file_part_plain:
  assumes "0 \<notin> set (c # name)" "47 \<notin> set (c # name)" "length name < 256"
  shows "file_part (c # name) = Some name"
  using last_loop_none [of "c # name" 47 0 0] assms
  by (simp add: file_part_def stringLastOf_def)

text \<open>C34. A line of the log always fits its buffer, with its line end, whatever the message,
  the file and the time stamp; the only inputs it does not survive are file names that do not
  fit their own buffer.\<close>
theorem log_line_fits:
  assumes "file_part file = Some name"
  shows "\<exists>buf. log_line stamp usec file line msg = Some (buf @ [10]) \<and> length (buf @ [10]) \<le> LOG_MAX_LEN"
  using log_line_total [OF assms] by (force simp: Suc_le_eq)

theorem log_line_fits_witness:
  "\<exists>buf. log_line [] 0 [47, 97] 1 (replicate 5000 65) = Some (buf @ [10]) \<and> length (buf @ [10]) \<le> LOG_MAX_LEN"
proof -
  have "file_part ([] @ 47 # [97]) = Some [97]" by (rule file_part_dir) simp_all
  from log_line_fits [OF this] show ?thesis by simp
qed

end
