(* ===== verification/NcMain.thy ===== *)
theory NcMain
  imports NcCore NcLog
begin

text \<open>
  \<^verbatim>\<open>nc.cpp\<close>: the command line, the start of the program and \<open>main\<close>. \<^verbatim>\<open>getopt_long\<close> is a
  library function: the list of its answers is a parameter. Only printing is left out. The
  program makes one context per configured pool; the world has one, so \<open>main\<close> is modelled
  for a configuration with at most one pool.
\<close>

section \<open>Options\<close>

definition NC_LOG_DEFAULT :: int where "NC_LOG_DEFAULT = LLOG_VVVERB"
definition NC_STATS_PORT :: u16 where "NC_STATS_PORT = 22222"
definition NC_STATS_INTERVAL :: int where "NC_STATS_INTERVAL = 30 * 1000"
definition NC_LOG_PATH :: string where "NC_LOG_PATH = ''/dev/stdout''"
definition NC_CONF_PATH :: string where "NC_CONF_PATH = ''../conf/nutcracker.yml''"
definition NC_STATS_ADDR :: string where "NC_STATS_ADDR = ''0.0.0.0''"

text \<open>The bytes of a string literal.\<close>

definition bytes_of :: "string \<Rightarrow> bytes" where
  "bytes_of s = map of_char s"

record inst =
  i_log_level :: int
  i_log_filename :: bytes
  i_conf_filename :: bytes
  i_stats_port :: u16
  i_stats_interval :: int
  i_stats_addr :: bytes
  i_hostname :: bytes
  i_mbuf_chunk_size :: u64
  i_pid :: int
  i_pid_filename :: "bytes option"
  i_pidfile :: bool

text \<open>The static flags of the file.\<close>

record flags =
  s_show_help :: bool
  s_show_version :: bool
  s_test_conf :: bool
  s_daemonize :: bool
  s_describe_stats :: bool

definition flags_init :: flags where
  "flags_init = \<lparr>s_show_help = False, s_show_version = False, s_test_conf = False, s_daemonize = False,
     s_describe_stats = False\<rparr>"

text \<open>\<open>hostname\<close>: the answer of \<^verbatim>\<open>gethostname\<close>, \<open>None\<close> for a failure.\<close>

definition ncSetDefaultOptions :: "bytes option \<Rightarrow> inst \<Rightarrow> inst" where
  "ncSetDefaultOptions hostname i = i\<lparr>i_log_level := NC_LOG_DEFAULT, i_log_filename := bytes_of NC_LOG_PATH,
     i_conf_filename := bytes_of NC_CONF_PATH, i_stats_port := NC_STATS_PORT,
     i_stats_addr := bytes_of NC_STATS_ADDR, i_stats_interval := NC_STATS_INTERVAL,
     i_hostname := (case hostname of None \<Rightarrow> unknown | Some h \<Rightarrow> h),
     i_mbuf_chunk_size := of_nat MBUF_SIZE, i_pid := - 1, i_pid_filename := None, i_pidfile := False\<rparr>"

text \<open>
  The answers of \<^verbatim>\<open>getopt_long\<close>: an option without or with an argument, or the question mark.
\<close>

datatype opt = Opt_h | Opt_V | Opt_t | Opt_d | Opt_D | Opt_v bytes | Opt_o bytes | Opt_c bytes
  | Opt_s bytes | Opt_i bytes | Opt_a bytes | Opt_p bytes | Opt_m bytes | Opt_unknown

text \<open>One round of the loop: the status and the new state; \<open>None\<close> is an \<open>int\<close> that overflows.\<close>

definition option_step :: "opt \<Rightarrow> inst \<times> flags \<Rightarrow> (rstatus \<times> inst \<times> flags) option" where
  "option_step x st =
     (let (i, f) = st in
      case x of
        Opt_h \<Rightarrow> Some (NC_OK, i, f\<lparr>s_show_version := True, s_show_help := True\<rparr>)
      | Opt_V \<Rightarrow> Some (NC_OK, i, f\<lparr>s_show_version := True\<rparr>)
      | Opt_t \<Rightarrow> Some (NC_OK, i, f\<lparr>s_test_conf := True\<rparr>)
      | Opt_d \<Rightarrow> Some (NC_OK, i, f\<lparr>s_daemonize := True\<rparr>)
      | Opt_D \<Rightarrow> Some (NC_OK, i, f\<lparr>s_describe_stats := True, s_show_version := True\<rparr>)
      | Opt_v a \<Rightarrow> do {
          value \<leftarrow> nc_atoi a;
          if value < 0 then Some (NC_ERROR, i, f) else Some (NC_OK, i\<lparr>i_log_level := value\<rparr>, f)
        }
      | Opt_o a \<Rightarrow> Some (NC_OK, i\<lparr>i_log_filename := a\<rparr>, f)
      | Opt_c a \<Rightarrow> Some (NC_OK, i\<lparr>i_conf_filename := a\<rparr>, f)
      | Opt_s a \<Rightarrow> do {
          value \<leftarrow> nc_atoi a;
          if value < 0 then Some (NC_ERROR, i, f)
          else if \<not> ncValidPort value then Some (NC_ERROR, i, f)
          else Some (NC_OK, i\<lparr>i_stats_port := word_of_int value\<rparr>, f)
        }
      | Opt_i a \<Rightarrow> do {
          value \<leftarrow> nc_atoi a;
          if value < 0 then Some (NC_ERROR, i, f) else Some (NC_OK, i\<lparr>i_stats_interval := value\<rparr>, f)
        }
      | Opt_a a \<Rightarrow> Some (NC_OK, i\<lparr>i_stats_addr := a\<rparr>, f)
      | Opt_p a \<Rightarrow> Some (NC_OK, i\<lparr>i_pid_filename := Some a\<rparr>, f)
      | Opt_m a \<Rightarrow> do {
          value \<leftarrow> nc_atoi a;
          if value \<le> 0 then Some (NC_ERROR, i, f)
          else if value < int MBUF_MIN_SIZE \<or> value > int MBUF_MAX_SIZE then Some (NC_ERROR, i, f)
          else Some (NC_OK, i\<lparr>i_mbuf_chunk_size := word_of_int value\<rparr>, f)
        }
      | Opt_unknown \<Rightarrow> Some (NC_ERROR, i, f))"

fun ncGetOptions :: "opt list \<Rightarrow> inst \<times> flags \<Rightarrow> (rstatus \<times> inst \<times> flags) option" where
  "ncGetOptions [] st = Some (NC_OK, st)"
| "ncGetOptions (x # xs) st = do {
     (status, st) \<leftarrow> option_step x st;
     if status \<noteq> NC_OK then Some (status, st) else ncGetOptions xs st
   }"

section \<open>Start\<close>

text \<open>
  What the start gets from outside: the answer of \<^verbatim>\<open>fopen\<close> and the events of the
  configuration file, \<^verbatim>\<open>fseek\<close> and the YAML parser, \<^verbatim>\<open>open\<close> of the log file, the kernel for
  becoming a daemon, the process number and \<^verbatim>\<open>sigaction\<close>.
\<close>

record start =
  a_env :: env
  a_fopen :: bool
  a_events :: "yaml_event option list"
  a_seek :: int
  a_init :: bool
  a_opens :: "bytes option \<Rightarrow> int"
  a_kernel :: kernel
  a_pid :: int
  a_sigaction :: "signal \<Rightarrow> int"

definition read_conf :: "start \<Rightarrow> inst \<Rightarrow> (rstatus \<times> conf) option" where
  "read_conf a i =
     (let (status, cf) = conf_openFile (a_fopen a) (i_conf_filename i) (a_events a) (conf_new (a_seek a) (a_init a)) in
      if status \<noteq> NC_OK then Some (status, cf) else parseProcess (a_env a) cf)"

definition ncTestConf :: "start \<Rightarrow> inst \<Rightarrow> bool option" where
  "ncTestConf a i = map_option (\<lambda>(status, cf). status = NC_OK) (read_conf a i)"

text \<open>\<open>ncInit\<close>, with the signal handlers it installed. \<open>Exited\<close> is the parent process of a daemon.\<close>

definition ncInit :: "start \<Rightarrow> flags \<Rightarrow> inst \<Rightarrow> (daemon \<times> conf \<times> inst \<times> (signal \<times> bool) list) option" where
  "ncInit a f i = do {
     (status, cf) \<leftarrow> read_conf a i;
     if status \<noteq> NC_OK then Some (Returned NC_ERROR, cf, i, [])
     else
       let (status, lg) = logger_init (a_opens a) (i_log_level i) (Some (i_log_filename i)) logger_new in
       if status \<noteq> NC_OK then Some (Returned status, cf, i, [])
       else
         let d = (if s_daemonize f then fst (run_state (ncDaemonize (a_kernel a) True) []) else Returned NC_OK) in
         if d \<noteq> Returned NC_OK then Some (d, cf, i, [])
         else
           Some (Returned NC_OK, cf, i\<lparr>i_pid := a_pid a\<rparr>, install_signals (a_sigaction a))
   }"

section \<open>The main function\<close>

text \<open>The loop of \<open>main\<close>; \<open>clocks n\<close> is the clock of round \<open>n\<close>.\<close>

partial_function (option) serve ::
  "(nat \<Rightarrow> nat \<Rightarrow> (int \<times> int) option) \<Rightarrow> nat \<Rightarrow> wait_reply list \<Rightarrow> world \<Rightarrow> (world \<times> wait_reply list) option" where
  "serve clocks n replies w = do {
     (status, w, replies) \<leftarrow> instance_loop (clocks n) replies w;
     if status \<noteq> NC_OK then Some (w, replies) else serve clocks (n + 1) replies w
   }"

text \<open>
  \<open>main\<close>: the exit status, and the world when a context was made. \<open>None\<close> is a crash, a loop
  that does not end, or a configuration with more than one pool.
\<close>

record memory =
  k_inst :: inst
  k_spool :: spool
  k_server :: "nat \<Rightarrow> server"

definition nc_main ::
  "memory \<Rightarrow> start \<Rightarrow> bytes option \<Rightarrow> opt list \<Rightarrow> (nat \<Rightarrow> nat \<Rightarrow> (int \<times> int) option) \<Rightarrow> wait_reply list \<Rightarrow> world
    \<Rightarrow> (int \<times> world) option" where
  "nc_main mem a hostname opts clocks replies w = do {
     (status, i, f) \<leftarrow> ncGetOptions opts (ncSetDefaultOptions hostname (k_inst mem), flags_init);
     if status \<noteq> NC_OK then Some (1, w)
     else if s_show_version f then Some (0, w)
     else if s_test_conf f then do {
       good \<leftarrow> ncTestConf a i;
       Some (if good then 0 else 1, w)
     } else do {
       (d, cf, i, signals) \<leftarrow> ncInit a f i;
       case d of
         Exited \<Rightarrow> Some (0, w)
       | Returned status \<Rightarrow>
           if status = NC_OK then
             (case cf_pool cf of
                [] \<Rightarrow> do { (w, replies) \<leftarrow> serve clocks 0 replies w; Some (1, w) }
              | [p] \<Rightarrow> do {
                  (made, w) \<leftarrow> createContext (ucast (i_mbuf_chunk_size i)) (k_spool mem) (k_server mem) p w;
                  if \<not> made then Some (1, w)
                  else do { (w, replies) \<leftarrow> serve clocks 0 replies w; Some (1, w) }
                }
              | _ \<Rightarrow> None)
           else Some (1, w)
     }
   }"

end
