(* ===== verification/NcConfSpec.thy ===== *)
theory NcConfSpec
  imports NcConf
begin

text \<open>
  What the configuration code computes. The first part is about one address line: printing a
  host, a port (and a weight) and parsing the line again gives them back, and whatever is
  accepted is in range. The second part is about a whole file: a configuration is turned into
  the events of the library, and the machine builds exactly the pools that the entries of the
  configuration describe.
\<close>

section \<open>Strings made from texts\<close>

definition str_of :: "bytes \<Rightarrow> ncstring" where
  "str_of t = \<lparr>s_len = of_nat (length t), s_data = t @ [0]\<rparr>"

definition good_text :: "bytes \<Rightarrow> bool" where
  "good_text t \<longleftrightarrow> 0 \<notin> set t \<and> length t < 2 ^ 32 - 1"

lemma str_of_repr: "good_text t \<Longrightarrow> str_repr (str_of t) t"
  by (simp add: good_text_def str_repr_def str_of_def)

lemma str_dup_prefix:
  assumes "good_text t"
  shows "str_dup (t @ c # rest) (of_nat (length t)) = Some \<lparr>s_len = of_nat (length t),
    s_data = (if c = 0 then t @ [0] else t @ [0, 0])\<rparr>"
proof -
  let ?n = "of_nat (length t) :: u32"
  have n: "unat ?n = length t" using assms by (intro unat_len) (simp add: good_text_def)
  have "?n + 1 = of_nat (Suc (length t))" by simp
  then have n1: "unat (?n + 1) = Suc (length t)"
    using assms by (simp add: good_text_def unat_of_nat take_bit_nat_eq_self del: of_nat_Suc)
  show ?thesis
    using assms strndup_text [of t c rest]
    by (simp add: good_text_def str_dup_def n n1 store_def list_update_append)
qed

lemma str_dup_text: "good_text t \<Longrightarrow> str_dup (t @ [0]) (of_nat (length t)) = Some (str_of t)"
  by (simp add: str_dup_prefix str_of_def)

lemma str_copy_of: "good_text t \<Longrightarrow> str_copy (str_of t) = Some (str_of t)"
  using str_dup_text by (simp add: str_copy_def str_of_def)

lemma str_text_repr: "str_repr s t \<Longrightarrow> str_text s = t"
  using unat_len [of t] by (auto simp: str_repr_def str_text_def)

section \<open>One address line\<close>

lemma str_mem_hit:
  assumes "s_data v = xs @ c # ys @ rest" "c \<noteq> 0" "c \<notin> set ys" "0 \<notin> set ys" "xs \<noteq> []"
  shows "nc_strrchr (str_mem v) (int (length xs + length ys)) 0 c = Some (int (length xs))"
proof -
  have "nc_strrchr (str_mem v) (int (length xs + length ys)) 0 c
      = (if int (length xs) = 0 then None else Some (int (length xs)))"
  proof (rule nc_strrchr_hit)
    show "\<forall>i. int (length xs) < i \<and> i \<le> int (length xs + length ys) \<longrightarrow> str_mem v i \<noteq> 0 \<and> str_mem v i \<noteq> c"
    proof (intro allI impI)
      fix i assume i: "int (length xs) < i \<and> i \<le> int (length xs + length ys)"
      define k where "k = nat i - length xs - 1"
      have "k < length ys" "nat i = length (xs @ [c]) + k" "0 \<le> i" using i by (auto simp: k_def)
      then have "str_mem v i = ys ! k" by (auto simp: str_mem_def assms(1) nth_append)
      with \<open>k < length ys\<close> assms(3,4) show "str_mem v i \<noteq> 0 \<and> str_mem v i \<noteq> c"
        by (metis nth_mem)
    qed
  qed (use assms in \<open>simp_all add: str_mem_def\<close>)
  with assms(5) show ?thesis by simp
qed

lemma str_slice_mid:
  "s_data v = xs @ ys @ rest \<Longrightarrow> str_slice v (int (length xs)) (int (length ys)) = Some ys"
  by (simp add: str_slice_def nat_int_add)

lemma dec_print_chars: "c \<in> set (dec_print n) \<Longrightarrow> c \<noteq> 0 \<and> c \<noteq> 58 \<and> c \<noteq> 32"
  using dec_print_digits [of n] by (auto simp: is_digit_def)

lemma dec_print_atoi: "n < 2 ^ 31 \<Longrightarrow> nc_atoi (dec_print n) = Some (int n)"
proof -
  assume n: "n < 2 ^ 31"
  have "dec_print n \<noteq> []" by (subst dec_print.simps) simp
  with n show ?thesis using nc_atoi_digits [OF _ dec_print_digits [of n]] by (simp add: dec_print_value)
qed

lemma parse_finish_ok:
  assumes "str_repr v (t @ rest)" "ncResolve gai (Some t) (cl_port l) (cl_info l) = (0, info)"
  shows "\<exists>pn nm. parse_finish gai v (int (length t)) l
      = Some (NC_OK, l\<lparr>cl_pname := pn, cl_name := nm, cl_info := info, cl_valid := 1\<rparr>)
    \<and> str_repr pn (t @ rest) \<and> str_repr nm t"
proof -
  from assms(1) obtain x where d: "s_data v = t @ rest @ 0 # x" "0 \<notin> set (t @ rest)" "length (t @ rest) < 2 ^ 32 - 1"
    "s_len v = of_nat (length (t @ rest))" by (auto simp: str_repr_def)
  obtain pn where pn: "str_dup (s_data v) (s_len v) = Some pn" "str_repr pn (t @ rest)"
    using str_dup_repr [OF d(2,3), of 0 x] d by auto
  have t: "0 \<notin> set t" "length t < 2 ^ 32 - 1" using d by auto
  obtain c y where "rest @ 0 # x = c # y" by (cases rest) auto
  then obtain tmp where tmp: "str_dup (s_data v) (of_nat (length t)) = Some tmp" "str_repr tmp t"
    using str_dup_repr [OF t, of c y] d(1) by auto
  obtain nm where nm: "str_dup (s_data tmp) (s_len tmp) = Some nm" "str_repr nm t"
    using str_copy_repr [OF tmp(2)] by (auto simp: str_copy_def)
  have "parse_finish gai v (int (length t)) l = Some (NC_OK, l\<lparr>cl_pname := pn, cl_name := nm, cl_info := info, cl_valid := 1\<rparr>)"
    by (simp add: parse_finish_def str_assign_def str_from_def pn tmp nm str_text_repr [OF nm(2)] assms(2))
  with pn nm show ?thesis by blast
qed

lemma parse_port_printed:
  assumes "s_data v = xs @ 58 # dec_print n @ rest" "n < 2 ^ 31"
  shows "parse_port v (int (length xs)) (int (length xs + length (dec_print n))) l
    = Some (if 1 \<le> n \<and> n \<le> 65535 then NC_OK else NC_ERROR, l\<lparr>cl_port := int n\<rparr>)"
proof -
  have "str_slice v (int (length (xs @ [58]))) (int (length (dec_print n))) = Some (dec_print n)"
    by (rule str_slice_mid [of _ _ _ rest]) (simp add: assms(1))
  then have "str_slice v (int (length xs) + 1) (int (length (dec_print n))) = Some (dec_print n)"
    by (simp add: add.commute)
  with assms(2) show ?thesis by (auto simp: parse_port_def dec_print_atoi ncValidPort_def)
qed

lemma repr_data:
  "str_repr v t \<Longrightarrow> \<exists>x. s_data v = t @ 0 # x \<and> unat (s_len v) = length t"
  using unat_len [of t] by (auto simp: str_repr_def)

lemma listen_parse_host:
  assumes "s_data v = c # y" "c \<noteq> 47" "nc_strrchr (str_mem v) (int (unat (s_len v)) - 1) 0 58 = Some q"
    and "parse_port v q (int (unat (s_len v)) - 1) l = Some (NC_OK, l')"
  shows "conf_listen_parse gai v l = parse_finish gai v q l'"
  using assms by (simp add: conf_listen_parse_def Let_def)

lemma server_parse_host:
  assumes "s_data v = c # y" "c \<noteq> 47" "nc_strrchr (str_mem v) (int (unat (s_len v)) - 1) 0 58 = Some w"
    and "nc_strrchr (str_mem v) (w - 1) 0 58 = Some q" "parse_port v q (w - 1) l = Some (NC_OK, l')"
  shows "conf_server_parse gai v l = parse_weight gai v w q l'"
  using assms by (simp add: conf_server_parse_def Let_def)

lemma listen_roundtrip:
  assumes "str_repr v (host @ 58 # dec_print n)" "host \<noteq> []" "hd host \<noteq> 47" "1 \<le> n" "n \<le> 65535"
    and "ncResolve gai (Some host) (int n) (cl_info l) = (0, info)"
  shows "\<exists>pn nm. conf_listen_parse gai v l = Some (NC_OK, l\<lparr>cl_port := int n, cl_pname := pn, cl_name := nm,
      cl_info := info, cl_valid := 1\<rparr>) \<and> str_repr pn (host @ 58 # dec_print n) \<and> str_repr nm host"
proof -
  obtain x where x: "s_data v = host @ 58 # dec_print n @ 0 # x" "unat (s_len v) = length host + 1 + length (dec_print n)"
    using repr_data [OF assms(1)] by auto
  obtain c h where h: "s_data v = c # h" "c \<noteq> 47" using assms(2,3) x(1) by (cases host) auto
  have last: "int (unat (s_len v)) - 1 = int (length host + length (dec_print n))" using x(2) by simp
  have hit: "nc_strrchr (str_mem v) (int (unat (s_len v)) - 1) 0 58 = Some (int (length host))"
    unfolding last by (rule str_mem_hit [OF x(1)]) (use dec_print_chars [of _ n] assms(2) in auto)
  have port: "parse_port v (int (length host)) (int (unat (s_len v)) - 1) l = Some (NC_OK, l\<lparr>cl_port := int n\<rparr>)"
    unfolding last using parse_port_printed [OF x(1)] assms(4,5) by simp
  obtain pn nm where f: "parse_finish gai v (int (length host)) (l\<lparr>cl_port := int n\<rparr>)
      = Some (NC_OK, l\<lparr>cl_port := int n, cl_pname := pn, cl_name := nm, cl_info := info, cl_valid := 1\<rparr>)"
      "str_repr pn (host @ 58 # dec_print n)" "str_repr nm host"
    using parse_finish_ok [OF assms(1), of gai "l\<lparr>cl_port := int n\<rparr>" info] assms(6) by auto
  with listen_parse_host [OF h hit port, of gai] show ?thesis by auto
qed

lemma server_roundtrip:
  assumes "str_repr v (host @ 58 # dec_print n @ 58 # dec_print k)" "host \<noteq> []" "hd host \<noteq> 47"
    and "1 \<le> n" "n \<le> 65535" "k < 2 ^ 31" "ncResolve gai (Some host) (int n) (cl_info l) = (0, info)"
  shows "\<exists>pn nm. conf_server_parse gai v l = Some (NC_OK, l\<lparr>cl_port := int n, cs_weight := int k, cl_pname := pn,
      cl_name := nm, cl_info := info, cl_valid := 1\<rparr>)
    \<and> str_repr pn (host @ 58 # dec_print n @ 58 # dec_print k) \<and> str_repr nm host"
proof -
  let ?q = "int (length host)" and ?w = "int (length (host @ 58 # dec_print n))"
  obtain x where x: "s_data v = host @ 58 # dec_print n @ 58 # dec_print k @ 0 # x"
    "unat (s_len v) = length (host @ 58 # dec_print n) + 1 + length (dec_print k)"
    using repr_data [OF assms(1)] by auto
  then have x2: "s_data v = (host @ 58 # dec_print n) @ 58 # dec_print k @ 0 # x" by simp
  obtain c h where h: "s_data v = c # h" "c \<noteq> 47" using assms(2,3) x(1) by (cases host) auto
  have last: "int (unat (s_len v)) - 1 = int (length (host @ 58 # dec_print n) + length (dec_print k))"
    and mid: "?w - 1 = int (length host + length (dec_print n))" using x(2) by simp_all
  have hit: "nc_strrchr (str_mem v) (int (unat (s_len v)) - 1) 0 58 = Some ?w"
    unfolding last by (rule str_mem_hit [OF x2]) (use dec_print_chars [of _ k] in auto)
  have hit2: "nc_strrchr (str_mem v) (?w - 1) 0 58 = Some ?q"
    unfolding mid by (rule str_mem_hit [OF x(1)]) (use dec_print_chars [of _ n] assms(2) in auto)
  have port: "parse_port v ?q (?w - 1) l = Some (NC_OK, l\<lparr>cl_port := int n\<rparr>)"
    unfolding mid using parse_port_printed [OF x(1)] assms(4,5) by simp
  have "str_slice v (int (length (host @ 58 # dec_print n @ [58]))) (int (length (dec_print k))) = Some (dec_print k)"
    by (rule str_slice_mid [of _ _ _ "0 # x"]) (simp add: x(1))
  moreover have "?w + 1 = int (length (host @ 58 # dec_print n @ [58]))"
    "int (unat (s_len v)) - 1 - (?w + 1) + 1 = int (length (dec_print k))" unfolding last by simp_all
  ultimately have wt: "parse_weight gai v ?w ?q l' = parse_finish gai v ?q (l'\<lparr>cs_weight := int k\<rparr>)" for l'
    using assms(6) by (simp only: parse_weight_def) (simp add: dec_print_atoi)
  obtain pn nm where f: "parse_finish gai v ?q (l\<lparr>cl_port := int n, cs_weight := int k\<rparr>)
      = Some (NC_OK, l\<lparr>cl_port := int n, cs_weight := int k, cl_pname := pn, cl_name := nm, cl_info := info, cl_valid := 1\<rparr>)"
      "str_repr pn (host @ 58 # dec_print n @ 58 # dec_print k)" "str_repr nm host"
    using parse_finish_ok [OF assms(1), of gai "l\<lparr>cl_port := int n, cs_weight := int k\<rparr>" info] assms(7) by auto
  with server_parse_host [OF h hit hit2 port, of gai] wt show ?thesis by auto
qed

text \<open>Whatever is accepted has a port or permissions and a weight in range.\<close>

lemma parse_finish_keeps:
  "parse_finish gai v n l = Some (r, l') \<Longrightarrow> cl_port l' = cl_port l \<and> cl_perm l' = cl_perm l
    \<and> conf_listen.more l' = conf_listen.more l \<and> (r = NC_OK \<longrightarrow> cl_valid l' = 1)"
  unfolding parse_finish_def Let_def bind_eq_Some_conv
  by (elim exE conjE) (auto split: prod.split_asm if_split_asm)

lemma conf_server_more: "conf_listen.more l' = conf_listen.more l \<Longrightarrow> cs_weight l' = cs_weight (l::conf_server)"
  by (cases l; cases l') simp

lemma parse_weight_keeps:
  assumes "parse_weight gai v q n l = Some (NC_OK, l')"
  shows "cl_port l' = cl_port l \<and> cl_perm l' = cl_perm l \<and> cl_valid l' = 1 \<and> 0 \<le> cs_weight l' \<and> cs_weight l' < 2 ^ 31"
proof -
  from assms obtain ds k where k: "nc_atoi ds = Some k" "0 \<le> k" "parse_finish gai v n (l\<lparr>cs_weight := k\<rparr>) = Some (NC_OK, l')"
    unfolding parse_weight_def Let_def bind_eq_Some_conv by (elim exE conjE) (auto split: if_split_asm)
  have "k < 2 ^ 31" using nc_atoi_range [OF k(1)] by simp
  moreover have "cs_weight l' = k" using conf_server_more [of l' "l\<lparr>cs_weight := k\<rparr>"] parse_finish_keeps [OF k(3)] by simp
  ultimately show ?thesis using parse_finish_keeps [OF k(3)] k(2) by simp
qed

lemma parse_port_ok:
  "parse_port v q p l = Some (NC_OK, l') \<Longrightarrow> 1 \<le> cl_port l' \<and> cl_port l' \<le> 65535"
  by (auto simp: parse_port_def ncValidPort_def Let_def bind_eq_Some_conv split: if_splits)

lemma parse_perm_ok: "parse_perm v q l = (NC_OK, l') \<Longrightarrow> cl_perm l' \<le> 0x1FF"
  by (auto simp: parse_perm_def Let_def split: prod.splits if_splits)

lemma listen_accepted:
  assumes "conf_listen_parse gai v l = Some (NC_OK, l')"
  shows "cl_valid l' = 1 \<and> (if hd (s_data v) = 47 then cl_perm l' = cl_perm l \<or> cl_perm l' \<le> 0x1FF
    else 1 \<le> cl_port l' \<and> cl_port l' \<le> 65535)"
  using assms
  by (auto simp: conf_listen_parse_def Let_def bind_eq_Some_conv dest!: parse_finish_keeps parse_port_ok parse_perm_ok
    split: list.split_asm option.split_asm if_split_asm prod.split_asm)

lemma server_accepted:
  assumes "conf_server_parse gai v l = Some (NC_OK, l')"
  shows "cl_valid l' = 1 \<and> 0 \<le> cs_weight l' \<and> cs_weight l' < 2 ^ 31
    \<and> (if hd (s_data v) = 47 then cl_perm l' = cl_perm l \<or> cl_perm l' \<le> 0x1FF
    else 1 \<le> cl_port l' \<and> cl_port l' \<le> 65535)"
  using assms
  by (auto simp: conf_server_parse_def Let_def bind_eq_Some_conv dest!: parse_weight_keeps parse_port_ok parse_perm_ok
    split: list.split_asm option.split_asm if_split_asm prod.split_asm)

section \<open>A whole file\<close>

text \<open>A configuration, and the events the library makes of it.\<close>

datatype conf_value = Scalar bytes | Items "bytes list"

type_synonym entry = "bytes \<times> conf_value"
type_synonym config = "(bytes \<times> entry list) list"

fun entry_events :: "entry \<Rightarrow> yaml_event list" where
  "entry_events (k, Scalar v) = [SCALAR_EVENT k, SCALAR_EVENT v]"
| "entry_events (k, Items vs) = SCALAR_EVENT k # SEQUENCE_START_EVENT # map SCALAR_EVENT vs @ [SEQUENCE_END_EVENT]"

fun pool_events :: "bytes \<times> entry list \<Rightarrow> yaml_event list" where
  "pool_events (n, es) = SCALAR_EVENT n # MAPPING_START_EVENT # concat (map entry_events es) @ [MAPPING_END_EVENT]"

definition config_events :: "config \<Rightarrow> yaml_event list" where
  "config_events ps = [STREAM_START_EVENT, DOCUMENT_START_EVENT, MAPPING_START_EVENT] @ concat (map pool_events ps)
     @ [MAPPING_END_EVENT, DOCUMENT_END_EVENT, STREAM_END_EVENT]"

fun value_texts :: "conf_value \<Rightarrow> bytes list" where
  "value_texts (Scalar v) = [v]"
| "value_texts (Items vs) = vs"

definition scalar_ok :: "bytes \<Rightarrow> bool" where
  "scalar_ok t \<longleftrightarrow> t \<noteq> [] \<and> good_text t"

definition entry_ok :: "entry \<Rightarrow> bool" where
  "entry_ok en \<longleftrightarrow> scalar_ok (fst en) \<and> (\<forall>v\<in>set (value_texts (snd en)). scalar_ok v)"

definition config_ok :: "config \<Rightarrow> bool" where
  "config_ok ps \<longleftrightarrow> (\<forall>p\<in>set ps. scalar_ok (fst p) \<and> (\<forall>en\<in>set (snd p). entry_ok en))"

text \<open>
  What a configuration means: a pool with the defaults, to which its entries are applied in
  order, the items of a list one by one.
\<close>

fun apply_values :: "env \<Rightarrow> bytes \<Rightarrow> bytes list \<Rightarrow> conf_pool \<Rightarrow> conf_pool option" where
  "apply_values e k [] p = Some p"
| "apply_values e k (v # vs) p = do { p \<leftarrow> handle_entry e (str_of k) (str_of v) p; apply_values e k vs p }"

fun apply_entries :: "env \<Rightarrow> entry list \<Rightarrow> conf_pool \<Rightarrow> conf_pool option" where
  "apply_entries e [] p = Some p"
| "apply_entries e (en # es) p = do { p \<leftarrow> apply_values e (fst en) (value_texts (snd en)) p; apply_entries e es p }"

fun pools_of :: "env \<Rightarrow> config \<Rightarrow> conf_pool list \<Rightarrow> conf_pool list option" where
  "pools_of e [] qs = Some qs"
| "pools_of e (p # ps) qs = do {
     q \<leftarrow> apply_entries e (snd p) (conf_pool_new (e_pool e (length qs)));
     pools_of e ps (qs @ [q])
   }"

text \<open>The states of the machine between two events.\<close>

definition at_state :: "conf \<Rightarrow> yaml_event list \<Rightarrow> u32 \<Rightarrow> bytes list \<Rightarrow> bool \<Rightarrow> conf_pool list \<Rightarrow> conf" where
  "at_state b evs d args sq ps = b\<lparr>cf_parser := map Some evs, cf_depth := d, cf_args := map str_of args,
     cf_seq := sq, cf_pool := ps, cf_event := NO_EVENT, cf_valid_event := False\<rparr>"

lemma push_scalar:
  "scalar_ok t \<Longrightarrow> yamlPushScalar t cf = Some (NC_OK, cf\<lparr>cf_args := cf_args cf @ [str_of t]\<rparr>)"
  using u32_of_nat_neq_0 [of "length t"]
  by (auto simp: scalar_ok_def yamlPushScalar_def str_from_def str_dup_text str_copy_of good_text_def)

lemmas core_defs = core_step_def core_switch_def core_scalar_def core_leaf_def yamlEventNext_def yamlEventDone_def
  yamlPopScalar_def at_state_def CONF_ROOT_DEPTH_def Let_def push_scalar

lemma core_pool_name:
  "scalar_ok n \<Longrightarrow> core_step e data (at_state b (SCALAR_EVENT n # evs) 1 [] False ps)
    = Some (Inr (Some (length ps)), at_state b evs 1 [n] False (ps @ [conf_pool_new (e_pool e (length ps))]))"
  by (simp add: core_defs conf_handler_def)

lemma core_mapping_start:
  "core_step e data (at_state b (MAPPING_START_EVENT # evs) d args sq ps)
    = Some (Inr data, at_state b evs (d + 1) args sq ps)"
  by (simp add: core_defs)

lemma core_key:
  "scalar_ok k \<Longrightarrow> core_step e data (at_state b (SCALAR_EVENT k # evs) 2 [n] False ps)
    = Some (Inr data, at_state b evs 2 [n, k] False ps)"
  by (simp add: core_defs)

lemma core_value:
  "scalar_ok k \<Longrightarrow> scalar_ok v \<Longrightarrow> core_step e (Some j) (at_state b (SCALAR_EVENT v # evs) 2 [n, k] False ps)
    = map_option (\<lambda>p. (Inr (Some j), at_state b evs 2 [n] False (ps[j := p]))) (handle_entry e (str_of k) (str_of v) (ps ! j))"
  by (simp add: core_defs conf_handler_def nth_append str_copy_of scalar_ok_def map_option_case split: option.split)

lemma core_seq_start:
  "core_step e data (at_state b (SEQUENCE_START_EVENT # evs) d args sq ps) = Some (Inr data, at_state b evs d args True ps)"
  by (simp add: core_defs)

lemma core_item:
  "scalar_ok k \<Longrightarrow> scalar_ok v \<Longrightarrow> core_step e (Some j) (at_state b (SCALAR_EVENT v # evs) 2 [n, k] True ps)
    = map_option (\<lambda>p. (Inr (Some j), at_state b evs 2 [n, k] True (ps[j := p]))) (handle_entry e (str_of k) (str_of v) (ps ! j))"
  by (simp add: core_defs conf_handler_def nth_append str_copy_of scalar_ok_def map_option_case split: option.split)

lemma core_seq_end:
  "core_step e data (at_state b (SEQUENCE_END_EVENT # evs) d (args @ [k]) sq ps) = Some (Inr data, at_state b evs d args False ps)"
  by (simp add: core_defs)

lemma core_pool_end:
  "core_step e data (at_state b (MAPPING_END_EVENT # evs) 2 [n] sq ps) = Some (Inr data, at_state b evs 1 [] sq ps)"
  by (simp add: core_defs)

lemma core_end:
  "core_step e data (at_state b (MAPPING_END_EVENT # evs) 1 [] sq ps) = Some (Inl NC_OK, at_state b evs 0 [] sq ps)"
  by (simp add: core_defs)

lemma parseCore_step:
  "parseCore e data cf = Option.bind (core_step e data cf)
     (\<lambda>(r, cf). case r of Inl status \<Rightarrow> Some (status, cf) | Inr data \<Rightarrow> parseCore e data cf)"
  by (subst parseCore.simps) simp

lemma run_items:
  "scalar_ok k \<Longrightarrow> \<forall>v\<in>set vs. scalar_ok v \<Longrightarrow>
   parseCore e (Some (length qs)) (at_state b (map SCALAR_EVENT vs @ evs) 2 [n, k] True (qs @ [p]))
   = Option.bind (apply_values e k vs p)
       (\<lambda>p. parseCore e (Some (length qs)) (at_state b evs 2 [n, k] True (qs @ [p])))"
proof (induction vs arbitrary: p)
  case (Cons v vs)
  then show ?case
    by (subst parseCore_step)
      (cases "handle_entry e (str_of k) (str_of v) p"; simp add: core_item nth_append list_update_append)
qed simp

lemma run_entry:
  assumes "entry_ok en"
  shows "parseCore e (Some (length qs)) (at_state b (entry_events en @ evs) 2 [n] False (qs @ [p]))
   = Option.bind (apply_values e (fst en) (value_texts (snd en)) p)
       (\<lambda>p. parseCore e (Some (length qs)) (at_state b evs 2 [n] False (qs @ [p])))"
proof (cases en)
  case (Pair k val)
  show ?thesis
  proof (cases val)
    case (Scalar v)
    with assms Pair have "scalar_ok k" "scalar_ok v" by (simp_all add: entry_ok_def)
    then show ?thesis
      by (subst parseCore_step, simp add: Pair Scalar core_key, subst parseCore_step)
        (cases "handle_entry e (str_of k) (str_of v) p"; simp add: core_value nth_append list_update_append)
  next
    case (Items vs)
    with assms Pair have ok: "scalar_ok k" "\<forall>v\<in>set vs. scalar_ok v" by (simp_all add: entry_ok_def)
    have "parseCore e (Some (length qs)) (at_state b (entry_events en @ evs) 2 [n] False (qs @ [p]))
        = parseCore e (Some (length qs)) (at_state b (map SCALAR_EVENT vs @ SEQUENCE_END_EVENT # evs) 2 [n, k] True (qs @ [p]))"
      by (subst parseCore_step, simp add: Pair Items core_key ok, subst parseCore_step, simp add: core_seq_start)
    also have "\<dots> = Option.bind (apply_values e k vs p)
       (\<lambda>p. parseCore e (Some (length qs)) (at_state b (SEQUENCE_END_EVENT # evs) 2 [n, k] True (qs @ [p])))"
      by (rule run_items [OF ok])
    also have "\<dots> = Option.bind (apply_values e k vs p)
       (\<lambda>p. parseCore e (Some (length qs)) (at_state b evs 2 [n] False (qs @ [p])))"
      using core_seq_end [where args = "[n]"] by (subst parseCore_step) simp
    finally show ?thesis by (simp add: Pair Items)
  qed
qed

lemma run_entries:
  "\<forall>en\<in>set es. entry_ok en \<Longrightarrow>
   parseCore e (Some (length qs)) (at_state b (concat (map entry_events es) @ evs) 2 [n] False (qs @ [p]))
   = Option.bind (apply_entries e es p)
       (\<lambda>p. parseCore e (Some (length qs)) (at_state b evs 2 [n] False (qs @ [p])))"
proof (induction es arbitrary: p)
  case (Cons en es)
  then show ?case
    using run_entry [of en e qs b "concat (map entry_events es) @ evs" n p]
    by (cases "apply_values e (fst en) (value_texts (snd en)) p") simp_all
qed simp

lemma run_pool:
  assumes "scalar_ok (fst p)" "\<forall>en\<in>set (snd p). entry_ok en"
  shows "parseCore e data (at_state b (pool_events p @ evs) 1 [] False qs)
   = Option.bind (apply_entries e (snd p) (conf_pool_new (e_pool e (length qs))))
       (\<lambda>q. parseCore e (Some (length qs)) (at_state b evs 1 [] False (qs @ [q])))"
proof (cases p)
  case (Pair n es)
  let ?q = "conf_pool_new (e_pool e (length qs))"
  have "parseCore e data (at_state b (pool_events p @ evs) 1 [] False qs)
      = parseCore e (Some (length qs)) (at_state b (concat (map entry_events es) @ MAPPING_END_EVENT # evs) 2 [n] False (qs @ [?q]))"
    using assms Pair
    by (subst parseCore_step, simp add: core_pool_name, subst parseCore_step, simp add: core_mapping_start)
  also have "\<dots> = Option.bind (apply_entries e es ?q)
       (\<lambda>q. parseCore e (Some (length qs)) (at_state b (MAPPING_END_EVENT # evs) 2 [n] False (qs @ [q])))"
    by (rule run_entries) (use assms Pair in simp)
  also have "\<dots> = Option.bind (apply_entries e es ?q)
       (\<lambda>q. parseCore e (Some (length qs)) (at_state b evs 1 [] False (qs @ [q])))"
    by (subst parseCore_step) (simp add: core_pool_end)
  finally show ?thesis by (simp add: Pair)
qed

lemma run_pools:
  "config_ok ps \<Longrightarrow> parseCore e data (at_state b (concat (map pool_events ps) @ MAPPING_END_EVENT # evs) 1 [] False qs)
   = Option.bind (pools_of e ps qs) (\<lambda>qs. Some (NC_OK, at_state b evs 0 [] False qs))"
proof (induction ps arbitrary: qs data)
  case Nil
  show ?case by (subst parseCore_step) (simp add: core_end)
next
  case (Cons p ps)
  then have "config_ok ps" "scalar_ok (fst p)" "\<forall>en\<in>set (snd p). entry_ok en" by (simp_all add: config_ok_def)
  with Cons.IH [of "Some (length qs)"] run_pool [of p e data b "concat (map pool_events ps) @ MAPPING_END_EVENT # evs" qs]
  show ?case by (cases "apply_entries e (snd p) (conf_pool_new (e_pool e (length qs)))") simp_all
qed

lemma begin_skip:
  "cf_parser cf = Some ev # evs \<Longrightarrow> ev \<noteq> MAPPING_START_EVENT \<Longrightarrow>
   begin_loop cf = begin_loop (cf\<lparr>cf_parser := evs, cf_event := NO_EVENT, cf_valid_event := False\<rparr>)"
  by (subst begin_loop.simps) (simp add: yamlEventNext_def yamlEventDone_def Let_def)

lemma begin_hit:
  "cf_parser cf = Some MAPPING_START_EVENT # evs \<Longrightarrow>
   begin_loop cf = Some (NC_OK, cf\<lparr>cf_parser := evs, cf_event := NO_EVENT, cf_valid_event := False, cf_depth := cf_depth cf + 1\<rparr>)"
  by (subst begin_loop.simps) (simp add: yamlEventNext_def yamlEventDone_def Let_def)

lemma end_two:
  "cf_parser cf = [Some DOCUMENT_END_EVENT, Some STREAM_END_EVENT] \<Longrightarrow>
   end_loop cf = Some (NC_OK, cf\<lparr>cf_parser := [], cf_event := NO_EVENT, cf_valid_event := False\<rparr>)"
  by (subst end_loop.simps, simp add: yamlEventNext_def yamlEventDone_def Let_def, subst end_loop.simps)
    (simp add: yamlEventNext_def yamlEventDone_def Let_def)

text \<open>The machine builds the pools the configuration means; it crashes only if they do.\<close>

lemma parseProcess_config:
  assumes "config_ok ps" "0 \<le> seek"
  shows "parseProcess e (snd (conf_openFile True name (map Some (config_events ps)) (conf_new seek True)))
    = map_option (\<lambda>qs. (NC_OK, (conf_new seek True)\<lparr>cf_fname := Some name, cf_fh := True, cf_pool := qs,
        cf_parsed := True\<rparr>)) (pools_of e ps [])"
proof -
  let ?cf = "snd (conf_openFile True name (map Some (config_events ps)) (conf_new seek True))"
  let ?evs = "concat (map pool_events ps) @ MAPPING_END_EVENT # [DOCUMENT_END_EVENT, STREAM_END_EVENT]"
  let ?b = "(conf_new seek True)\<lparr>cf_fname := Some name, cf_fh := True, cf_valid_parser := True\<rparr>"
  have "parseBegin ?cf = Some (NC_OK, at_state ?b ?evs 1 [] False [])"
    using assms(2)
    by (simp add: parseBegin_def yamlInit_def conf_new_def conf_openFile_def config_events_def begin_skip begin_hit
        at_state_def)
  moreover have "parseCore e None (at_state ?b ?evs 1 [] False [])
      = Option.bind (pools_of e ps []) (\<lambda>qs. Some (NC_OK, at_state ?b [DOCUMENT_END_EVENT, STREAM_END_EVENT] 0 [] False qs))"
    by (rule run_pools [OF assms(1)])
  moreover have "parseEnd (at_state ?b [DOCUMENT_END_EVENT, STREAM_END_EVENT] 0 [] False qs)
      = Some (NC_OK, (conf_new seek True)\<lparr>cf_fname := Some name, cf_fh := True, cf_pool := qs\<rparr>)" for qs
    by (simp add: parseEnd_def at_state_def end_two yamlDeinit_def conf_new_def)
  ultimately show ?thesis
    by (cases "pools_of e ps []") (simp_all add: parseProcess_def)
qed

section \<open>When the search for the first mapping ends\<close>

lemma begin_loop_ends:
  assumes "begin_loop cf = Some r"
  shows "\<exists>ev\<in>set (cf_parser cf). ev = None \<or> ev = Some MAPPING_START_EVENT"
  using assms
proof (rule begin_loop.raw_induct [rotated])
  fix loop cf r
  assume IH: "\<And>x y. loop x = Some y \<Longrightarrow> \<exists>ev\<in>set (cf_parser x). ev = None \<or> ev = Some MAPPING_START_EVENT"
    and step: "(let (status, cf) = yamlEventNext cf in
      if status \<noteq> NC_OK then Some (status, cf)
      else
        let finished = (cf_event cf = MAPPING_START_EVENT);
            cf = (if finished then cf\<lparr>cf_depth := cf_depth cf + 1\<rparr> else cf);
            cf = yamlEventDone cf in
        if finished then Some (NC_OK, cf) else loop cf) = Some r"
  show "\<exists>ev\<in>set (cf_parser cf). ev = None \<or> ev = Some MAPPING_START_EVENT"
    using step IH [of "yamlEventDone (snd (yamlEventNext cf))" r]
    by (auto simp: yamlEventNext_def yamlEventDone_def Let_def split: list.split_asm option.split_asm if_split_asm)
qed

lemma begin_loop_total:
  "\<exists>ev\<in>set evs. ev = None \<or> ev = Some MAPPING_START_EVENT \<Longrightarrow> cf_parser cf = evs \<Longrightarrow> begin_loop cf \<noteq> None"
proof (induction evs arbitrary: cf)
  case (Cons ev evs)
  let ?cf = "cf\<lparr>cf_parser := evs, cf_event := NO_EVENT, cf_valid_event := False\<rparr>"
  show ?case
  proof (cases ev)
    case None
    with Cons.prems show ?thesis by (subst begin_loop.simps) (simp add: yamlEventNext_def Let_def)
  next
    case (Some x)
    show ?thesis
    proof (cases "x = MAPPING_START_EVENT")
      case True
      with Some Cons.prems show ?thesis by (simp add: begin_hit)
    next
      case False
      with Some Cons show ?thesis using Cons.IH [of ?cf] by (simp add: begin_skip)
    qed
  qed
qed simp

text \<open>A file without a mapping, the empty one for example, is read for ever.\<close>

lemma parseBegin_ends:
  assumes "0 \<le> cf_seek cf" "cf_init cf"
  shows "parseBegin cf \<noteq> None \<longleftrightarrow> (\<exists>ev\<in>set (cf_parser cf). ev = None \<or> ev = Some MAPPING_START_EVENT)"
  using assms begin_loop_ends [of "cf\<lparr>cf_valid_parser := True\<rparr>"] begin_loop_total [of "cf_parser cf" "cf\<lparr>cf_valid_parser := True\<rparr>"]
  by (auto simp: parseBegin_def yamlInit_def)

section \<open>What the pools look like\<close>

definition server_entry_ok :: "conf_server \<Rightarrow> bool" where
  "server_entry_ok s \<longleftrightarrow> cl_valid s = 1 \<and> 0 \<le> cs_weight s \<and> cs_weight s < 2 ^ 31"

definition pool_servers_ok :: "conf_pool \<Rightarrow> bool" where
  "pool_servers_ok q \<longleftrightarrow> (\<forall>s\<in>set (cp_server q). server_entry_ok s)"

text \<open>Every setting other than the address and the servers keeps the default.\<close>

definition default_settings :: "conf_pool \<Rightarrow> bool" where
  "default_settings q \<longleftrightarrow> cp_name q = str_new \<and> cp_hash_tag q = str_new \<and> cp_timeout q = - 1 \<and> cp_backlog q = 512
     \<and> cp_client_connections q = 0 \<and> cp_tcpkeepalive q = 0 \<and> cp_preconnect q = 0 \<and> cp_auto_eject_hosts q = 0
     \<and> cp_server_connections q = 1 \<and> cp_server_retry_timeout q = 30000 \<and> cp_server_failure_limit q = 2"

lemma new_pool_ok: "pool_servers_ok (conf_pool_new junk)" "default_settings (conf_pool_new junk)"
  by (simp_all add: conf_pool_new_def pool_servers_ok_def default_settings_def conf_default_defs)

lemma handle_entry_cases:
  assumes "handle_entry e k v p = Some p'"
  obtains "p' = p" | l where "p' = p\<lparr>cp_listen := l\<rparr>"
    | cs l where "conf_server_parse (e_gai e) v l = Some (NC_OK, cs)" "p' = p\<lparr>cp_server := cp_server p @ [cs]\<rparr>"
proof -
  obtain b1 where b1: "str_eq_c k (Some (listen_key @ [0])) = Some b1"
    using assms by (cases "str_eq_c k (Some (listen_key @ [0]))") (simp_all add: handle_entry_def)
  show thesis
  proof (cases b1)
    case True
    with assms b1 obtain r l where "conf_listen_parse (e_gai e) v (cp_listen p) = Some (r, l)" "p' = p\<lparr>cp_listen := l\<rparr>"
      by (cases "conf_listen_parse (e_gai e) v (cp_listen p)") (auto simp: handle_entry_def)
    then show thesis using that(2) by blast
  next
    case False
    let ?s = "conf_server_parse (e_gai e) v (conf_server_new (e_server e (length (cp_server p))))"
    obtain b2 where b2: "str_eq_c k (Some (servers_key @ [0])) = Some b2"
      using assms b1 False by (cases "str_eq_c k (Some (servers_key @ [0]))") (simp_all add: handle_entry_def)
    show thesis
    proof (cases b2)
      case True
      with assms b1 b2 False obtain r cs where r: "?s = Some (r, cs)"
        "p' = (if r \<noteq> NC_OK then p else p\<lparr>cp_server := cp_server p @ [cs]\<rparr>)"
        by (cases ?s) (auto simp: handle_entry_def)
      show thesis
      proof (cases "r = NC_OK")
        case True
        with r show thesis using that(3) by simp
      next
        case False
        with r show thesis using that(1) by simp
      qed
    next
      case False
      with assms b1 b2 \<open>\<not> b1\<close> show thesis using that(1) by (simp add: handle_entry_def)
    qed
  qed
qed

lemma handle_entry_keeps:
  assumes "handle_entry e k v p = Some p'"
  shows "(pool_servers_ok p \<longrightarrow> pool_servers_ok p') \<and> (default_settings p \<longrightarrow> default_settings p')"
  using assms
proof (cases rule: handle_entry_cases)
  case (3 cs l)
  with server_accepted [OF 3(1)] show ?thesis by (auto simp: pool_servers_ok_def default_settings_def server_entry_ok_def)
qed (simp_all add: pool_servers_ok_def default_settings_def)

lemma apply_values_keeps:
  "apply_values e k vs p = Some p' \<Longrightarrow>
   (pool_servers_ok p \<longrightarrow> pool_servers_ok p') \<and> (default_settings p \<longrightarrow> default_settings p')"
  by (induction vs arbitrary: p) (auto simp: bind_eq_Some_conv dest!: handle_entry_keeps)

lemma apply_entries_keeps:
  "apply_entries e es p = Some p' \<Longrightarrow>
   (pool_servers_ok p \<longrightarrow> pool_servers_ok p') \<and> (default_settings p \<longrightarrow> default_settings p')"
  by (induction es arbitrary: p) (auto simp: bind_eq_Some_conv dest!: apply_values_keeps)

lemma pools_of_keeps:
  "pools_of e ps qs = Some rs \<Longrightarrow> \<forall>q\<in>set qs. pool_servers_ok q \<and> default_settings q \<Longrightarrow>
   \<forall>q\<in>set rs. pool_servers_ok q \<and> default_settings q"
proof (induction ps arbitrary: qs)
  case (Cons p ps)
  from Cons.prems(1) obtain q where q: "apply_entries e (snd p) (conf_pool_new (e_pool e (length qs))) = Some q"
    "pools_of e ps (qs @ [q]) = Some rs" by (auto simp: bind_eq_Some_conv)
  have "pool_servers_ok q \<and> default_settings q" using apply_entries_keeps [OF q(1)] new_pool_ok by blast
  with Cons.prems(2) have "\<forall>q\<in>set (qs @ [q]). pool_servers_ok q \<and> default_settings q" by simp
  with Cons.IH [OF q(2)] show ?case by blast
qed simp

lemma pools_of_length: "pools_of e ps qs = Some rs \<Longrightarrow> length rs = length qs + length ps"
  by (induction ps arbitrary: qs) (auto simp: bind_eq_Some_conv)

end
