(* ===== verification/NcFlow.thy ===== *)
theory NcFlow
  imports NcConnection
begin

text \<open>
  The flow of a request and of its response through the callbacks of the two connections:
  (a) a request is read and forwarded, (b) it is written to the server, (c) the response is
  read and paired with its request, (d) it is written to the client. Each step is stated for
  connections with any queues.
\<close>

section \<open>What the steps start from\<close>

text \<open>A pool whose requests all go to the connection \<open>s\<close> of its first server.\<close>

definition routed :: "nat \<Rightarrow> spool \<Rightarrow> bool" where
  "routed s p \<longleftrightarrow> (case sp_server p of [] \<Rightarrow> False
     | sv # _ \<Rightarrow> sv_conn_q sv = [Some s] \<and> sp_server_connections p \<le> sv_ns_conn_q sv)
     \<and> sp_hash_tag p = [] \<and> sp_key_hash_type p = 1 \<and> sp_dist_type p \<noteq> kDIST_RANDOM"

definition idle_client :: "conn \<Rightarrow> bool" where
  "idle_client x \<longleftrightarrow> c_kind x = CLIENT \<and> c_owner x = Some 0 \<and> c_rmsg x = None
     \<and> c_smsg x = None \<and> \<not> c_eof x \<and> \<not> c_done x \<and> c_err x = 0"

definition idle_server :: "conn \<Rightarrow> bool" where
  "idle_server x \<longleftrightarrow> c_kind x = SERVER \<and> c_owner x \<noteq> None \<and> c_rmsg x = None
     \<and> c_smsg x = None \<and> \<not> c_eof x \<and> \<not> c_done x \<and> c_err x = 0 \<and> \<not> c_connecting x"

lemma idle_clientD:
  "idle_client x \<Longrightarrow> c_kind x = CLIENT \<and> c_owner x = Some 0 \<and> c_rmsg x = None \<and> c_smsg x = None
     \<and> \<not> c_eof x \<and> \<not> c_done x \<and> c_err x = 0"
  by (simp add: idle_client_def)

lemma idle_serverD:
  "idle_server x \<Longrightarrow> c_kind x = SERVER \<and> (\<exists>j. c_owner x = Some j) \<and> c_rmsg x = None \<and> c_smsg x = None
     \<and> \<not> c_eof x \<and> \<not> c_done x \<and> c_err x = 0 \<and> \<not> c_connecting x"
  by (auto simp: idle_server_def)

lemma routed_getConn:
  assumes "routed s (w_sp w)"
  shows "pool_getConn w = Some (Some s, w)"
proof -
  from assms obtain sv svs where sv: "sp_server (w_sp w) = sv # svs" "sv_conn_q sv = [Some s]"
    "\<not> sv_ns_conn_q sv < sp_server_connections (w_sp w)" "sp_hash_tag (w_sp w) = []"
    "sp_key_hash_type (w_sp w) = 1" "sp_dist_type (w_sp w) \<noteq> kDIST_RANDOM"
    unfolding routed_def by (auto simp: not_less split: list.splits)
  then have "pool_server j r (w_sp w) 0 (\<lambda>_. 0) 0 = Some 0" for j r
    by (simp add: pool_server_def pool_index_def tag_range_def nc_hash_def hash_dispatch_def Let_def)
  moreover have "server_getConn 0 w = (Some s, w)"
    using sv by (simp add: server_getConn_def upd_server_def upd_sp_def q_front_def q_remove_def q_push_def Let_def)
  ultimately show ?thesis by (simp add: pool_getConn_def)
qed

text \<open>\<open>carries q b bs\<close>: a message with the queue of mbufs \<open>q\<close> is the one mbuf \<open>b\<close> holding \<open>bs\<close>.\<close>

definition carries :: "msg \<Rightarrow> nat \<Rightarrow> bytes \<Rightarrow> (nat \<Rightarrow> mbuf) \<Rightarrow> bool" where
  "carries x b bs bufs \<longleftrightarrow> m_mbuf_q x = [b] \<and> m_mlen x \<noteq> 0 \<and> mbuf_ok (bufs b) \<and> mbuf_bytes (bufs b) = bs"

section \<open>Facts about single calls\<close>

text \<open>A read that gets less than it asked for.\<close>

lemma recv_short:
  assumes "os_read k (c_sd x) = Data req # rs" "req \<noteq> []" "length req < sz"
  shows "conn_recv sz x k = ((int (length req), req),
    x\<lparr>c_recv_ready := False, c_recv_bytes := c_recv_bytes x + of_nat (length req)\<rparr>,
    k\<lparr>os_read := (os_read k)(c_sd x := rs)\<rparr>)"
  using assms by (simp add: conn_recv_def Let_def)

text \<open>A new mbuf after a read of \<open>req\<close> into it.\<close>

lemma new_mbuf_filled:
  assumes "length req + MBUF_HSIZE < unat chunk" "length junk = unat chunk" "req \<noteq> []"
  shows "\<exists>y z. mbuf_new junk chunk = Some y \<and> mbuf_write (b_last y) req y = Some z
    \<and> length req < unat (mbuf_size y)
    \<and> mbuf_ok (mbuf_setLast (length req) z) \<and> mbuf_bytes (mbuf_setLast (length req) z) = req"
proof -
  obtain y where y: "mbuf_new junk chunk = Some y"
    using assms by (auto simp: mbuf_new_def MBUF_HSIZE_def)
  with mbuf_new_ok have ok: "mbuf_ok y" "mbuf_bytes y = []" by blast+
  have sz: "length req < unat (mbuf_size y)"
    using y assms mbuf_length_size [OF ok(1)] by (auto simp: mbuf_new_def split: if_splits)
  from mbuf_copy_ok [OF ok(1), of req] sz obtain b' where
    "mbuf_copy req y = Some b'" "mbuf_ok b'" "mbuf_bytes b' = req" using ok(2) by auto
  with assms(3) y sz show ?thesis
    by (auto simp: mbuf_copy_def mbuf_setLast_def mbuf_write_def split: if_splits)
qed

text \<open>With an \<^verbatim>\<open>epoll_ctl\<close> that succeeds, arming and disarming do not fail and touch no data.\<close>

definition quiet_os :: "os \<Rightarrow> os \<Rightarrow> bool" where
  "quiet_os k k' \<longleftrightarrow> os_read k' = os_read k \<and> os_write k' = os_write k \<and> os_sent k' = os_sent k
     \<and> os_errno k' = os_errno k \<and> os_ctl k' = []"

definition arm_os :: "conn \<Rightarrow> os \<Rightarrow> os" where "arm_os x k = snd (snd (ev_addOutput x k))"
definition disarm_os :: "conn \<Rightarrow> os \<Rightarrow> os" where "disarm_os x k = snd (snd (ev_delOutput x k))"

lemma addOutput_quiet:
  assumes "os_ctl k = []"
  shows "ev_addOutput x k = (0, x\<lparr>c_send_active := True\<rparr>, arm_os x k)" "quiet_os k (arm_os x k)"
    "out_synced x k \<Longrightarrow> out_armed (c_sd x) (arm_os x k)"
  by ((cases "c_send_active x"; cases x;
    simp add: assms arm_os_def ev_addOutput_def epoll_ctl_def quiet_os_def out_synced_def out_armed_def epoll_masks Let_def)+)

lemma delOutput_quiet:
  assumes "os_ctl k = []"
  shows "ev_delOutput x k = (0, x\<lparr>c_send_active := False\<rparr>, disarm_os x k)" "quiet_os k (disarm_os x k)"
  by ((cases "c_send_active x"; cases x;
    simp add: assms disarm_os_def ev_delOutput_def epoll_ctl_def quiet_os_def Let_def)+)

text \<open>Forwarding on the routed connection; the kernel after it is \<open>forward_os\<close>.\<close>

definition forward_os :: "conn \<Rightarrow> os \<Rightarrow> os" where
  "forward_os x k = (if q_empty (c_imsg_q x) then arm_os x k else k)"

lemma forward_os_quiet:
  assumes "os_ctl k = []"
  shows "quiet_os k (forward_os x k)"
    "out_synced x k \<Longrightarrow> c_imsg_q x = [] \<Longrightarrow> out_armed (c_sd x) (forward_os x k)"
  using addOutput_quiet [OF assms] assms by (auto simp: forward_os_def quiet_os_def q_empty_def)

lemma requestForward_routed:
  assumes "routed s (w_sp w)" "c_owner (w_conns w c) \<noteq> None" "\<not> m_noreply (w_msgs w m)" "c \<noteq> s"
    and "c_kind (w_conns w c) = CLIENT" "c_kind (w_conns w s) = SERVER" "os_ctl (w_os w) = []"
  shows "requestForward c m w = Some (w\<lparr>w_conns := (w_conns w)(
       c := (w_conns w c)\<lparr>c_omsg_q := c_omsg_q (w_conns w c) @ [m]\<rparr>,
       s := (w_conns w s)\<lparr>c_send_active := c_send_active (w_conns w s) \<or> q_empty (c_imsg_q (w_conns w s)),
                          c_imsg_q := c_imsg_q (w_conns w s) @ [m]\<rparr>),
       w_os := forward_os (w_conns w s) (w_os w)\<rparr>)"
proof (cases "q_empty (c_imsg_q (w_conns w s))")
  case True
  with assms show ?thesis
    by (auto simp: requestForward_def getContext_def enqueueOutput_def enqueueInput_def addOutput_quiet
        upd_conn_def on_conn_def routed_getConn q_push_def forward_os_def Let_def)
next
  case False
  have id: "w\<lparr>w_conns := f, w_os := w_os w\<rparr> = w\<lparr>w_conns := f\<rparr>" for f by simp
  from False assms show ?thesis
    by (auto simp: requestForward_def getContext_def enqueueOutput_def enqueueInput_def
        upd_conn_def routed_getConn q_push_def q_empty_def forward_os_def Let_def id)
qed

section \<open>(a) A request is read and forwarded\<close>

lemma request_read:
  assumes c: "idle_client (w_conns w c)" and s: "idle_server (w_conns w s)" and r: "routed s (w_sp w)"
    and pools: "p_queue (w_mbuf_pool w) = []" "p_queue (w_msg_pool w) = []"
    and arr: "os_read (w_os w) (c_sd (w_conns w c)) = Data req # rs" "req \<noteq> []" "os_ctl (w_os w) = []"
    and fits: "length req + MBUF_HSIZE < unat (st_chunk (w_st w))"
    and t: "0 \<le> w_testi w" "w_testi w + 1 < 2 ^ 31"
  shows "\<exists>cn sn v x k.
     conn_callback c EVENT_READ w = Some (NC_OK,
       w\<lparr>w_msg_pool := w_msg_pool w\<lparr>p_current := Some (w_nmsg w)\<rparr>, w_nmsg := w_nmsg w + 1,
         w_rb := w_rb w\<lparr>rb_nodes := (rb_nodes (w_rb w))(w_nmsg w := rbnode_new\<lparr>rb_data := Some c\<rparr>)\<rparr>,
         w_mbuf_pool := w_mbuf_pool w\<lparr>p_current := Some (w_nmbuf w)\<rparr>, w_nmbuf := w_nmbuf w + 1,
         w_mbufs := (w_mbufs w)(w_nmbuf w := v), w_msgs := (w_msgs w)(w_nmsg w := x),
         w_testi := w_testi w + 1, w_conns := (w_conns w)(c := cn, s := sn), w_os := k\<rparr>)
     \<and> carries x (w_nmbuf w) req ((w_mbufs w)(w_nmbuf w := v)) \<and> m_peer x = None \<and> \<not> m_noreply x \<and> \<not> m_done x
     \<and> idle_client cn \<and> c_sd cn = c_sd (w_conns w c) \<and> c_omsg_q cn = c_omsg_q (w_conns w c) @ [w_nmsg w]
     \<and> c_send_active cn = c_send_active (w_conns w c)
     \<and> idle_server sn \<and> c_sd sn = c_sd (w_conns w s) \<and> c_imsg_q sn = c_imsg_q (w_conns w s) @ [w_nmsg w]
     \<and> c_omsg_q sn = c_omsg_q (w_conns w s)
     \<and> quiet_os ((w_os w)\<lparr>os_read := (os_read (w_os w))(c_sd (w_conns w c) := rs)\<rparr>) k
     \<and> (out_synced (w_conns w s) (w_os w) \<and> c_imsg_q (w_conns w s) = [] \<longrightarrow> out_armed (c_sd sn) k)"
proof -
  note k = idle_clientD [OF c] and k2 = idle_serverD [OF s]
  have cs: "c \<noteq> s" "s \<noteq> c" "c_kind (w_conns w s) = SERVER" using k k2 by auto
  obtain y z where yz: "mbuf_new (map (w_junk w) [0..<unat (st_chunk (w_st w))]) (st_chunk (w_st w)) = Some y"
    "mbuf_write (b_last y) req y = Some z" "length req < unat (mbuf_size y)"
    "mbuf_ok (mbuf_setLast (length req) z)" "mbuf_bytes (mbuf_setLast (length req) z) = req"
    using new_mbuf_filled [OF fits _ arr(2), of "map (w_junk w) [0..<unat (st_chunk (w_st w))]"] by auto
  have ne: "(word_of_nat (length req) :: u32) \<noteq> 0"
    using fits arr(2) unsigned_less [of "st_chunk (w_st w)", where 'a = nat]
      u32_of_nat_neq_0 [of "length req"] by simp
  have t': "w_testi w < 2147483647" using t by simp
  show ?thesis
    apply (simp add: conn_callback_def getContext_def k upd_conn_def event_bits processRecv_def conn_recvMsg_def)
    apply (subst recv_loop.simps)
    apply (simp add: conn_recvNext_def client_recvNext_def getContext_def k upd_defs alloc_msg_def pool_alloc_def pools Let_def)
    apply (simp add: recvChain_def getContext_def k recv_mbuf_def alloc_mbuf_def pool_alloc_def pools msg_new_def
        q_back_def Let_def upd_defs yz recv_short [of _ _ req rs] arr)
    apply (subst parse_loop.simps)
    apply (simp add: msg_parse_def msg_empty_def msg_setLength_def ne q_back_def q_push_def t t' parseDone_def
        getContext_def k msg_setPos_def upd_defs Let_def not_le conn_recvDone_def client_recvDone_def requestFilter_def)
    apply (simp add: requestForward_routed [of s] r k k2 cs arr conn_recvNext_def client_recvNext_def getContext_def
        Let_def conn_failed_def EVENT_WRITE_def)
    apply (intro exI, rule conjI, rule refl)
    using c s forward_os_quiet [of "(w_os w)\<lparr>os_read := (os_read (w_os w))(c_sd (w_conns w c) := rs)\<rparr>" "w_conns w s"]
    apply (simp add: idle_client_def idle_server_def carries_def yz ne arr out_synced_def out_armed_def)
    done
qed

section \<open>Writing one message\<close>

text \<open>Answers to a write that are no failures: some bytes taken, not ready, interrupted.\<close>

definition good_reply :: "send_reply \<Rightarrow> bool" where
  "good_reply r \<longleftrightarrow> (case r of Sent n \<Rightarrow> 0 < n | SErr e \<Rightarrow> e = EINTR \<or> e = EAGAIN)"

text \<open>One \<^verbatim>\<open>writev\<close> of one \<^verbatim>\<open>iovec\<close>: the socket is not ready, or it takes a part.\<close>

lemma write_loop_good:
  assumes "write_loop 1 data x e rs = ((n, out), x', e', rs')"
    and "\<forall>r\<in>set rs. good_reply r" "data \<noteq> []"
  shows "x' = x\<lparr>c_send_ready := c_send_ready x', c_send_bytes := c_send_bytes x'\<rparr> \<and> set rs' \<subseteq> set rs
    \<and> (n = - 2 \<and> out = [] \<and> \<not> c_send_ready x' \<and> length rs' < length rs
       \<or> 0 < n \<and> n = int (length out) \<and> out = take (nat n) data \<and> c_send_ready x' = c_send_ready x
         \<and> (length rs' < length rs \<or> rs' = [] \<and> out = data))"
  using assms
proof (induction rs arbitrary: e)
  case Nil
  then show ?case by (cases x; auto simp: Let_def Suc_le_eq split: if_splits)
next
  case (Cons r rs)
  show ?case
  proof (cases r)
    case (Sent k)
    with Cons.prems have "0 < min k (length data)" by (simp add: good_reply_def)
    with Cons.prems Sent show ?thesis
      by (cases x) (auto simp: Let_def Suc_le_eq min_def split: if_splits)
  next
    case (SErr er)
    have er: "er = EINTR \<or> er = EAGAIN" using Cons.prems SErr by (simp add: good_reply_def)
    show ?thesis
    proof (cases "er = EINTR")
      case True
      with Cons.IH [of er] Cons.prems SErr show ?thesis by auto
    next
      case False
      with er Cons.prems SErr show ?thesis by (cases x) auto
    qed
  qed
qed

text \<open>The same for \<open>sendv\<close>.\<close>

lemma sendv_good:
  assumes "conn_sendv [data] x k = (n, x', k')"
    and "\<forall>r\<in>set (os_write k (c_sd x)). good_reply r" "data \<noteq> []"
  shows "\<exists>rs'. x' = x\<lparr>c_send_ready := c_send_ready x', c_send_bytes := c_send_bytes x'\<rparr>
    \<and> os_read k' = os_read k \<and> os_ctl k' = os_ctl k \<and> os_ep k' = os_ep k
    \<and> os_write k' = (os_write k)(c_sd x := rs') \<and> set rs' \<subseteq> set (os_write k (c_sd x))
    \<and> (n = - 2 \<and> \<not> c_send_ready x' \<and> os_sent k' = os_sent k \<and> length rs' < length (os_write k (c_sd x))
       \<or> 0 < n \<and> n \<le> int (length data) \<and> c_send_ready x' = c_send_ready x
         \<and> os_sent k' = (os_sent k)(c_sd x := os_sent k (c_sd x) @ take (nat n) data)
         \<and> (length rs' < length (os_write k (c_sd x)) \<or> rs' = [] \<and> n = int (length data)))"
proof -
  obtain out e rs where r: "write_loop 1 data x (os_errno k) (os_write k (c_sd x)) = ((n, out), x', e, rs)"
    and k': "k' = k\<lparr>os_write := (os_write k)(c_sd x := rs),
      os_sent := (os_sent k)(c_sd x := os_sent k (c_sd x) @ out), os_errno := e\<rparr>"
    using assms(1) by (auto simp: conn_sendv_def conn_write_def Let_def split: prod.splits)
  note g = write_loop_good [OF r assms(2,3)]
  have "length out \<le> length data" if "out = take (nat n) data"
    unfolding that by simp
  with g have "0 < n \<longrightarrow> n \<le> int (length data)" by linarith
  with g show ?thesis
    by (intro exI [of _ rs]) (auto simp: k')
qed

text \<open>
  \<open>sendChain\<close> for a message of one mbuf when \<open>sendNext\<close> has no other message: what was
  taken is gone from the mbuf, and when all of it was taken the message is done.
\<close>

definition sent_mbuf :: "int \<Rightarrow> nat \<Rightarrow> mbuf \<Rightarrow> mbuf" where
  "sent_mbuf n len x = (if n \<ge> int len then mbuf_setComplete x else if n > 0 then mbuf_setPos (nat n) x else x)"

lemma sent_mbuf_ok:
  assumes "mbuf_ok x" "mbuf_bytes x = bs" "- 2 \<le> n"
  shows "mbuf_ok (sent_mbuf n (length bs) x) \<and> mbuf_bytes (sent_mbuf n (length bs) x) = drop (nat n) bs"
proof (cases "n \<ge> int (length bs)")
  case True
  with assms mbuf_setComplete_ok [of x] show ?thesis by (simp add: sent_mbuf_def)
next
  case False
  have len: "unat (mbuf_length x) = length bs" using mbuf_bytes_length [OF assms(1)] assms(2) by simp
  from False have "nat n \<le> unat (mbuf_length x)" unfolding len by linarith
  from mbuf_setPos_ok [OF assms(1) this] False assms show ?thesis by (simp add: sent_mbuf_def)
qed

lemma sendChain_one:
  assumes own: "c_owner (w_conns w c) \<noteq> None" and m: "carries (w_msgs w m) b bs (w_mbufs w)" "bs \<noteq> []"
    and nx: "conn_sendNext c w = Some (None, w1)" and w1: "w_mbufs w1 = w_mbufs w" "w_msgs w1 = w_msgs w"
    and sent: "conn_sendv [bs] ((w_conns w1 c)\<lparr>c_smsg := None\<rparr>) (w_os w1) = (n, cn, k)"
    and n: "- 2 \<le> n" "n \<le> int (length bs)"
  shows "sendChain c m w =
    (let w2 = w1\<lparr>w_conns := (w_conns w1)(c := cn), w_os := k,
                 w_mbufs := (w_mbufs w)(b := sent_mbuf n (length bs) (w_mbufs w b))\<rparr>
     in if n = int (length bs) then map_option (\<lambda>w. (NC_OK, w)) (conn_sendDone c m w2)
        else Some (if n > 0 \<or> n = NC_EAGAIN then NC_OK else NC_ERROR, w2))"
proof -
  have q: "m_mbuf_q (w_msgs w m) = [b]" "m_mlen (w_msgs w m) \<noteq> 0" "mbuf_ok (w_mbufs w b)"
    "mbuf_bytes (w_mbufs w b) = bs" using m(1) by (auto simp: carries_def)
  have len: "unat (mbuf_length (w_mbufs w b)) = length bs" "\<not> mbuf_empty (w_mbufs w b)"
    using mbuf_bytes_length [OF q(3)] q(4) m(2) mbuf_length_size [OF q(3)] mbuf_okD [OF q(3)]
    by (auto simp: mbuf_empty_def)
  have max: "length bs < SSIZE_MAX" "0 < SSIZE_MAX" "\<not> SSIZE_MAX < length bs"
    using unsigned_less [of "mbuf_length (w_mbufs w b)", where 'a = nat] len(1) by (simp_all add: SSIZE_MAX_def)
  have rng: "mbuf_range (b_pos (w_mbufs w b)) (b_pos (w_mbufs w b) + length bs) (w_mbufs w b) = Some bs"
    using q(3,4) mbuf_okD [OF q(3)] mbuf_length_size(1) [OF q(3)] len by (auto simp: mbuf_range_def mbuf_bytes_def)
  have g: "gather c m m [] [] 0 w = Some ([m], [bs], length bs, w1)"
    by (subst gather.simps) (simp add: q_push_def q len max rng Let_def NC_IOV_MAX_def nx)
  note d = sendChain_def getContext_def g upd_conn_def on_conn_def sent Let_def sent_mbuf_def q len w1 upd_mbuf_def
    q_remove_def
  obtain j where j: "c_owner (w_conns w c) = Some j" using own by blast
  consider "n = int (length bs)" | "0 < n" "n < int (length bs)" | "n \<le> 0" using n by linarith
  then show ?thesis
  proof cases
    case 1
    with m(2) j show ?thesis by (cases "conn_sendDone c m (w1\<lparr>w_conns := (w_conns w1)(c := cn), w_os := k,
      w_mbufs := (w_mbufs w)(b := mbuf_setComplete (w_mbufs w b))\<rparr>)") (simp_all add: d)
  next
    case 2
    then have "nat n < length bs" "\<not> int (length bs) \<le> n" "n \<noteq> int (length bs)" "nat n \<noteq> 0" by linarith+
    with 2(1) j m(2) show ?thesis by (simp add: d)
  next
    case 3
    moreover have "0 < length bs" using m(2) by simp
    ultimately have "\<not> int (length bs) \<le> n" "n \<noteq> int (length bs)" by linarith+
    moreover have "w1\<lparr>w_conns := f, w_os := k, w_mbufs := w_mbufs w\<rparr> = w1\<lparr>w_conns := f, w_os := k\<rparr>" for f
      using w1(1) by (cases w1) simp
    ultimately show ?thesis using 3 j m(2) by (simp add: d)
  qed
qed

section \<open>(b) The request is written to the server\<close>

text \<open>
  The loop of \<open>sendMsg\<close> on a server connection with one waiting request of which \<open>bs\<close> is left
  to write: after any sequence of short writes it has written \<open>n\<close> bytes of it and keeps the rest,
  and a request that is written completely waits for its response.
\<close>

definition server_wrote :: "nat \<Rightarrow> bytes \<Rightarrow> conn \<Rightarrow> os \<Rightarrow> nat \<Rightarrow> conn \<Rightarrow> os \<Rightarrow> mbuf \<Rightarrow> bool" where
  "server_wrote m bs cn k n cn' k' x \<longleftrightarrow>
     n \<le> length bs \<and> mbuf_ok x \<and> mbuf_bytes x = drop n bs
     \<and> os_sent k' = (os_sent k)(c_sd cn := os_sent k (c_sd cn) @ take n bs)
     \<and> os_read k' = os_read k \<and> os_ctl k' = []
     \<and> (\<forall>sd. sd \<noteq> c_sd cn \<longrightarrow> os_write k' sd = os_write k sd)
     \<and> set (os_write k' (c_sd cn)) \<subseteq> set (os_write k (c_sd cn))
     \<and> idle_server cn' \<and> c_sd cn' = c_sd cn
     \<and> (n = length bs \<longrightarrow> c_imsg_q cn' = [] \<and> c_omsg_q cn' = c_omsg_q cn @ [m])
     \<and> (n \<noteq> length bs \<longrightarrow> c_imsg_q cn' = [m] \<and> c_omsg_q cn' = c_omsg_q cn)"

lemma server_send_loop:
  assumes "idle_server (w_conns w s)" "c_imsg_q (w_conns w s) = [m]" "c_send_ready (w_conns w s)"
    and "carries (w_msgs w m) b bs (w_mbufs w)" "bs \<noteq> []" "\<not> m_noreply (w_msgs w m)"
    and "\<forall>r\<in>set (os_write (w_os w) (c_sd (w_conns w s))). good_reply r" "os_ctl (w_os w) = []"
  shows "\<exists>n cn x k. send_loop s w
      = Some (NC_OK, w\<lparr>w_conns := (w_conns w)(s := cn), w_os := k, w_mbufs := (w_mbufs w)(b := x)\<rparr>)
    \<and> server_wrote m bs (w_conns w s) (w_os w) n cn k x \<and> (os_write (w_os w) (c_sd (w_conns w s)) = [] \<longrightarrow> n = length bs)"
  using assms
proof (induction "length (os_write (w_os w) (c_sd (w_conns w s)))" arbitrary: w bs rule: less_induct)
  case less
  note k = idle_serverD [OF less.prems(1)]
  let ?wa = "w\<lparr>w_conns := (w_conns w)(s := (w_conns w s)\<lparr>c_smsg := Some m\<rparr>)\<rparr>"
  let ?wb = "w\<lparr>w_conns := (w_conns w)(s := (w_conns w s)\<lparr>c_smsg := None\<rparr>)\<rparr>"
  have n1: "conn_sendNext s w = Some (Some m, ?wa)" and n2: "conn_sendNext s ?wa = Some (None, ?wb)"
    using k less.prems(2) by (auto simp: conn_sendNext_def server_sendNext_def getContext_def upd_conn_def Let_def)
  obtain n cn k1 where snd: "conn_sendv [bs] ((w_conns w s)\<lparr>c_smsg := None\<rparr>) (w_os w) = (n, cn, k1)"
    by (cases "conn_sendv [bs] ((w_conns w s)\<lparr>c_smsg := None\<rparr>) (w_os w)")
  obtain rs' where g: "cn = ((w_conns w s)\<lparr>c_smsg := None\<rparr>)\<lparr>c_send_ready := c_send_ready cn, c_send_bytes := c_send_bytes cn\<rparr>"
    "os_read k1 = os_read (w_os w)" "os_ctl k1 = []"
    "os_write k1 = (os_write (w_os w))(c_sd (w_conns w s) := rs')"
    "set rs' \<subseteq> set (os_write (w_os w) (c_sd (w_conns w s)))"
    "n = - 2 \<and> \<not> c_send_ready cn \<and> os_sent k1 = os_sent (w_os w) \<and> length rs' < length (os_write (w_os w) (c_sd (w_conns w s)))
       \<or> 0 < n \<and> n \<le> int (length bs) \<and> c_send_ready cn
         \<and> os_sent k1 = (os_sent (w_os w))(c_sd (w_conns w s) := os_sent (w_os w) (c_sd (w_conns w s)) @ take (nat n) bs)
         \<and> (length rs' < length (os_write (w_os w) (c_sd (w_conns w s))) \<or> rs' = [] \<and> n = int (length bs))"
    using sendv_good [OF snd] less.prems by auto
  have chain: "sendChain s m ?wa =
    (let w2 = w\<lparr>w_conns := (w_conns w)(s := cn), w_os := k1,
                 w_mbufs := (w_mbufs w)(b := sent_mbuf n (length bs) (w_mbufs w b))\<rparr>
     in if n = int (length bs) then map_option (\<lambda>w. (NC_OK, w)) (conn_sendDone s m w2)
        else Some (if n > 0 \<or> n = NC_EAGAIN then NC_OK else NC_ERROR, w2))"
    using sendChain_one [of ?wa s m b bs ?wb n cn k1] k less.prems n2 snd g(6) by auto
  consider (all) "n = int (length bs)" | (part) "0 < n" "n < int (length bs)" "c_send_ready cn"
      "length rs' < length (os_write (w_os w) (c_sd (w_conns w s)))" | (again) "n = - 2" "\<not> c_send_ready cn"
    using g(6) by force
  have mb: "mbuf_ok (sent_mbuf n (length bs) (w_mbufs w b))"
    "mbuf_bytes (sent_mbuf n (length bs) (w_mbufs w b)) = drop (nat n) bs"
    using sent_mbuf_ok [of "w_mbufs w b" bs n] less.prems(4) g(6) by (auto simp: carries_def)
  have idle: "idle_server cn" "c_sd cn = c_sd (w_conns w s)" "c_kind cn = SERVER" "c_owner cn \<noteq> None"
     "c_imsg_q cn = [m]" "c_omsg_q cn = c_omsg_q (w_conns w s)"
    using k less.prems(2) by (subst g(1); auto simp: idle_server_def)+
  let ?wc = "w\<lparr>w_conns := (w_conns w)(s := cn), w_os := k1,
                 w_mbufs := (w_mbufs w)(b := sent_mbuf n (length bs) (w_mbufs w b))\<rparr>"
  consider (all) "n = int (length bs)" | (part) "0 < n" "n < int (length bs)" "c_send_ready cn"
      "length rs' < length (os_write (w_os w) (c_sd (w_conns w s)))" | (again) "n = - 2" "\<not> c_send_ready cn"
    using g(6) by force
  then show ?case
  proof cases
    case all
    let ?done_cn = "cn\<lparr>c_imsg_q := [], c_omsg_q := c_omsg_q (w_conns w s) @ [m]\<rparr>"
    let ?cn = "?done_cn\<lparr>c_send_active := False\<rparr>"
    let ?wd = "?wc\<lparr>w_conns := (w_conns w)(s := ?done_cn)\<rparr>"
    have fin: "conn_sendDone s m ?wc = Some ?wd"
      using idle less.prems
      by (simp add: conn_sendDone_def server_sendDone_def dequeueInput_def enqueueOutput_def upd_defs q_remove_def q_push_def)
    have "send_loop s ?wd = Some (NC_OK, ?wc\<lparr>w_conns := (w_conns w)(s := ?cn), w_os := disarm_os ?done_cn k1\<rparr>)"
      using idle idle_serverD [OF idle(1)]
      by (subst send_loop.simps) (auto simp: conn_sendNext_def server_sendNext_def getContext_def on_conn_def
          delOutput_quiet g(3) Let_def)
    with all have "send_loop s w = Some (NC_OK, ?wc\<lparr>w_conns := (w_conns w)(s := ?cn), w_os := disarm_os ?done_cn k1\<rparr>)"
      using g(6)
      by (subst send_loop.simps) (auto simp: n1 chain fin [unfolded all] Let_def)
    then show ?thesis
      using all g idle mb less.prems(5) delOutput_quiet(2) [OF g(3), of ?done_cn]
      by (intro exI [of _ "length bs"] exI [of _ ?cn] exI [of _ "sent_mbuf n (length bs) (w_mbufs w b)"]
          exI [of _ "disarm_os ?done_cn k1"])
        (auto simp: server_wrote_def quiet_os_def idle_server_def)
  next
    case part
    have less_n: "nat n < length bs" using part by linarith
    then have pre: "carries (w_msgs ?wc m) b (drop (nat n) bs) (w_mbufs ?wc)" "drop (nat n) bs \<noteq> []"
      "\<forall>r\<in>set rs'. good_reply r"
      using mb less.prems(4,7) g(5) by (auto simp: carries_def)
    have "\<exists>n' cn' x k. send_loop s ?wc = Some (NC_OK, ?wc\<lparr>w_conns := (w_conns ?wc)(s := cn'), w_os := k,
            w_mbufs := (w_mbufs ?wc)(b := x)\<rparr>)
        \<and> server_wrote m (drop (nat n) bs) (w_conns ?wc s) (w_os ?wc) n' cn' k x
        \<and> (os_write (w_os ?wc) (c_sd (w_conns ?wc s)) = [] \<longrightarrow> n' = length (drop (nat n) bs))"
      by (rule less.hyps) (use part g(3,4) idle pre less.prems(6) in simp_all)
    then obtain n' cn' x k where
      l: "send_loop s ?wc = Some (NC_OK, ?wc\<lparr>w_conns := (w_conns ?wc)(s := cn'), w_os := k,
            w_mbufs := (w_mbufs ?wc)(b := x)\<rparr>)"
        "server_wrote m (drop (nat n) bs) cn k1 n' cn' k x" by auto
    have "send_loop s w = Some (NC_OK, w\<lparr>w_conns := (w_conns w)(s := cn'), w_os := k, w_mbufs := (w_mbufs w)(b := x)\<rparr>)"
      by (subst send_loop.simps) (use part l(1) in \<open>simp add: n1 chain Let_def\<close>)
    moreover have "server_wrote m bs (w_conns w s) (w_os w) (nat n + n') cn' k x"
      using l(2) part g idle less_n add.commute [of n' "nat n"]
      by (cases "nat n + n' = length bs") (auto simp: server_wrote_def take_add)
    moreover have "os_write (w_os w) (c_sd (w_conns w s)) \<noteq> []" using part(4) by auto
    ultimately show ?thesis by blast
  next
    case again
    have len: "0 < length bs" "os_write (w_os w) (c_sd (w_conns w s)) \<noteq> []" using less.prems(5) g(6) again by auto
    show ?thesis
      apply (subst send_loop.simps)
      apply (simp add: n1 chain again Let_def)
      apply (rule exI [of _ 0])
      apply (intro exI, rule conjI, rule refl)
      using again g idle mb less.prems(5) len
      apply (simp add: server_wrote_def)
      done
  qed
qed

lemma request_written:
  assumes s: "idle_server (w_conns w s)" "c_imsg_q (w_conns w s) = [m]" "os_ctl (w_os w) = []"
    and m: "carries (w_msgs w m) b req (w_mbufs w)" "req \<noteq> []" "\<not> m_noreply (w_msgs w m)"
    and script: "\<forall>r\<in>set (os_write (w_os w) (c_sd (w_conns w s))). good_reply r"
  shows "\<exists>n cn x k. conn_callback s EVENT_WRITE w
      = Some (NC_OK, w\<lparr>w_conns := (w_conns w)(s := cn), w_os := k, w_mbufs := (w_mbufs w)(b := x)\<rparr>)
    \<and> server_wrote m req (w_conns w s) (w_os w) n cn k x
    \<and> (os_write (w_os w) (c_sd (w_conns w s)) = [] \<longrightarrow> n = length req)"
proof -
  let ?w = "w\<lparr>w_conns := (w_conns w)(s := (w_conns w s)\<lparr>c_events := EVENT_WRITE, c_send_ready := True\<rparr>)\<rparr>"
  have "\<exists>n cn x k. send_loop s ?w
      = Some (NC_OK, ?w\<lparr>w_conns := (w_conns ?w)(s := cn), w_os := k, w_mbufs := (w_mbufs ?w)(b := x)\<rparr>)
    \<and> server_wrote m req (w_conns ?w s) (w_os ?w) n cn k x \<and> (os_write (w_os ?w) (c_sd (w_conns ?w s)) = [] \<longrightarrow> n = length req)"
    by (rule server_send_loop) (use assms in \<open>simp_all add: idle_server_def\<close>)
  then obtain n cn x k where
    l: "send_loop s ?w = Some (NC_OK, w\<lparr>w_conns := (w_conns w)(s := cn), w_os := k, w_mbufs := (w_mbufs w)(b := x)\<rparr>)"
      "server_wrote m req (w_conns w s) (w_os w) n cn k x" "os_write (w_os w) (c_sd (w_conns w s)) = [] \<longrightarrow> n = length req"
    by (auto simp: server_wrote_def)
  have "conn_callback s EVENT_WRITE w
      = Some (NC_OK, w\<lparr>w_conns := (w_conns w)(s := cn), w_os := k, w_mbufs := (w_mbufs w)(b := x)\<rparr>)"
    using idle_serverD [OF s(1)] idle_serverD [of cn] l
    by (auto simp: conn_callback_def getContext_def upd_conn_def event_bits processSend_def conn_sendMsg_def
        conn_failed_def server_wrote_def)
  with l show ?thesis by blast
qed

section \<open>(c) The response is read and paired\<close>

lemma responseForward_paired:
  assumes "c_owner (w_conns w s) \<noteq> None" "c_kind (w_conns w s) = SERVER" "c_omsg_q (w_conns w s) = p # ps" "p \<notin> set ps"
    and "rb_data (rb_nodes (w_rb w) p) = Some c" "c \<noteq> s" "c_omsg_q (w_conns w c) \<noteq> []" "m \<noteq> p"
    and "os_ctl (w_os w) = []"
  shows "responseForward s m w = Some (w\<lparr>
      w_msgs := (w_msgs w)(p := (w_msgs w p)\<lparr>m_done := True, m_peer := Some m\<rparr>,
                           m := (w_msgs w m)\<lparr>m_peer := Some p\<rparr>),
      w_conns := (w_conns w)(s := (w_conns w s)\<lparr>c_omsg_q := ps\<rparr>,
                             c := (w_conns w c)\<lparr>c_send_active := True\<rparr>),
      w_os := arm_os (w_conns w c) (w_os w)\<rparr>)"
  using assms
  by (cases "c_omsg_q (w_conns w c)")
    (auto simp: responseForward_def getContext_def q_front_def dequeueOutput_def upd_conn_def upd_msg_def
      requestDone_def on_conn_def addOutput_quiet q_remove_def Let_def)

lemma response_read:
  assumes s: "idle_server (w_conns w s)" "c_omsg_q (w_conns w s) = p # ps" "p \<notin> set ps"
    and c: "rb_data (rb_nodes (w_rb w) p) = Some c" "c_omsg_q (w_conns w c) \<noteq> []" "c \<noteq> s"
    and fresh: "p_queue (w_mbuf_pool w) = []" "p_queue (w_msg_pool w) = []" "p \<noteq> w_nmsg w"
    and arr: "os_read (w_os w) (c_sd (w_conns w s)) = Data rsp # rs" "rsp \<noteq> []" "os_ctl (w_os w) = []"
    and fits: "length rsp + MBUF_HSIZE < unat (st_chunk (w_st w))"
    and t: "0 \<le> w_testi w" "w_testi w + 1 < 2 ^ 31"
  shows "\<exists>sn v x k.
     conn_callback s EVENT_READ w = Some (NC_OK,
       w\<lparr>w_msg_pool := w_msg_pool w\<lparr>p_current := Some (w_nmsg w)\<rparr>, w_nmsg := w_nmsg w + 1,
         w_rb := w_rb w\<lparr>rb_nodes := (rb_nodes (w_rb w))(w_nmsg w := rbnode_new)\<rparr>,
         w_mbuf_pool := w_mbuf_pool w\<lparr>p_current := Some (w_nmbuf w)\<rparr>, w_nmbuf := w_nmbuf w + 1,
         w_mbufs := (w_mbufs w)(w_nmbuf w := v), w_testi := w_testi w + 1,
         w_msgs := (w_msgs w)(p := (w_msgs w p)\<lparr>m_done := True, m_peer := Some (w_nmsg w)\<rparr>, w_nmsg w := x),
         w_conns := (w_conns w)(s := sn, c := (w_conns w c)\<lparr>c_send_active := True\<rparr>), w_os := k\<rparr>)
     \<and> carries x (w_nmbuf w) rsp ((w_mbufs w)(w_nmbuf w := v)) \<and> m_peer x = Some p
     \<and> idle_server sn \<and> c_sd sn = c_sd (w_conns w s) \<and> c_omsg_q sn = ps \<and> c_imsg_q sn = c_imsg_q (w_conns w s)
     \<and> c_send_active sn = c_send_active (w_conns w s)
     \<and> quiet_os ((w_os w)\<lparr>os_read := (os_read (w_os w))(c_sd (w_conns w s) := rs)\<rparr>) k
     \<and> (out_synced (w_conns w c) (w_os w) \<longrightarrow> out_armed (c_sd (w_conns w c)) k)"
proof -
  note k = idle_serverD [OF s(1)]
  have cs: "c \<noteq> s" "s \<noteq> c" "w_nmsg w \<noteq> p" using c fresh by auto
  from k obtain j where j: "c_owner (w_conns w s) = Some j" by blast
  obtain y z where yz: "mbuf_new (map (w_junk w) [0..<unat (st_chunk (w_st w))]) (st_chunk (w_st w)) = Some y"
    "mbuf_write (b_last y) rsp y = Some z" "length rsp < unat (mbuf_size y)"
    "mbuf_ok (mbuf_setLast (length rsp) z)" "mbuf_bytes (mbuf_setLast (length rsp) z) = rsp"
    using new_mbuf_filled [OF fits _ arr(2), of "map (w_junk w) [0..<unat (st_chunk (w_st w))]"] by auto
  have ne: "(word_of_nat (length rsp) :: u32) \<noteq> 0"
    using fits arr(2) unsigned_less [of "st_chunk (w_st w)", where 'a = nat]
      u32_of_nat_neq_0 [of "length rsp"] by simp
  have t': "w_testi w < 2147483647" using t by simp
  show ?thesis
    apply (simp add: conn_callback_def getContext_def k j upd_conn_def event_bits processRecv_def conn_recvMsg_def)
    apply (subst recv_loop.simps)
    apply (simp add: conn_recvNext_def server_recvNext_def getContext_def k j upd_defs alloc_msg_def pool_alloc_def fresh Let_def)
    apply (simp add: recvChain_def getContext_def k j recv_mbuf_def alloc_mbuf_def pool_alloc_def fresh msg_new_def
        q_back_def Let_def upd_defs yz recv_short [of _ _ rsp rs] arr)
    apply (subst parse_loop.simps)
    apply (simp add: msg_parse_def msg_empty_def msg_setLength_def ne q_back_def q_front_def q_push_def t t' parseDone_def
        getContext_def k j msg_setPos_def upd_defs Let_def not_le conn_recvDone_def server_recvDone_def responseFilter_def s(2))
    apply (simp add: responseForward_paired [of _ s p ps c] s c cs fresh k j arr conn_recvNext_def server_recvNext_def getContext_def
        Let_def conn_failed_def EVENT_WRITE_def)
    apply (intro exI, rule conjI, rule refl)
    using s addOutput_quiet [of "(w_os w)\<lparr>os_read := (os_read (w_os w))(c_sd (w_conns w s) := rs)\<rparr>" "w_conns w c"]
    apply (simp add: idle_server_def carries_def yz ne arr out_synced_def out_armed_def)
    done
qed

section \<open>Releasing a request and its response\<close>

lemma mbuf_reset_idem [simp]: "mbuf_reset (mbuf_reset x) = mbuf_reset x"
  by (simp add: mbuf_reset_def mbuf_rewind_def)

definition reset_bufs :: "nat list \<Rightarrow> (nat \<Rightarrow> mbuf) \<Rightarrow> nat \<Rightarrow> mbuf" where
  "reset_bufs bs f x = (if x \<in> set bs then mbuf_reset (f x) else f x)"

lemma free_mbufs_eq:
  "free_mbufs bs w = w\<lparr>w_mbufs := reset_bufs bs (w_mbufs w),
     w_mbuf_pool := (w_mbuf_pool w)\<lparr>p_queue := p_queue (w_mbuf_pool w) @ bs,
                                   p_free := p_free (w_mbuf_pool w) + of_nat (length bs)\<rparr>\<rparr>"
proof (induction bs arbitrary: w)
  case Nil
  have "reset_bufs [] (w_mbufs w) = w_mbufs w" by (simp add: reset_bufs_def fun_eq_iff)
  then show ?case by simp
next
  case (Cons b bs)
  have "reset_bufs bs (\<lambda>a. if a = b then mbuf_reset (w_mbufs w b) else w_mbufs w a) = reset_bufs (b # bs) (w_mbufs w)"
    by (simp add: reset_bufs_def fun_eq_iff)
  then show ?case by (simp add: Cons.IH free_mbuf_def upd_mbuf_def pool_free_def add_ac)
qed

text \<open>The tree of the program is never filled: removing a node that is not in it does nothing.\<close>

definition empty_tree :: "rbtree \<Rightarrow> bool" where
  "empty_tree t \<longleftrightarrow> rb_root t = None \<and> rb_sentinel t = None"

lemma uniqNextId_eq: "uniqNextId st = (st_id st, st\<lparr>st_id := st_id st + 1\<rparr>)"
  by (simp add: uniqNextId_def)

lemma freeMsg_pair:
  assumes "c_owner (w_conns w c) \<noteq> None" "m_peer (w_msgs w p) = Some r" "p \<noteq> r"
    and "empty_tree (w_rb w)" "rb_left (rb_nodes (w_rb w) p) = None" "rb_parent (rb_nodes (w_rb w) p) = None"
  shows "\<exists>bufs bp st ms t mp.
     freeMsg c (Some p) True w = Some (w\<lparr>w_mbufs := bufs, w_mbuf_pool := bp, w_st := st, w_rb := t, w_msgs := ms,
       w_msg_pool := mp\<rparr>)
     \<and> (\<forall>x. x \<notin> set (m_mbuf_q (w_msgs w p)) \<union> set (m_mbuf_q (w_msgs w r)) \<longrightarrow> bufs x = w_mbufs w x)
     \<and> (\<forall>x. x \<noteq> p \<and> x \<noteq> r \<longrightarrow> ms x = w_msgs w x \<and> rb_nodes t x = rb_nodes (w_rb w) x)
     \<and> p_queue bp = p_queue (w_mbuf_pool w) @ m_mbuf_q (w_msgs w r) @ m_mbuf_q (w_msgs w p)
     \<and> p_queue mp = p_queue (w_msg_pool w) @ [r, p] \<and> empty_tree t"
proof -
  from assms(1) obtain j where "c_owner (w_conns w c) = Some j" by blast
  then show ?thesis
    using assms(2-)
    apply (simp add: freeMsg_def upd_msg_def freeMbuf_def free_mbufs_eq free_msg_def uniqNextId_eq upd_rb_def pool_free_def
      rb_remove_unlinked empty_tree_def Let_def)
    apply (intro exI, rule conjI, rule refl)
    apply (simp add: reset_bufs_def)
    done
qed

section \<open>(d) The responses are written to the client\<close>

text \<open>
  An answered request: its number, that of its response, the mbuf of the response, and what of
  it is left to write.
\<close>

type_synonym answer = "nat \<times> nat \<times> nat \<times> bytes"

definition request_of :: "answer \<Rightarrow> nat" where "request_of a = fst a"
definition response_of :: "answer \<Rightarrow> nat" where "response_of a = fst (snd a)"
definition mbuf_of :: "answer \<Rightarrow> nat" where "mbuf_of a = fst (snd (snd a))"
definition left_of :: "answer \<Rightarrow> bytes" where "left_of a = snd (snd (snd a))"

lemmas answer_defs = request_of_def response_of_def mbuf_of_def left_of_def

definition pending :: "answer list \<Rightarrow> bytes" where "pending as = concat (map left_of as)"

text \<open>The request and its response point at each other; the response is still to be written.\<close>

definition paired :: "world \<Rightarrow> answer \<Rightarrow> bool" where
  "paired w a \<longleftrightarrow> m_peer (w_msgs w (request_of a)) = Some (response_of a)
     \<and> m_peer (w_msgs w (response_of a)) = Some (request_of a)
     \<and> m_mbuf_q (w_msgs w (response_of a)) = [mbuf_of a]
     \<and> rb_left (rb_nodes (w_rb w) (request_of a)) = None \<and> rb_parent (rb_nodes (w_rb w) (request_of a)) = None"

definition loaded :: "world \<Rightarrow> answer \<Rightarrow> bool" where
  "loaded w a \<longleftrightarrow> carries (w_msgs w (response_of a)) (mbuf_of a) (left_of a) (w_mbufs w) \<and> left_of a \<noteq> []"

text \<open>The requests and responses are different objects and share no mbuf.\<close>

definition separate :: "answer list \<Rightarrow> nat list \<Rightarrow> world \<Rightarrow> bool" where
  "separate as qs w \<longleftrightarrow> distinct (map request_of as @ map response_of as @ qs) \<and> distinct (map mbuf_of as)
     \<and> (\<forall>a\<in>set as. \<forall>a'\<in>set as. mbuf_of a \<notin> set (m_mbuf_q (w_msgs w (request_of a'))))"

definition waiting :: "answer list \<Rightarrow> nat list \<Rightarrow> nat \<Rightarrow> world \<Rightarrow> bool" where
  "waiting as qs c w \<longleftrightarrow> idle_client (w_conns w c) \<and> c_omsg_q (w_conns w c) = map request_of as @ qs
     \<and> (\<forall>a\<in>set as. paired w a) \<and> separate as qs w \<and> empty_tree (w_rb w) \<and> os_ctl (w_os w) = []
     \<and> (\<forall>q qs'. qs = q # qs' \<longrightarrow> m_peer (w_msgs w q) = None)"

definition answered :: "answer list \<Rightarrow> nat list \<Rightarrow> nat \<Rightarrow> world \<Rightarrow> bool" where
  "answered as qs c w \<longleftrightarrow> waiting as qs c w \<and> (\<forall>a\<in>set as. loaded w a)"

text \<open>What writing leaves alone, and what it releases.\<close>

definition client_frame :: "nat \<Rightarrow> world \<Rightarrow> world \<Rightarrow> bool" where
  "client_frame c w w' \<longleftrightarrow> (\<forall>c'. c' \<noteq> c \<longrightarrow> w_conns w' c' = w_conns w c') \<and> c_sd (w_conns w' c) = c_sd (w_conns w c)
     \<and> c_recv_ready (w_conns w' c) = c_recv_ready (w_conns w c)
     \<and> w_sp w' = w_sp w \<and> os_read (w_os w') = os_read (w_os w)
     \<and> (\<forall>sd. sd \<noteq> c_sd (w_conns w c) \<longrightarrow> os_sent (w_os w') sd = os_sent (w_os w) sd)"

definition released :: "answer list \<Rightarrow> world \<Rightarrow> world \<Rightarrow> bool" where
  "released as w w' \<longleftrightarrow>
     p_queue (w_msg_pool w') = p_queue (w_msg_pool w) @ concat (map (\<lambda>a. [response_of a, request_of a]) as)
     \<and> p_queue (w_mbuf_pool w') = p_queue (w_mbuf_pool w)
         @ concat (map (\<lambda>a. mbuf_of a # m_mbuf_q (w_msgs w (request_of a))) as)"

text \<open>The response at the head is written completely: it and its request are released.\<close>

lemma client_answer_done:
  assumes a: "waiting (a # as) qs c w" "\<forall>x\<in>set as. loaded w x"
  shows "\<exists>w'. client_sendDone c (response_of a) w = Some w' \<and> answered as qs c w' \<and> client_frame c w w'
    \<and> released [a] w w' \<and> w_os w' = w_os w \<and> c_send_ready (w_conns w' c) = c_send_ready (w_conns w c)
    \<and> (\<forall>x\<in>set as. w_msgs w' (request_of x) = w_msgs w (request_of x))"
proof -
  let ?p = "request_of a" and ?r = "response_of a"
  have p: "m_peer (w_msgs w ?p) = Some ?r" "m_peer (w_msgs w ?r) = Some ?p" "m_mbuf_q (w_msgs w ?r) = [mbuf_of a]"
    "rb_left (rb_nodes (w_rb w) ?p) = None" "rb_parent (rb_nodes (w_rb w) ?p) = None"
    using a by (auto simp: waiting_def paired_def)
  have q: "c_omsg_q (w_conns w c) = ?p # map request_of as @ qs" "c_kind (w_conns w c) = CLIENT"
    "c_owner (w_conns w c) = Some 0" "?p \<notin> set (map request_of as @ qs)" "?p \<noteq> ?r" "empty_tree (w_rb w)"
    using a by (auto simp: waiting_def separate_def idle_client_def)
  let ?w = "w\<lparr>w_conns := (w_conns w)(c := (w_conns w c)\<lparr>c_omsg_q := map request_of as @ qs\<rparr>)\<rparr>"
  have deq: "dequeueOutput c ?p w = ?w"
    using q by (simp add: dequeueOutput_def upd_conn_def q_remove_def)
  have "\<exists>bufs bp st ms t mp.
     freeMsg c (Some ?p) True ?w = Some (?w\<lparr>w_mbufs := bufs, w_mbuf_pool := bp, w_st := st, w_rb := t, w_msgs := ms,
       w_msg_pool := mp\<rparr>)
     \<and> (\<forall>x. x \<notin> set (m_mbuf_q (w_msgs ?w ?p)) \<union> set (m_mbuf_q (w_msgs ?w ?r)) \<longrightarrow> bufs x = w_mbufs ?w x)
     \<and> (\<forall>x. x \<noteq> ?p \<and> x \<noteq> ?r \<longrightarrow> ms x = w_msgs ?w x \<and> rb_nodes t x = rb_nodes (w_rb ?w) x)
     \<and> p_queue bp = p_queue (w_mbuf_pool ?w) @ m_mbuf_q (w_msgs ?w ?r) @ m_mbuf_q (w_msgs ?w ?p)
     \<and> p_queue mp = p_queue (w_msg_pool ?w) @ [?r, ?p] \<and> empty_tree t"
    by (rule freeMsg_pair) (use p q in simp_all)
  then obtain bufs bp st ms t mp where
    f: "freeMsg c (Some ?p) True ?w = Some (?w\<lparr>w_mbufs := bufs, w_mbuf_pool := bp, w_st := st, w_rb := t, w_msgs := ms,
       w_msg_pool := mp\<rparr>)" (is "_ = Some ?w'")
     "\<And>x. x \<notin> set (m_mbuf_q (w_msgs w ?p)) \<Longrightarrow> x \<noteq> mbuf_of a \<Longrightarrow> bufs x = w_mbufs w x"
     "\<And>x. x \<noteq> ?p \<Longrightarrow> x \<noteq> ?r \<Longrightarrow> ms x = w_msgs w x \<and> rb_nodes t x = rb_nodes (w_rb w) x"
     "p_queue bp = p_queue (w_mbuf_pool w) @ mbuf_of a # m_mbuf_q (w_msgs w ?p)"
     "p_queue mp = p_queue (w_msg_pool w) @ [?r, ?p]" "empty_tree t" using p(3) by auto
  have ne: "request_of x \<noteq> ?p \<and> request_of x \<noteq> ?r \<and> response_of x \<noteq> ?p \<and> response_of x \<noteq> ?r
     \<and> mbuf_of x \<noteq> mbuf_of a \<and> mbuf_of x \<notin> set (m_mbuf_q (w_msgs w ?p))" if "x \<in> set as" for x
    using a that unfolding waiting_def separate_def by (simp add: image_iff) metis
  have nq: "x \<noteq> ?p \<and> x \<noteq> ?r" if "x \<in> set qs" for x
    using a that by (auto simp: waiting_def separate_def)
  have "paired ?w' x" if "x \<in> set as" for x
    using a that ne [OF that] f(2,3) by (auto simp: waiting_def paired_def)
  moreover have "loaded ?w' x" if "x \<in> set as" for x
    using a that ne [OF that] f(2,3) by (auto simp: loaded_def carries_def)
  moreover have "separate as qs ?w'"
    using a(1) ne f(3) by (auto simp: waiting_def separate_def)
  ultimately have "answered as qs c ?w'"
    using a(1) f(3,6) nq by (auto simp: answered_def waiting_def idle_client_def)
  with f p deq ne show ?thesis
    by (auto simp: client_sendDone_def client_frame_def released_def)
qed

lemma client_frame_trans: "client_frame c w w' \<Longrightarrow> client_frame c w' w'' \<Longrightarrow> client_frame c w w''"
  by (auto simp: client_frame_def)

text \<open>No answer is left: \<open>sendNext\<close> has nothing to send.\<close>

lemma client_nothing_left:
  assumes "answered [] qs c w"
  shows "\<exists>w'. send_loop c w = Some (NC_OK, w') \<and> answered [] qs c w' \<and> client_frame c w w'
    \<and> released [] w w' \<and> os_sent (w_os w') = os_sent (w_os w)"
proof -
  have c: "idle_client (w_conns w c)" "c_omsg_q (w_conns w c) = qs" "os_ctl (w_os w) = []"
    "empty_tree (w_rb w)" "separate [] qs w"
    and head: "\<And>q qs'. qs = q # qs' \<Longrightarrow> m_peer (w_msgs w q) = None"
    using assms by (auto simp: answered_def waiting_def)
  note k = idle_clientD [OF c(1)]
  show ?thesis
  proof (cases qs)
    case Nil
    have "send_loop c w = Some (NC_OK, w\<lparr>w_conns := (w_conns w)(c := (w_conns w c)\<lparr>c_send_active := False\<rparr>),
        w_os := disarm_os (w_conns w c) (w_os w)\<rparr>)"
      using k c Nil by (subst send_loop.simps)
        (simp add: conn_sendNext_def client_sendNext_def getContext_def q_front_def on_conn_def delOutput_quiet Let_def)
    moreover note delOutput_quiet(2) [OF c(3), of "w_conns w c"]
    ultimately show ?thesis
      using c k Nil by (auto simp: answered_def waiting_def client_frame_def released_def idle_client_def quiet_os_def separate_def)
  next
    case (Cons q qs')
    have "send_loop c w = Some (NC_OK, w\<lparr>w_conns := (w_conns w)(c := (w_conns w c)\<lparr>c_smsg := None\<rparr>)\<rparr>)"
      using k c Cons head [OF Cons] by (subst send_loop.simps)
        (simp add: conn_sendNext_def client_sendNext_def getContext_def q_front_def upd_conn_def Let_def)
    then show ?thesis
      using c k Cons head by (auto simp: answered_def waiting_def client_frame_def released_def idle_client_def separate_def)
  qed
qed

text \<open>One \<open>sendChain\<close> for the answer at the head: a part of it is taken.\<close>

lemma client_one_write:
  assumes a: "answered (a # as) qs c w"
    and script: "\<forall>r\<in>set (os_write (w_os w) (c_sd (w_conns w c))). good_reply r"
    and ready: "c_send_ready (w_conns w c)"
  obtains (full) w' where "answered as qs c w'" "client_frame c w w'" "released [a] w w'" "c_send_ready (w_conns w' c)"
      "send_loop c w = send_loop c w'"
      "os_sent (w_os w') = (os_sent (w_os w))(c_sd (w_conns w c) := os_sent (w_os w) (c_sd (w_conns w c)) @ left_of a)"
      "set (os_write (w_os w') (c_sd (w_conns w c))) \<subseteq> set (os_write (w_os w) (c_sd (w_conns w c)))"
      "length (os_write (w_os w') (c_sd (w_conns w c))) \<le> length (os_write (w_os w) (c_sd (w_conns w c)))"
      "\<forall>x\<in>set as. w_msgs w' (request_of x) = w_msgs w (request_of x)"
  | (part) w' a' n where "answered (a' # as) qs c w'" "client_frame c w w'" "released [] w w'" "c_send_ready (w_conns w' c)"
      "send_loop c w = send_loop c w'"
      "a' = (request_of a, response_of a, mbuf_of a, drop n (left_of a))"
      "os_sent (w_os w') = (os_sent (w_os w))(c_sd (w_conns w c) := os_sent (w_os w) (c_sd (w_conns w c)) @ take n (left_of a))"
      "set (os_write (w_os w') (c_sd (w_conns w c))) \<subseteq> set (os_write (w_os w) (c_sd (w_conns w c)))"
      "length (os_write (w_os w') (c_sd (w_conns w c))) < length (os_write (w_os w) (c_sd (w_conns w c)))"
      "\<forall>x. w_msgs w' x = w_msgs w x"
  | (again) w' where "answered (a # as) qs c w'" "client_frame c w w'" "released [] w w'"
      "send_loop c w = Some (NC_OK, w')" "os_sent (w_os w') = os_sent (w_os w)"
      "os_write (w_os w) (c_sd (w_conns w c)) \<noteq> []" "\<forall>x. w_msgs w' x = w_msgs w x"
proof -
  let ?p = "request_of a" and ?r = "response_of a" and ?b = "mbuf_of a" and ?bs = "left_of a"
  let ?sd = "c_sd (w_conns w c)"
  have c: "idle_client (w_conns w c)" "c_omsg_q (w_conns w c) = ?p # map request_of as @ qs" "os_ctl (w_os w) = []"
    "m_peer (w_msgs w ?p) = Some ?r" "carries (w_msgs w ?r) ?b ?bs (w_mbufs w)" "?bs \<noteq> []" "mbuf_ok (w_mbufs w ?b)"
    using a by (auto simp: answered_def waiting_def paired_def loaded_def carries_def)
  note k = idle_clientD [OF c(1)]
  let ?wa = "w\<lparr>w_conns := (w_conns w)(c := (w_conns w c)\<lparr>c_smsg := Some ?r\<rparr>)\<rparr>"
  let ?wb = "w\<lparr>w_conns := (w_conns w)(c := (w_conns w c)\<lparr>c_smsg := None\<rparr>)\<rparr>"
  have n1: "conn_sendNext c w = Some (Some ?r, ?wa)" and n2: "conn_sendNext c ?wa = Some (None, ?wb)"
    using k c by (simp_all add: conn_sendNext_def client_sendNext_def getContext_def q_front_def upd_conn_def Let_def)
  obtain n cn k1 where snd: "conn_sendv [?bs] ((w_conns w c)\<lparr>c_smsg := None\<rparr>) (w_os w) = (n, cn, k1)"
    by (cases "conn_sendv [?bs] ((w_conns w c)\<lparr>c_smsg := None\<rparr>) (w_os w)")
  obtain rs' where g: "cn = ((w_conns w c)\<lparr>c_smsg := None\<rparr>)\<lparr>c_send_ready := c_send_ready cn, c_send_bytes := c_send_bytes cn\<rparr>"
    "os_read k1 = os_read (w_os w)" "os_ctl k1 = []"
    "os_write k1 = (os_write (w_os w))(?sd := rs')" "set rs' \<subseteq> set (os_write (w_os w) ?sd)"
    "n = - 2 \<and> \<not> c_send_ready cn \<and> os_sent k1 = os_sent (w_os w) \<and> length rs' < length (os_write (w_os w) ?sd)
       \<or> 0 < n \<and> n \<le> int (length ?bs) \<and> c_send_ready cn
         \<and> os_sent k1 = (os_sent (w_os w))(?sd := os_sent (w_os w) ?sd @ take (nat n) ?bs)
         \<and> (length rs' < length (os_write (w_os w) ?sd) \<or> rs' = [] \<and> n = int (length ?bs))"
    using sendv_good [OF snd] script ready c by auto
  let ?wc = "w\<lparr>w_conns := (w_conns w)(c := cn), w_os := k1,
                 w_mbufs := (w_mbufs w)(?b := sent_mbuf n (length ?bs) (w_mbufs w ?b))\<rparr>"
  have chain: "sendChain c ?r ?wa =
    (if n = int (length ?bs) then map_option (\<lambda>w. (NC_OK, w)) (conn_sendDone c ?r ?wc)
        else Some (if n > 0 \<or> n = NC_EAGAIN then NC_OK else NC_ERROR, ?wc))"
    using sendChain_one [of ?wa c ?r ?b ?bs ?wb n cn k1] k c n2 snd g(6) by (auto simp: Let_def)
  have cn: "idle_client cn" "c_sd cn = ?sd" "c_omsg_q cn = ?p # map request_of as @ qs" "c_kind cn = CLIENT"
    "c_recv_ready cn = c_recv_ready (w_conns w c)"
    using k c(2) by (subst g(1); simp add: idle_client_def)+
  have mb: "mbuf_ok (sent_mbuf n (length ?bs) (w_mbufs w ?b))"
    "mbuf_bytes (sent_mbuf n (length ?bs) (w_mbufs w ?b)) = drop (nat n) ?bs"
    using sent_mbuf_ok [of "w_mbufs w ?b" ?bs n] c g(6) by (auto simp: carries_def)
  have frame: "client_frame c w ?wc" "released [] w ?wc"
    using cn g(2,6) by (auto simp: client_frame_def released_def)
  have split: "n = int (length ?bs) \<or> 0 < n \<and> n < int (length ?bs) \<and> c_send_ready cn
        \<and> length rs' < length (os_write (w_os w) ?sd) \<or> n = - 2 \<and> \<not> c_send_ready cn"
    using g(6) by force
  have wait: "waiting (a # as) qs c ?wc"
    using a cn(1,3) g(3) by (auto simp: answered_def waiting_def paired_def separate_def)
  have "mbuf_of x \<noteq> ?b" if "x \<in> set as" for x
    using a that by (auto simp: answered_def waiting_def separate_def image_iff)
  then have rest: "\<forall>x\<in>set as. loaded ?wc x"
    using a by (auto simp: answered_def loaded_def carries_def)
  show thesis
    using split
  proof (elim disjE conjE)
    assume all: "n = int (length ?bs)"
    have pos: "0 < n" "c_send_ready cn" using all c(6) g(6) by auto
    obtain w' where w': "client_sendDone c ?r ?wc = Some w'" "answered as qs c w'" "client_frame c ?wc w'"
      "released [a] ?wc w'" "w_os w' = k1" "c_send_ready (w_conns w' c)"
      "\<forall>x\<in>set as. w_msgs w' (request_of x) = w_msgs w (request_of x)"
      using client_answer_done [OF wait rest] pos(2) by auto
    have loop: "send_loop c w = send_loop c w'"
      by (subst send_loop.simps) (use w'(1,6) cn(4) chain all in \<open>simp add: n1 Let_def conn_sendDone_def\<close>)
    show thesis
      by (rule full [OF w'(2) client_frame_trans [OF frame(1) w'(3)] _ w'(6) loop _ _ _ w'(7)])
        (use w'(4,5) g(4-6) pos(1) all in \<open>auto simp: released_def\<close>)
  next
    assume some: "0 < n" "n < int (length ?bs)" "c_send_ready cn" "length rs' < length (os_write (w_os w) ?sd)"
    let ?a = "(?p, ?r, ?b, drop (nat n) ?bs)"
    have ans: "answered (?a # as) qs c ?wc"
      using wait rest mb some(1,2) c(5)
      by (auto simp: answered_def waiting_def paired_def separate_def loaded_def carries_def answer_defs)
    have loop: "send_loop c w = send_loop c ?wc"
      by (subst send_loop.simps) (use some chain in \<open>simp add: n1 Let_def\<close>)
    show thesis
      by (rule part [OF ans frame(1,2) _ loop refl]) (use some g(4-6) in auto)
  next
    assume none: "n = - 2" "\<not> c_send_ready cn"
    have ans: "answered (a # as) qs c ?wc"
      using wait rest mb none(1) c(5,6)
      by (auto simp: answered_def loaded_def carries_def)
    have loop: "send_loop c w = Some (NC_OK, ?wc)"
      by (subst send_loop.simps) (use none chain in \<open>simp add: n1 Let_def\<close>)
    show thesis
      by (rule again [OF ans frame(1,2) loop]) (use none g(6) in auto)
  qed
qed

text \<open>
  The loop of \<open>sendMsg\<close> on a client with any number of answered requests, for any sequence of
  partial writes, interruptions and refusals: the responses go out in the order of the
  requests, and the pairs that are written completely are released.
\<close>

definition wrote_answers :: "answer list \<Rightarrow> nat list \<Rightarrow> nat \<Rightarrow> world \<Rightarrow> answer list \<Rightarrow> world \<Rightarrow> bool" where
  "wrote_answers as qs c w as' w' \<longleftrightarrow> answered as' qs c w' \<and> client_frame c w w'
     \<and> os_sent (w_os w') (c_sd (w_conns w c)) @ pending as' = os_sent (w_os w) (c_sd (w_conns w c)) @ pending as
     \<and> length as' \<le> length as
     \<and> map request_of as' = drop (length as - length as') (map request_of as)
     \<and> released (take (length as - length as') as) w w'
     \<and> (os_write (w_os w) (c_sd (w_conns w c)) = [] \<longrightarrow> as' = [])"

lemma released_cons:
  assumes "released [a] w w1" "released as w1 w'" "\<forall>x\<in>set as. w_msgs w1 (request_of x) = w_msgs w (request_of x)"
  shows "released (a # as) w w'"
proof -
  have "concat (map (\<lambda>x. mbuf_of x # m_mbuf_q (w_msgs w1 (request_of x))) as)
      = concat (map (\<lambda>x. mbuf_of x # m_mbuf_q (w_msgs w (request_of x))) as)"
    using assms(3) by (intro arg_cong [of _ _ concat] map_cong refl) simp
  with assms(1,2) show ?thesis by (simp add: released_def)
qed

lemma wrote_answers_full:
  assumes "client_frame c w w1" "released [a] w w1"
    and "os_sent (w_os w1) = (os_sent (w_os w))(c_sd (w_conns w c) := os_sent (w_os w) (c_sd (w_conns w c)) @ left_of a)"
    and "length (os_write (w_os w1) (c_sd (w_conns w c))) \<le> length (os_write (w_os w) (c_sd (w_conns w c)))"
    and "\<forall>x\<in>set as. w_msgs w1 (request_of x) = w_msgs w (request_of x)"
    and l: "wrote_answers as qs c w1 as' w'"
  shows "wrote_answers (a # as) qs c w as' w'"
proof -
  have "c_sd (w_conns w1 c) = c_sd (w_conns w c)" using assms(1) by (simp add: client_frame_def)
  moreover have "released (a # take (length as - length as') as) w w'"
    by (rule released_cons [OF assms(2)]) (use assms(5) l in \<open>auto simp: wrote_answers_def dest: in_set_takeD\<close>)
  ultimately show ?thesis
    using assms client_frame_trans [OF assms(1)] by (auto simp: wrote_answers_def pending_def Suc_diff_le)
qed

lemma wrote_answers_part:
  assumes "client_frame c w w1" "released [] w w1"
    and "os_sent (w_os w1) = (os_sent (w_os w))(c_sd (w_conns w c) := os_sent (w_os w) (c_sd (w_conns w c)) @ take n (left_of a))"
    and "length (os_write (w_os w1) (c_sd (w_conns w c))) < length (os_write (w_os w) (c_sd (w_conns w c)))"
    and "\<forall>x. w_msgs w1 x = w_msgs w x"
    and l: "wrote_answers ((request_of a, response_of a, mbuf_of a, drop n (left_of a)) # as) qs c w1 as' w'"
  shows "wrote_answers (a # as) qs c w as' w'"
proof -
  have "released (take (length (a # as) - length as') (a # as)) w w'"
    using l assms(2,5)
    by (cases "length (a # as) - length as'") (auto simp: wrote_answers_def released_def answer_defs)
  with assms client_frame_trans [OF assms(1)] show ?thesis
    by (auto simp: wrote_answers_def pending_def client_frame_def [of c w w1] answer_defs)
qed

lemma client_send_loop:
  assumes "answered as qs c w" "\<forall>r\<in>set (os_write (w_os w) (c_sd (w_conns w c))). good_reply r"
    and "c_send_ready (w_conns w c)"
  shows "\<exists>w' as'. send_loop c w = Some (NC_OK, w') \<and> wrote_answers as qs c w as' w'"
  using assms
proof (induction "length as + length (os_write (w_os w) (c_sd (w_conns w c)))" arbitrary: as w rule: less_induct)
  case less
  let ?sd = "c_sd (w_conns w c)"
  show ?case
  proof (cases as)
    case Nil
    then show ?thesis using client_nothing_left [of qs c w] less.prems(1)
      by (auto simp: wrote_answers_def pending_def)
  next
    case (Cons a as1)
    from less.prems(1) have ans: "answered (a # as1) qs c w" using Cons by simp
    from ans less.prems(2,3) show ?thesis
    proof (cases rule: client_one_write)
      case (full w1)
      have sd: "c_sd (w_conns w1 c) = ?sd" using full(2) by (simp add: client_frame_def)
      have "\<forall>r\<in>set (os_write (w_os w1) (c_sd (w_conns w1 c))). good_reply r"
        using full(7) less.prems(2) sd by (auto simp: subset_iff)
      then obtain w' as' where l: "send_loop c w1 = Some (NC_OK, w')" "wrote_answers as1 qs c w1 as' w'"
        using less.hyps [of as1 w1] full(1,4,8) Cons sd by auto
      with wrote_answers_full [OF full(2,3,6,8,9)] full(5) Cons show ?thesis by auto
    next
      case (part w1 a1 n)
      have sd: "c_sd (w_conns w1 c) = ?sd" using part(2) by (simp add: client_frame_def)
      have "\<forall>r\<in>set (os_write (w_os w1) (c_sd (w_conns w1 c))). good_reply r"
        using part(8) less.prems(2) sd by (auto simp: subset_iff)
      then obtain w' as' where l: "send_loop c w1 = Some (NC_OK, w')" "wrote_answers (a1 # as1) qs c w1 as' w'"
        using less.hyps [of "a1 # as1" w1] part(1,4,9) Cons sd by auto
      have "wrote_answers as qs c w as' w'"
        using wrote_answers_part [OF part(2,3,7,9,10) l(2) [unfolded part(6)]] Cons by simp
      with l(1) part(5) show ?thesis by auto
    next
      case (again w1)
      then have "wrote_answers as qs c w as w1"
        using Cons by (auto simp: wrote_answers_def)
      with again(4) show ?thesis by auto
    qed
  qed
qed

lemma responses_written:
  assumes "answered as qs c w" "\<forall>r\<in>set (os_write (w_os w) (c_sd (w_conns w c))). good_reply r"
  shows "\<exists>w' as'. conn_callback c EVENT_WRITE w = Some (NC_OK, w') \<and> wrote_answers as qs c w as' w'"
proof -
  let ?w = "w\<lparr>w_conns := (w_conns w)(c := (w_conns w c)\<lparr>c_events := EVENT_WRITE, c_send_ready := True\<rparr>)\<rparr>"
  have "answered as qs c ?w"
    using assms(1) by (auto simp: answered_def waiting_def idle_client_def paired_def loaded_def separate_def)
  then obtain w' as' where l: "send_loop c ?w = Some (NC_OK, w')" "wrote_answers as qs c ?w as' w'"
    using client_send_loop [of as qs c ?w] assms(2) by auto
  have "idle_client (w_conns w c)" "idle_client (w_conns w' c)"
    using assms(1) l(2) by (simp_all add: answered_def waiting_def wrote_answers_def)
  note k = this [THEN idle_clientD]
  have "conn_callback c EVENT_WRITE w = Some (NC_OK, w')"
    using k l(1) by (simp add: conn_callback_def getContext_def upd_conn_def event_bits processSend_def conn_sendMsg_def
        conn_failed_def)
  moreover have "wrote_answers as qs c w as' w'"
    using l(2) by (auto simp: wrote_answers_def client_frame_def released_def)
  ultimately show ?thesis by blast
qed

section \<open>A transaction from the request to the response\<close>

text \<open>
  The events of one round trip, dispatched as \<open>NcEventBase::wait\<close> dispatches them, with the
  virtual call of the connections as callback.
\<close>

definition on_event :: "nat \<Rightarrow> u32 \<Rightarrow> world \<Rightarrow> world option" where
  "on_event c events w = map_option snd (conn_callback c events w)"

definition round_trip :: "nat \<Rightarrow> nat \<Rightarrow> (nat option \<times> u32) list" where
  "round_trip c s = [(Some c, EPOLLIN), (Some s, EPOLLOUT), (Some s, EPOLLIN), (Some c, EPOLLOUT)]"

lemma ev_events_single: "ev_events EPOLLIN = EVENT_READ" "ev_events EPOLLOUT = EVENT_WRITE"
  by (simp_all add: ev_events_def event_bits)

lemma round_trip_steps:
  assumes "conn_callback c EVENT_READ w = Some (r1, w1)" "conn_callback s EVENT_WRITE w1 = Some (r2, w2)"
    and "conn_callback s EVENT_READ w2 = Some (r3, w3)" "conn_callback c EVENT_WRITE w3 = Some (r4, w4)"
  shows "ev_dispatch on_event (round_trip c s) w = Some w4"
  by (simp add: round_trip_def on_event_def ev_events_single assms)

definition at_rest :: "nat \<Rightarrow> nat \<Rightarrow> world \<Rightarrow> bool" where
  "at_rest c s w \<longleftrightarrow> idle_client (w_conns w c) \<and> c_omsg_q (w_conns w c) = []
     \<and> idle_server (w_conns w s) \<and> c_imsg_q (w_conns w s) = [] \<and> c_omsg_q (w_conns w s) = []
     \<and> routed s (w_sp w) \<and> empty_tree (w_rb w) \<and> os_ctl (w_os w) = []
     \<and> c_sd (w_conns w c) \<noteq> c_sd (w_conns w s)"

definition fresh_pools :: "world \<Rightarrow> bool" where
  "fresh_pools w \<longleftrightarrow> p_queue (w_mbuf_pool w) = [] \<and> p_queue (w_msg_pool w) = []"

lemma transaction_served:
  assumes rest: "at_rest c s w" "fresh_pools w"
    and req: "os_read (w_os w) (c_sd (w_conns w c)) = Data req # rs" "req \<noteq> []"
      "length req + MBUF_HSIZE < unat (st_chunk (w_st w))"
    and rsp: "os_read (w_os w) (c_sd (w_conns w s)) = Data rsp # rs'" "rsp \<noteq> []"
      "length rsp + MBUF_HSIZE < unat (st_chunk (w_st w))"
    and wr: "os_write (w_os w) (c_sd (w_conns w c)) = []" "os_write (w_os w) (c_sd (w_conns w s)) = []"
    and t: "0 \<le> w_testi w" "w_testi w + 2 < 2 ^ 31"
  shows "\<exists>w'. ev_dispatch on_event (round_trip c s) w = Some w' \<and> at_rest c s w'
    \<and> os_sent (w_os w') = (os_sent (w_os w))
        (c_sd (w_conns w s) := os_sent (w_os w) (c_sd (w_conns w s)) @ req,
         c_sd (w_conns w c) := os_sent (w_os w) (c_sd (w_conns w c)) @ rsp)
    \<and> p_queue (w_msg_pool w') = [w_nmsg w + 1, w_nmsg w]
    \<and> p_queue (w_mbuf_pool w') = [w_nmbuf w + 1, w_nmbuf w]"
proof -
  let ?c = "w_conns w c" and ?s = "w_conns w s" and ?m = "w_nmsg w" and ?b = "w_nmbuf w"
  have cs: "c \<noteq> s" "s \<noteq> c" "c_sd ?c \<noteq> c_sd ?s" "c_sd ?s \<noteq> c_sd ?c"
    using rest by (auto simp: at_rest_def)
  obtain cn sn v x k where a: "conn_callback c EVENT_READ w = Some (NC_OK,
       w\<lparr>w_msg_pool := w_msg_pool w\<lparr>p_current := Some ?m\<rparr>, w_nmsg := ?m + 1,
         w_rb := w_rb w\<lparr>rb_nodes := (rb_nodes (w_rb w))(?m := rbnode_new\<lparr>rb_data := Some c\<rparr>)\<rparr>,
         w_mbuf_pool := w_mbuf_pool w\<lparr>p_current := Some ?b\<rparr>, w_nmbuf := ?b + 1,
         w_mbufs := (w_mbufs w)(?b := v), w_msgs := (w_msgs w)(?m := x),
         w_testi := w_testi w + 1, w_conns := (w_conns w)(c := cn, s := sn), w_os := k\<rparr>)" (is "_ = Some (_, ?w1)")
    and x: "carries x ?b req ((w_mbufs w)(?b := v))" "m_peer x = None" "\<not> m_noreply x"
    and cn: "idle_client cn" "c_sd cn = c_sd ?c" "c_omsg_q cn = [?m]"
    and sn: "idle_server sn" "c_sd sn = c_sd ?s" "c_imsg_q sn = [?m]" "c_omsg_q sn = []"
    and k: "os_read k = (os_read (w_os w))(c_sd ?c := rs)" "os_write k = os_write (w_os w)" "os_sent k = os_sent (w_os w)"
      "os_ctl k = []"
    using request_read [of w c s req rs] assms by (auto simp: at_rest_def fresh_pools_def quiet_os_def)
  obtain cn2 z k2 where b: "conn_callback s EVENT_WRITE ?w1 = Some (NC_OK,
      ?w1\<lparr>w_conns := (w_conns ?w1)(s := cn2), w_os := k2, w_mbufs := (w_mbufs ?w1)(?b := z)\<rparr>)" (is "_ = Some (_, ?w2)")
    and cn2: "idle_server cn2" "c_sd cn2 = c_sd ?s" "c_imsg_q cn2 = []" "c_omsg_q cn2 = [?m]"
    and k2: "os_sent k2 = (os_sent (w_os w))(c_sd ?s := os_sent (w_os w) (c_sd ?s) @ req)" "os_read k2 = os_read k"
      "os_ctl k2 = []" "\<forall>sd. sd \<noteq> c_sd ?s \<longrightarrow> os_write k2 sd = os_write k sd"
    using request_written [of ?w1 s ?m ?b req] x sn k wr req(2) cs by (auto simp: server_wrote_def)
  obtain sn3 v3 x3 k3 where c: "conn_callback s EVENT_READ ?w2 = Some (NC_OK,
       ?w2\<lparr>w_msg_pool := w_msg_pool ?w2\<lparr>p_current := Some (?m + 1)\<rparr>, w_nmsg := ?m + 1 + 1,
         w_rb := w_rb ?w2\<lparr>rb_nodes := (rb_nodes (w_rb ?w2))(?m + 1 := rbnode_new)\<rparr>,
         w_mbuf_pool := w_mbuf_pool ?w2\<lparr>p_current := Some (?b + 1)\<rparr>, w_nmbuf := ?b + 1 + 1,
         w_mbufs := (w_mbufs ?w2)(?b + 1 := v3), w_testi := w_testi ?w2 + 1,
         w_msgs := (w_msgs ?w2)(?m := (w_msgs ?w2 ?m)\<lparr>m_done := True, m_peer := Some (?m + 1)\<rparr>, ?m + 1 := x3),
         w_conns := (w_conns ?w2)(s := sn3, c := (w_conns ?w2 c)\<lparr>c_send_active := True\<rparr>), w_os := k3\<rparr>)" (is "_ = Some (_, ?w3)")
    and x3: "carries x3 (?b + 1) rsp ((w_mbufs ?w2)(?b + 1 := v3))" "m_peer x3 = Some ?m"
    and sn3: "idle_server sn3" "c_sd sn3 = c_sd ?s" "c_omsg_q sn3 = []" "c_imsg_q sn3 = []"
    and k3: "os_write k3 = os_write k2" "os_sent k3 = os_sent k2" "os_ctl k3 = []"
    using response_read [of ?w2 s ?m "[]" c rsp rs'] assms cn2 cs cn k k2
    by (auto simp: at_rest_def fresh_pools_def quiet_os_def)
  let ?a = "(?m, ?m + 1, ?b + 1, rsp)"
  have "answered [?a] [] c ?w3"
    using rest x x3 cn cs rsp k3
    by (auto simp: at_rest_def answered_def waiting_def idle_client_def paired_def separate_def loaded_def answer_defs
        empty_tree_def rbnode_new_def carries_def)
  then obtain w' where d: "conn_callback c EVENT_WRITE ?w3 = Some (NC_OK, w')" "wrote_answers [?a] [] c ?w3 [] w'"
    using responses_written [of "[?a]" "[]" c ?w3] cs k k2 k3 wr cn(2) by (auto simp: wrote_answers_def)
  have "ev_dispatch on_event (round_trip c s) w = Some w'" by (rule round_trip_steps [OF a b c d(1)])
  then show ?thesis
    using d(2) rest cs cn sn3 k2 k3 x
    by (auto simp: wrote_answers_def answered_def waiting_def client_frame_def released_def at_rest_def
        answer_defs pending_def fresh_pools_def carries_def fun_eq_iff)
qed

section \<open>A second request\<close>

text \<open>
  An mbuf that comes back from the pool is full: there is no room to read into, the read of
  zero bytes returns zero, and that is taken for the end of the stream. The connection is
  closed although the client sent a request.
\<close>

lemma mbuf_size_reset: "mbuf_size (mbuf_reset x) = 0"
  by (simp add: mbuf_size_def mbuf_reset_def mbuf_rewind_def)

definition freed_single :: "nat \<Rightarrow> nat \<Rightarrow> world \<Rightarrow> world" where
  "freed_single m b w = w\<lparr>w_mbufs := reset_bufs [b] (w_mbufs w),
     w_mbuf_pool := (w_mbuf_pool w)\<lparr>p_queue := p_queue (w_mbuf_pool w) @ [b], p_free := p_free (w_mbuf_pool w) + 1\<rparr>,
     w_st := (w_st w)\<lparr>st_id := st_id (w_st w) + 1\<rparr>,
     w_rb := (w_rb w)\<lparr>rb_nodes := (rb_nodes (w_rb w))(m := rbnode_reset (rb_nodes (w_rb w) m))\<rparr>,
     w_msgs := (w_msgs w)(m := msg_reset (st_id (w_st w)) ((w_msgs w m)\<lparr>m_mbuf_q := []\<rparr>)),
     w_msg_pool := (w_msg_pool w)\<lparr>p_queue := p_queue (w_msg_pool w) @ [m], p_free := p_free (w_msg_pool w) + 1\<rparr>\<rparr>"

lemma freeMsg_single:
  assumes "c_owner (w_conns w c) \<noteq> None" "m_peer (w_msgs w m) = None" "m_mbuf_q (w_msgs w m) = [b]"
    and "rb_root (w_rb w) = None" "rb_sentinel (w_rb w) = None"
    and "rb_left (rb_nodes (w_rb w) m) = None" "rb_parent (rb_nodes (w_rb w) m) = None"
  shows "freeMsg c (Some m) True w = Some (freed_single m b w)"
proof -
  from assms(1) obtain j where "c_owner (w_conns w c) = Some j" by blast
  then show ?thesis
    using assms(2-)
    by (simp add: freeMsg_def upd_msg_def freeMbuf_def free_mbufs_eq free_msg_def uniqNextId_eq upd_rb_def pool_free_def
      rb_remove_unlinked freed_single_def Let_def)
qed

lemma freed_single_same [simp]:
  "w_conns (freed_single m b w) = w_conns w" "w_os (freed_single m b w) = w_os w" "w_sys (freed_single m b w) = w_sys w"
  "w_sp (freed_single m b w) = w_sp w" "w_c_pool (freed_single m b w) = w_c_pool w"
  by (simp_all add: freed_single_def)

lemma sys_os: "w_conns (snd (sys w)) = w_conns w" "os_sent (w_os (snd (sys w))) = os_sent (w_os w)"
  "os_read (w_os (snd (sys w))) = os_read (w_os w)"
  by (simp_all add: sys_def Let_def)

lemma delConn_os: "os_sent (snd (snd (ev_delConn x k))) = os_sent k" "os_read (snd (snd (ev_delConn x k))) = os_read k"
  by (auto simp: ev_delConn_def epoll_ctl_def Let_def split: list.split)

lemma delConn_conn: "c_sd (fst (snd (ev_delConn x k))) = c_sd x \<and> c_owner (fst (snd (ev_delConn x k))) = c_owner x
   \<and> c_rmsg (fst (snd (ev_delConn x k))) = c_rmsg x \<and> c_omsg_q (fst (snd (ev_delConn x k))) = c_omsg_q x
   \<and> c_kind (fst (snd (ev_delConn x k))) = c_kind x"
  by (auto simp: ev_delConn_def epoll_ctl_def Let_def split: list.split)

lemma client_closed:
  assumes "c_kind (w_conns w c) = CLIENT" "c_owner (w_conns w c) = Some 0" "0 \<le> c_sd (w_conns w c)"
    and "c_rmsg (w_conns w c) = None" "c_omsg_q (w_conns w c) = []"
  shows "\<exists>w'. processClose c w = Some w' \<and> c_sd (w_conns w' c) = - 1 \<and> c_owner (w_conns w' c) = None
    \<and> os_sent (w_os w') = os_sent (w_os w) \<and> os_read (w_os w') = os_read (w_os w)"
proof -
  obtain r x k where d: "ev_delConn (w_conns w c) (w_os w) = (r, x, k)" by (rule prod_cases3)
  have x: "c_sd x = c_sd (w_conns w c)" "c_owner x = Some 0" "c_rmsg x = None" "c_omsg_q x = []" "c_kind x = CLIENT"
    "os_sent k = os_sent (w_os w)" "os_read k = os_read (w_os w)"
    using delConn_conn [of "w_conns w c" "w_os w"] delConn_os [of "w_conns w c" "w_os w"] d assms by simp_all
  show ?thesis
    using assms x sys_os
    by (simp add: processClose_def getContext_def on_conn_def d conn_close_def client_close_def client_unref_def
        free_client_def upd_conn_def upd_sp_def connbase_reset_def conn_setSd_def split_beta Let_def)
qed

lemma client_closed_bind:
  assumes "c_kind (w_conns w c) = CLIENT" "c_owner (w_conns w c) = Some 0" "0 \<le> c_sd (w_conns w c)"
    and "c_rmsg (w_conns w c) = None" "c_omsg_q (w_conns w c) = []"
    and "os_sent (w_os w) = f" "os_read (w_os w) = g"
  shows "\<exists>w'. Option.bind (processClose c w) (\<lambda>w. Some (r, w)) = Some (r, w') \<and> c_sd (w_conns w' c) = - 1
    \<and> c_owner (w_conns w' c) = None \<and> os_sent (w_os w') = f \<and> os_read (w_os w') = g"
  using client_closed [OF assms(1-5)] assms(6,7) by auto

lemma recycled_request_closed:
  assumes c: "idle_client (w_conns w c)" "c_omsg_q (w_conns w c) = []" "0 \<le> c_sd (w_conns w c)"
    and b: "p_queue (w_mbuf_pool w) = b # bs" "w_mbufs w b = mbuf_reset x" "mbuf_ok x"
    and m: "p_queue (w_msg_pool w) = m # ms" "m_mbuf_q (w_msgs w m) = []" "m_peer (w_msgs w m) = None"
      "rb_left (rb_nodes (w_rb w) m) = None" "rb_parent (rb_nodes (w_rb w) m) = None" "empty_tree (w_rb w)"
  shows "\<exists>w'. conn_callback c EVENT_READ w = Some (NC_ERROR, w') \<and> c_sd (w_conns w' c) = - 1
    \<and> c_owner (w_conns w' c) = None \<and> os_sent (w_os w') = os_sent (w_os w) \<and> os_read (w_os w') = os_read (w_os w)"
proof -
  note k = idle_clientD [OF c(1)]
  obtain y where y: "mbuf_write (b_last (mbuf_reset x)) [] (mbuf_reset x) = Some y"
    using b(3) by (simp add: mbuf_write_def mbuf_reset_def mbuf_rewind_def mbuf_ok_def)
  show ?thesis
    apply (simp add: conn_callback_def getContext_def k upd_conn_def event_bits processRecv_def conn_recvMsg_def)
    apply (subst recv_loop.simps)
    apply (simp add: conn_recvNext_def client_recvNext_def getContext_def k upd_defs alloc_msg_def pool_alloc_def m Let_def)
    apply (simp add: recvChain_def getContext_def k recv_mbuf_def alloc_mbuf_def pool_alloc_def b m
        q_back_def Let_def upd_defs mbuf_size_reset conn_recv_def y)
    apply (subst parse_loop.simps)
    apply (simp add: msg_parse_def msg_empty_def msg_setLength_def conn_recvDone_def client_recvDone_def requestFilter_def
        getContext_def k upd_defs Let_def)
    apply (subst freeMsg_single [where b = b])
           apply (simp_all add: k m(3-5) q_push_def msg_setPos_def m(6) [unfolded empty_tree_def])
    apply (simp add: conn_recvNext_def client_recvNext_def getContext_def k c(2) client_active_def upd_conn_def
        conn_failed_def Let_def)
    apply (rule client_closed_bind)
    using k c apply simp_all
    done
qed

end
