(* ===== verification/NcCoreSpec.thy ===== *)
theory NcCoreSpec
  imports NcMain NcConfSpec NcFlow
begin

text \<open>
  What making a context does: each server gets one connection that points back to it, the
  pool gets a listening connection, and the settings are those of the configuration. With one
  server and the hash types set, the result is a pool in which the flow of a request runs.
\<close>

section \<open>What the set-up of one connection leaves alone\<close>

text \<open>Only the connection \<open>c\<close>, the kernel and its script change; not the links of \<open>c\<close>.\<close>

definition linked_alike :: "conn \<Rightarrow> conn \<Rightarrow> bool" where
  "linked_alike x y \<longleftrightarrow> c_kind y = c_kind x \<and> c_owner y = c_owner x \<and> c_imsg_q y = c_imsg_q x
     \<and> c_omsg_q y = c_omsg_q x \<and> c_rmsg y = c_rmsg x \<and> c_smsg y = c_smsg x \<and> c_eof y = c_eof x
     \<and> c_done y = c_done x"

definition conn_frame :: "nat \<Rightarrow> world \<Rightarrow> world \<Rightarrow> bool" where
  "conn_frame c w w' \<longleftrightarrow> (\<exists>s k x. w' = w\<lparr>w_sys := s, w_os := k, w_conns := (w_conns w)(c := x)\<rparr>
     \<and> linked_alike (w_conns w c) x \<and> (os_ctl (w_os w) = [] \<longrightarrow> os_ctl k = []))"

lemma linked_alike_refl [simp]: "linked_alike x x" by (simp add: linked_alike_def)

lemma linked_alike_trans: "linked_alike x y \<Longrightarrow> linked_alike y z \<Longrightarrow> linked_alike x z" by (simp add: linked_alike_def)

lemma conn_frameI:
  "w' = w\<lparr>w_sys := s, w_os := k, w_conns := (w_conns w)(c := x)\<rparr> \<Longrightarrow> linked_alike (w_conns w c) x \<Longrightarrow>
   (os_ctl (w_os w) = [] \<Longrightarrow> os_ctl k = []) \<Longrightarrow> conn_frame c w w'"
  unfolding conn_frame_def by blast

lemma conn_frame_refl [simp]: "conn_frame c w w"
  by (rule conn_frameI [where s = "w_sys w" and k = "w_os w" and x = "w_conns w c"]) simp_all

lemma conn_frame_trans: "conn_frame c w w' \<Longrightarrow> conn_frame c w' w'' \<Longrightarrow> conn_frame c w w''"
proof -
  assume a: "conn_frame c w w'" "conn_frame c w' w''"
  from a(1) obtain s k x where x: "w' = w\<lparr>w_sys := s, w_os := k, w_conns := (w_conns w)(c := x)\<rparr>"
    "linked_alike (w_conns w c) x" "os_ctl (w_os w) = [] \<longrightarrow> os_ctl k = []" unfolding conn_frame_def by blast
  from a(2) obtain s' k' x' where x': "w'' = w'\<lparr>w_sys := s', w_os := k', w_conns := (w_conns w')(c := x')\<rparr>"
    "linked_alike (w_conns w' c) x'" "os_ctl (w_os w') = [] \<longrightarrow> os_ctl k' = []" unfolding conn_frame_def by blast
  show ?thesis
    by (rule conn_frameI [where s = s' and k = k' and x = x']) (use x x' linked_alike_trans in auto)
qed

lemma sys_frame: "conn_frame c w (snd (sys w))"
  by (rule conn_frameI [where s = "tl (w_sys w)" and k = "w_os (snd (sys w))" and x = "w_conns w c"])
    (auto simp: sys_def Let_def split: list.splits)

lemma upd_conn_frame:
  "linked_alike (w_conns w c) (f (w_conns w c)) \<Longrightarrow> conn_frame c w (upd_conn c f w)"
  by (rule conn_frameI [where s = "w_sys w" and k = "w_os w" and x = "f (w_conns w c)"]) (simp_all add: upd_conn_def)

lemma setSd_frame: "conn_frame c w (upd_conn c (conn_setSd sd) w)"
  by (rule upd_conn_frame) (simp add: conn_setSd_def linked_alike_def)

lemma setError_frame: "conn_frame c w (upd_conn c (conn_setError e) w)"
  by (rule upd_conn_frame) (simp add: conn_setError_def linked_alike_def)

lemma nonblock_frame: "conn_frame c w (snd (sys_nonblock w))"
  using conn_frame_trans [OF sys_frame [of c w] sys_frame]
  by (auto simp: sys_nonblock_def sys_frame Let_def split: prod.splits)
    (metis sys_frame snd_conv)

lemma on_conn_frame:
  assumes "\<And>x k r x' k'. f x k = (r, x', k') \<Longrightarrow> linked_alike x x' \<and> (os_ctl k = [] \<longrightarrow> os_ctl k' = [])"
  shows "conn_frame c w (snd (on_conn c f w))"
proof (cases "f (w_conns w c) (w_os w)")
  case (fields r x k)
  show ?thesis
    by (rule conn_frameI [where s = "w_sys w" and k = k and x = x]) (use assms [OF fields] fields in \<open>auto simp: on_conn_def\<close>)
qed

lemma addConn_frame: "conn_frame c w (snd (on_conn c (ev_addConn ev) w))"
  by (rule on_conn_frame) (auto simp: ev_addConn_def epoll_ctl_def linked_alike_def Let_def split: list.splits if_splits)

lemma delOutput_frame: "conn_frame c w (snd (on_conn c ev_delOutput w))"
  by (rule on_conn_frame) (auto simp: ev_delOutput_def epoll_ctl_def linked_alike_def Let_def split: list.splits if_splits)

lemma reuse_frame: "conn_frame c w (snd (proxy_reuse c w))"
  using sys_frame [of c w] by (auto simp: proxy_reuse_def Let_def split: prod.splits)

text \<open>The frame of a sequence of calls is put together from those of the calls.\<close>

definition framed :: "nat \<Rightarrow> world \<Rightarrow> 'r \<times> world \<Rightarrow> bool" where
  "framed c w p \<longleftrightarrow> conn_frame c w (snd p)"

definition framed_opt :: "nat \<Rightarrow> world \<Rightarrow> ('r \<times> world) option \<Rightarrow> bool" where
  "framed_opt c w r \<longleftrightarrow> (\<forall>p. r = Some p \<longrightarrow> framed c w p)"

lemma framed_pair: "conn_frame c w w' \<Longrightarrow> framed c w (r, w')" by (simp add: framed_def)

lemma framed_if: "(b \<Longrightarrow> framed c w p) \<Longrightarrow> (\<not> b \<Longrightarrow> framed c w q) \<Longrightarrow> framed c w (if b then p else q)" by simp

lemma framed_let:
  "conn_frame c w w1 \<Longrightarrow> conn_frame c w1 (snd g) \<Longrightarrow> (\<And>r w2. conn_frame c w w2 \<Longrightarrow> framed c w (h r w2)) \<Longrightarrow>
   framed c w (let (r, w2) = g in h r w2)"
  using conn_frame_trans by (cases g) fastforce

lemma framed_opt_Some: "framed c w p \<Longrightarrow> framed_opt c w (Some p)" by (simp add: framed_opt_def)
lemma framed_opt_if:
  "(b \<Longrightarrow> framed_opt c w p) \<Longrightarrow> (\<not> b \<Longrightarrow> framed_opt c w q) \<Longrightarrow> framed_opt c w (if b then p else q)" by simp

lemma framed_opt_let:
  "conn_frame c w w1 \<Longrightarrow> conn_frame c w1 (snd g) \<Longrightarrow> (\<And>r w2. conn_frame c w w2 \<Longrightarrow> framed_opt c w (h r w2)) \<Longrightarrow>
   framed_opt c w (let (r, w2) = g in h r w2)"
  using conn_frame_trans by (cases g) fastforce

lemmas framed_rules = framed_pair framed_if framed_opt_Some framed_opt_if

lemma sys_if_frame: "conn_frame c w (snd (if b then sys w else (r, w)))"
  by (simp add: sys_frame)

lemma sys_unless_frame: "conn_frame c w (snd (if b then (r, w) else sys w))"
  by (simp add: sys_frame)

lemmas call_frames = sys_frame sys_if_frame nonblock_frame addConn_frame delOutput_frame reuse_frame

lemma connecting_frame:
  "conn_frame c w w' \<Longrightarrow> conn_frame c w (upd_conn c (\<lambda>x. x\<lparr>c_connecting := b\<rparr>) w')"
  "conn_frame c w w' \<Longrightarrow> conn_frame c w (upd_conn c (\<lambda>x. x\<lparr>c_connected := b\<rparr>) w')"
  by (erule conn_frame_trans, rule upd_conn_frame, simp add: linked_alike_def)+

lemma connect_error_frame: "conn_frame c w w' \<Longrightarrow> framed c w (connect_error c st w')"
  using conn_frame_trans setError_frame by (auto simp: connect_error_def framed_def)

lemma Let_sys_setSd:
  "(let (sd, w) = sys w; w = upd_conn c (conn_setSd sd) w in h sd w)
   = (let (sd, w) = (let (sd, w) = sys w in (sd, upd_conn c (conn_setSd sd) w)) in h sd w)"
  by (simp add: split_beta Let_def)

lemma setSd_sys_frame: "conn_frame c w (snd (let (sd, w) = sys w in (sd, upd_conn c (conn_setSd sd) w)))"
  using conn_frame_trans [OF sys_frame setSd_frame] by (simp add: split_beta Let_def)

lemma connect_socket_frame: "framed c w (connect_socket c s w)"
  unfolding connect_socket_def Let_sys_setSd
  apply (rule framed_let [OF conn_frame_refl setSd_sys_frame], rule framed_if, erule connect_error_frame)
  apply (rule framed_let, assumption, rule nonblock_frame, rule framed_if, erule connect_error_frame)
  apply (rule framed_let, assumption, rule sys_if_frame)
  apply (rule framed_let, assumption, rule addConn_frame, rule framed_if, erule connect_error_frame)
  apply (rule framed_let, assumption, rule sys_frame)
  apply (intro framed_rules connect_error_frame connecting_frame; assumption)
  done

lemma server_connect_frame:
  assumes "server_connect c w = Some (st, w')"
  shows "conn_frame c w w'"
proof -
  have "conn_frame c w (w\<lparr>w_os := (w_os w)\<lparr>os_errno := e\<rparr>\<rparr>)" for e
    by (rule conn_frameI [where s = "w_sys w" and k = "(w_os w)\<lparr>os_errno := e\<rparr>" and x = "w_conns w c"]) simp_all
  then show ?thesis
    using assms connect_socket_frame [of c w]
    by (auto simp: server_connect_def framed_def bind_eq_Some_conv split: if_split_asm) (metis snd_conv)
qed

lemma proxy_listen_frame:
  assumes "proxy_listen c w = Some (st, w')"
  shows "conn_frame c w w'"
proof -
  have "framed_opt c w (proxy_listen c w)"
    unfolding proxy_listen_def Let_sys_setSd
    apply (cases "c_owner (w_conns w c)", simp add: framed_opt_def, simp only: Option.bind.simps)
    apply (rule framed_opt_let [OF conn_frame_refl setSd_sys_frame], rule framed_opt_if, rule framed_opt_Some, erule framed_pair)
    apply (rule framed_opt_let, assumption, rule reuse_frame, rule framed_opt_if, rule framed_opt_Some, erule framed_pair)
    apply (rule framed_opt_let, assumption, rule sys_frame, rule framed_opt_if, rule framed_opt_Some, erule framed_pair)
    apply (rule framed_opt_let, assumption, rule sys_if_frame, rule framed_opt_if, rule framed_opt_Some, erule framed_pair)
    apply (rule framed_opt_let, assumption, rule sys_frame, rule framed_opt_if, rule framed_opt_Some, erule framed_pair)
    apply (rule framed_opt_let, assumption, rule nonblock_frame, rule framed_opt_if, rule framed_opt_Some, erule framed_pair)
    apply (rule framed_opt_let, assumption, rule addConn_frame, rule framed_opt_if, rule framed_opt_Some, erule framed_pair)
    apply (rule framed_opt_let, assumption, rule delOutput_frame, rule framed_opt_Some, erule framed_pair)
    done
  with assms show ?thesis by (simp add: framed_opt_def framed_def)
qed

section \<open>One connection to each server\<close>

text \<open>Server \<open>i\<close> and connection \<open>c\<close> belong to each other, and nothing is under way on \<open>c\<close>.\<close>

definition server_linked :: "world \<Rightarrow> nat \<Rightarrow> nat \<Rightarrow> bool" where
  "server_linked w i c \<longleftrightarrow> sv_conn_q (sp_server (w_sp w) ! i) = [Some c] \<and> c_owner (w_conns w c) = Some i
     \<and> c_kind (w_conns w c) = SERVER \<and> c_imsg_q (w_conns w c) = [] \<and> c_omsg_q (w_conns w c) = []
     \<and> c_rmsg (w_conns w c) = None \<and> c_smsg (w_conns w c) = None \<and> \<not> c_eof (w_conns w c) \<and> \<not> c_done (w_conns w c)"

definition server_static :: "server \<Rightarrow> bytes \<times> bytes \<times> bytes \<times> u16 \<times> u32" where
  "server_static s = (sv_name s, sv_addrstr s, sv_pname s, sv_port s, sv_weight s)"

text \<open>The parts of the world that making a connection can change.\<close>

definition setup_frame :: "world \<Rightarrow> world \<Rightarrow> bool" where
  "setup_frame w w' \<longleftrightarrow> (\<exists>ss f n pp s k. w' = w\<lparr>w_sp := (w_sp w)\<lparr>sp_server := ss\<rparr>, w_conns := f, w_nconn := n,
        w_p_pool := pp, w_sys := s, w_os := k\<rparr>
     \<and> map server_static ss = map server_static (sp_server (w_sp w))
     \<and> w_nconn w \<le> n \<and> (\<forall>x<w_nconn w. f x = w_conns w x)
     \<and> (p_queue (w_p_pool w) = [] \<longrightarrow> p_queue pp = []) \<and> (os_ctl (w_os w) = [] \<longrightarrow> os_ctl k = []))"

lemma setup_frame_refl [simp]: "setup_frame w w"
  unfolding setup_frame_def
  by (rule exI [of _ "sp_server (w_sp w)"], rule exI [of _ "w_conns w"], rule exI [of _ "w_nconn w"],
      rule exI [of _ "w_p_pool w"], rule exI [of _ "w_sys w"], rule exI [of _ "w_os w"]) simp

lemma setup_frameD:
  assumes "setup_frame w w'"
  shows "w_nconn w \<le> w_nconn w'" "\<And>x. x < w_nconn w \<Longrightarrow> w_conns w' x = w_conns w x"
    "length (sp_server (w_sp w')) = length (sp_server (w_sp w))"
    "map server_static (sp_server (w_sp w')) = map server_static (sp_server (w_sp w))"
    "p_queue (w_p_pool w) = [] \<Longrightarrow> p_queue (w_p_pool w') = []" "os_ctl (w_os w) = [] \<Longrightarrow> os_ctl (w_os w') = []"
    "w_sp w' = (w_sp w)\<lparr>sp_server := sp_server (w_sp w')\<rparr>" "w_msg_pool w' = w_msg_pool w" "w_mbuf_pool w' = w_mbuf_pool w"
    "w_rb w' = w_rb w" "w_testi w' = w_testi w" "w_st w' = w_st w"
proof -
  from assms obtain ss f n pp s k where w': "w' = w\<lparr>w_sp := (w_sp w)\<lparr>sp_server := ss\<rparr>, w_conns := f, w_nconn := n,
        w_p_pool := pp, w_sys := s, w_os := k\<rparr>"
    and *: "map server_static ss = map server_static (sp_server (w_sp w))"
     "w_nconn w \<le> n" "\<forall>x<w_nconn w. f x = w_conns w x"
     "p_queue (w_p_pool w) = [] \<longrightarrow> p_queue pp = []" "os_ctl (w_os w) = [] \<longrightarrow> os_ctl k = []"
    unfolding setup_frame_def by blast
  from *(1) have "length ss = length (sp_server (w_sp w))" by (metis length_map)
  with * show "w_nconn w \<le> w_nconn w'" "\<And>x. x < w_nconn w \<Longrightarrow> w_conns w' x = w_conns w x"
    "length (sp_server (w_sp w')) = length (sp_server (w_sp w))"
    "map server_static (sp_server (w_sp w')) = map server_static (sp_server (w_sp w))"
    "p_queue (w_p_pool w) = [] \<Longrightarrow> p_queue (w_p_pool w') = []" "os_ctl (w_os w) = [] \<Longrightarrow> os_ctl (w_os w') = []"
    "w_sp w' = (w_sp w)\<lparr>sp_server := sp_server (w_sp w')\<rparr>" "w_msg_pool w' = w_msg_pool w" "w_mbuf_pool w' = w_mbuf_pool w"
    "w_rb w' = w_rb w" "w_testi w' = w_testi w" "w_st w' = w_st w"
    unfolding w' by simp_all
qed

lemma setup_frameI:
  assumes "w' = w\<lparr>w_sp := (w_sp w)\<lparr>sp_server := ss\<rparr>, w_conns := f, w_nconn := n, w_p_pool := pp, w_sys := s, w_os := k\<rparr>"
    and "map server_static ss = map server_static (sp_server (w_sp w))" "w_nconn w \<le> n" "\<forall>x<w_nconn w. f x = w_conns w x"
    and "p_queue (w_p_pool w) = [] \<Longrightarrow> p_queue pp = []" "os_ctl (w_os w) = [] \<Longrightarrow> os_ctl k = []"
  shows "setup_frame w w'"
  using assms unfolding setup_frame_def by blast

lemma setup_frame_trans:
  assumes "setup_frame w w1" "setup_frame w1 w2"
  shows "setup_frame w w2"
proof -
  note a = setup_frameD [OF assms(1)] and b = setup_frameD [OF assms(2)]
  from assms obtain ss f n pp s k where w1: "w1 = w\<lparr>w_sp := (w_sp w)\<lparr>sp_server := ss\<rparr>, w_conns := f, w_nconn := n,
        w_p_pool := pp, w_sys := s, w_os := k\<rparr>" unfolding setup_frame_def by blast
  from assms obtain ss' f' n' pp' s' k' where w2: "w2 = w1\<lparr>w_sp := (w_sp w1)\<lparr>sp_server := ss'\<rparr>, w_conns := f', w_nconn := n',
        w_p_pool := pp', w_sys := s', w_os := k'\<rparr>" unfolding setup_frame_def by blast
  show ?thesis
    by (rule setup_frameI [where ss = ss' and f = f' and n = n' and pp = pp' and s = s' and k = k'])
      (use a b w1 w2 in simp_all)
qed

text \<open>One round of \<open>createServerConn\<close>.\<close>

lemma create_one:
  assumes "p_queue (w_p_pool w) = []" "i < length (sp_server (w_sp w))" "sv_conn_q (sp_server (w_sp w) ! i) = []"
    and "server_ref c i (snd (alloc_from_p SERVER w)) = Some w1" "fst (alloc_from_p SERVER w) = c"
    and "server_connect c w1 = Some (NC_OK, w')"
  shows "setup_frame w w' \<and> c = w_nconn w \<and> w_nconn w' = w_nconn w + 1 \<and> server_linked w' i c
    \<and> (\<forall>j. j \<noteq> i \<longrightarrow> sp_server (w_sp w') ! j = sp_server (w_sp w) ! j)
    \<and> sv_ns_conn_q (sp_server (w_sp w') ! i) = sv_ns_conn_q (sp_server (w_sp w) ! i) + 1"
proof -
  let ?s = "sp_server (w_sp w) ! i"
  obtain st info where r: "ncResolve (w_gai w) (Some (sv_addrstr ?s)) (uint (sv_port ?s)) (sv_info ?s) = (st, info)"
    by fastforce
  let ?w0 = "\<lambda>x. w\<lparr>w_p_pool := (w_p_pool w)\<lparr>p_current := Some (w_nconn w)\<rparr>, w_nconn := w_nconn w + 1,
     w_sp := (w_sp w)\<lparr>sp_server := (sp_server (w_sp w))[i := ?s\<lparr>sv_info := info, sv_ns_conn_q := sv_ns_conn_q ?s + 1,
       sv_conn_q := [Some (w_nconn w)]\<rparr>]\<rparr>, w_conns := (w_conns w)(w_nconn w := x)\<rparr>"
  let ?x = "\<lambda>x. x\<lparr>c_family := si_family info, c_addrlen := si_addrlen info, c_owner := Some i\<rparr>"
  have c: "c = w_nconn w" using assms(1,5) by (auto simp: alloc_from_p_def alloc_conn_def pool_alloc_def)
  have w1: "w1 = ?w0 (?x (if st = NC_OK then conn_new SERVER else (conn_new SERVER)\<lparr>c_err := EHOSTDOWN, c_done := True\<rparr>))"
    using assms(1-4) c r
    by (cases "st = NC_OK") (simp_all add: alloc_from_p_def alloc_conn_def pool_alloc_def server_ref_def upd_server_def upd_sp_def upd_conn_def
        q_push_def Let_def not_le)
  have ok: "st = NC_OK"
    using assms(6) w1 c by (auto simp: server_connect_def conn_new_def conn_reset_def connbase_reset_def split: if_split_asm)
  from server_connect_frame [OF assms(6)] obtain sy k x where x: "w' = w1\<lparr>w_sys := sy, w_os := k, w_conns := (w_conns w1)(c := x)\<rparr>"
    "linked_alike (w_conns w1 c) x" "os_ctl (w_os w1) = [] \<longrightarrow> os_ctl k = []" unfolding conn_frame_def by blast
  have static: "map server_static (sp_server (w_sp w')) = map server_static (sp_server (w_sp w))"
    using assms(2) by (simp add: x(1) w1 server_static_def map_update) (metis (no_types) list_update_id map_update nth_map
      server_static_def)
  have "w' = w\<lparr>w_sp := (w_sp w)\<lparr>sp_server := sp_server (w_sp w')\<rparr>, w_conns := w_conns w', w_nconn := w_nconn w + 1,
      w_p_pool := w_p_pool w', w_sys := sy, w_os := k\<rparr>"
    by (rule world.equality) (simp_all add: x(1) w1)
  then have "setup_frame w w'"
    by (rule setup_frameI) (use static x(1,3) w1 c assms(1) in simp_all)
  moreover have "server_linked w' i c"
    using x w1 ok c assms(2) by (simp add: server_linked_def linked_alike_def conn_new_def conn_reset_def connbase_reset_def)
  ultimately show ?thesis using x w1 ok c assms(2) by simp
qed

lemma server_linked_mono:
  assumes "server_linked w i c" "c < w_nconn w" "setup_frame w w'" "sp_server (w_sp w') ! i = sp_server (w_sp w) ! i"
  shows "server_linked w' i c"
  using assms setup_frameD(2) [OF assms(3,2)] by (simp add: server_linked_def)

lemma create_servers_ok:
  assumes "create_servers is w = Some (NC_OK, del, w')" "p_queue (w_p_pool w) = []" "distinct is"
    and "\<forall>i\<in>set is. i < length (sp_server (w_sp w)) \<and> sv_conn_q (sp_server (w_sp w) ! i) = []"
  shows "setup_frame w w' \<and> del = [] \<and> w_nconn w' = w_nconn w + length is
    \<and> (\<forall>k<length is. server_linked w' (is ! k) (w_nconn w + k)
        \<and> sv_ns_conn_q (sp_server (w_sp w') ! (is ! k)) = sv_ns_conn_q (sp_server (w_sp w) ! (is ! k)) + 1)
    \<and> (\<forall>j. j \<notin> set is \<longrightarrow> sp_server (w_sp w') ! j = sp_server (w_sp w) ! j)"
  using assms
proof (induction "is" w arbitrary: w' del rule: create_servers.induct)
  case (2 i "is" w)
  obtain c w0 where a: "alloc_from_p SERVER w = (c, w0)" by fastforce
  from 2(2) a obtain w1 st w2 where s: "server_ref c i w0 = Some w1" "server_connect c w1 = Some (st, w2)"
    by (auto simp: bind_eq_Some_conv)
  have st: "st = NC_OK" and rest: "create_servers is w2 = Some (NC_OK, del, w')"
    using 2(2) a s by (auto simp: server_close_def split: if_split_asm)
  have one: "setup_frame w w2 \<and> c = w_nconn w \<and> w_nconn w2 = w_nconn w + 1 \<and> server_linked w2 i c
    \<and> (\<forall>j. j \<noteq> i \<longrightarrow> sp_server (w_sp w2) ! j = sp_server (w_sp w) ! j)
    \<and> sv_ns_conn_q (sp_server (w_sp w2) ! i) = sv_ns_conn_q (sp_server (w_sp w) ! i) + 1"
    by (rule create_one [where ?w1.0 = w1]) (use 2(3,5) a s st in simp_all)
  note f = setup_frameD [OF conjunct1 [OF one]]
  have "i \<notin> set is" using 2(4) by simp
  then have same: "\<forall>j\<in>set is. sp_server (w_sp w2) ! j = sp_server (w_sp w) ! j" using one by metis
  have IH: "setup_frame w2 w' \<and> del = [] \<and> w_nconn w' = w_nconn w2 + length is
    \<and> (\<forall>k<length is. server_linked w' (is ! k) (w_nconn w2 + k)
        \<and> sv_ns_conn_q (sp_server (w_sp w') ! (is ! k)) = sv_ns_conn_q (sp_server (w_sp w2) ! (is ! k)) + 1)
    \<and> (\<forall>j. j \<notin> set is \<longrightarrow> sp_server (w_sp w') ! j = sp_server (w_sp w2) ! j)"
    by (rule 2(1) [OF refl a [symmetric] s(1,2) refl _ rest]) (use 2(4,5) same st f(3) f(5) [OF 2(3)] in auto)
  have "server_linked w' i c"
    by (rule server_linked_mono [of w2]) (use one IH \<open>i \<notin> set is\<close> in auto)
  moreover have "is ! k \<noteq> i" if "k < length is" for k using that \<open>i \<notin> set is\<close> by auto
  ultimately show ?case
    using one IH setup_frame_trans [of w w2 w'] \<open>i \<notin> set is\<close>
    by (auto simp: less_Suc_eq_0_disj nth_Cons')
qed simp

section \<open>The context\<close>

lemma createProxyConn_ok:
  assumes "createProxyConn w = Some (NC_OK, del, w')" "p_queue (w_p_pool w) = []"
  shows "w_sp w' = (w_sp w)\<lparr>sp_p_conn := Some (w_nconn w)\<rparr> \<and> (\<forall>x<w_nconn w. w_conns w' x = w_conns w x)
    \<and> c_owner (w_conns w' (w_nconn w)) = Some 0 \<and> c_kind (w_conns w' (w_nconn w)) = PROXY
    \<and> w_nconn w' = w_nconn w + 1 \<and> p_queue (w_p_pool w') = [] \<and> w_msg_pool w' = w_msg_pool w
    \<and> w_mbuf_pool w' = w_mbuf_pool w \<and> w_rb w' = w_rb w \<and> w_testi w' = w_testi w \<and> w_st w' = w_st w
    \<and> (os_ctl (w_os w) = [] \<longrightarrow> os_ctl (w_os w') = [])"
proof -
  let ?c = "w_nconn w"
  obtain c w0 where a: "alloc_from_p PROXY w = (c, w0)" by fastforce
  then have w0: "c = ?c" "w0 = w\<lparr>w_p_pool := (w_p_pool w)\<lparr>p_current := Some ?c\<rparr>, w_conns := (w_conns w)(?c := conn_new PROXY),
      w_nconn := ?c + 1\<rparr>"
    using assms(2) by (auto simp: alloc_from_p_def alloc_conn_def pool_alloc_def)
  obtain st where l: "proxy_listen c (proxy_ref c w0) = Some (st, w')" "st = NC_OK"
    using assms(1) a by (auto simp: createProxyConn_def bind_eq_Some_conv split: if_split_asm)
  from proxy_listen_frame [OF l(1)] show ?thesis
    unfolding conn_frame_def using assms(2)
    by (auto simp: w0 proxy_ref_def upd_conn_def upd_sp_def linked_alike_def conn_new_def conn_reset_def connbase_reset_def Let_def)
qed

lemma calcConnections_frame:
  assumes "calcConnections w = (st, w')"
  shows "w_sp w' = w_sp w \<and> w_nconn w' = w_nconn w \<and> w_conns w' = w_conns w \<and> w_p_pool w' = w_p_pool w
    \<and> w_msg_pool w' = w_msg_pool w \<and> w_mbuf_pool w' = w_mbuf_pool w \<and> w_rb w' = w_rb w \<and> w_testi w' = w_testi w
    \<and> w_st w' = w_st w \<and> os_ctl (w_os w') = os_ctl (w_os w)
    \<and> w_max_nsconn w' = w_max_nsconn w \<and> (st = NC_OK \<longrightarrow> w_max_ncconn w' = w_max_nfd w' - w_max_nsconn w - RESERVED_FDS)"
  using assms by (auto simp: calcConnections_def sys_def Let_def split: if_split_asm)

text \<open>The pool a configuration asks for, before its connections are made.\<close>

definition static_of :: "conf_server \<Rightarrow> bytes \<times> bytes \<times> bytes \<times> u16 \<times> u32" where
  "static_of cs = (str_text (cl_name cs), str_text (cl_name cs), str_text (cl_pname cs), word_of_int (cl_port cs),
     word_of_int (cs_weight cs))"

lemma setConf_servers:
  "map server_static (sp_server (spool_setConf jsv cp (spool_new jsp))) = map static_of (cp_server cp)"
  "i < length (cp_server cp) \<Longrightarrow> sv_conn_q (sp_server (spool_setConf jsv cp (spool_new jsp)) ! i) = []"
  "i < length (cp_server cp) \<Longrightarrow> sv_ns_conn_q (sp_server (spool_setConf jsv cp (spool_new jsp)) ! i) = sv_ns_conn_q (jsv i)"
  by (auto simp: spool_setConf_def spool_new_def server_setConf_def server_new_def server_static_def static_of_def
      intro!: nth_equalityI)

lemma context_new_fields:
  "w_sp (context_new chunk jsp jsv cp w) = spool_setConf jsv cp (spool_new jsp)"
  "p_queue (w_p_pool (context_new chunk jsp jsv cp w)) = []" "fresh_pools (context_new chunk jsp jsv cp w)"
  "w_nconn (context_new chunk jsp jsv cp w) = w_nconn w" "w_conns (context_new chunk jsp jsv cp w) = w_conns w" "w_rb (context_new chunk jsp jsv cp w) = w_rb w"
  "w_testi (context_new chunk jsp jsv cp w) = w_testi w" "w_os (context_new chunk jsp jsv cp w) = w_os w"
  "0 < chunk \<Longrightarrow> st_chunk (w_st (context_new chunk jsp jsv cp w)) = chunk"
  by (auto simp: context_new_def upd_sp_def pool_new_def fresh_pools_def uniqNextId_def ncMbufChunkSize_def Let_def
      split: prod.splits)

definition context_ready :: "conf_pool \<Rightarrow> spool \<Rightarrow> (nat \<Rightarrow> server) \<Rightarrow> world \<Rightarrow> world \<Rightarrow> bool" where
  "context_ready cp jsp jsv w w' \<longleftrightarrow>
     map server_static (sp_server (w_sp w')) = map static_of (cp_server cp)
     \<and> (\<forall>i<length (cp_server cp). server_linked w' i (w_nconn w + i)
          \<and> sv_ns_conn_q (sp_server (w_sp w') ! i) = sv_ns_conn_q (jsv i) + 1)
     \<and> w_sp w' = (spool_setConf jsv cp (spool_new jsp))\<lparr>sp_server := sp_server (w_sp w'),
           sp_p_conn := Some (w_nconn w + length (cp_server cp))\<rparr>
     \<and> c_owner (w_conns w' (w_nconn w + length (cp_server cp))) = Some 0
     \<and> c_kind (w_conns w' (w_nconn w + length (cp_server cp))) = PROXY
     \<and> w_nconn w' = w_nconn w + length (cp_server cp) + 1 \<and> fresh_pools w'
     \<and> (\<forall>x<w_nconn w. w_conns w' x = w_conns w x)
     \<and> w_rb w' = w_rb w \<and> w_testi w' = w_testi w \<and> (os_ctl (w_os w) = [] \<longrightarrow> os_ctl (w_os w') = [])"

lemma createContext_ok:
  assumes "createContext chunk jsp jsv cp w = Some (True, w')"
  shows "context_ready cp jsp jsv w w' \<and> (0 < chunk \<longrightarrow> st_chunk (w_st w') = chunk)"
proof -
  let ?w0 = "context_new chunk jsp jsv cp w"
  note f0 = context_new_fields [where chunk = chunk and jsp = jsp and jsv = jsv and cp = cp and w = w]
  obtain st w1 where c: "calcConnections ?w0 = (st, w1)" by fastforce
  note f1 = calcConnections_frame [OF c]
  obtain del w2 where s: "createServerConn w1 = Some (NC_OK, del, w2)"
    and p: "\<exists>del. createProxyConn w2 = Some (NC_OK, del, w')"
    using assms c by (auto simp: createContext_def bind_eq_Some_conv split: if_split_asm)
  let ?n = "length (cp_server cp)"
  have len: "length (sp_server (w_sp w1)) = ?n"
    using f0 f1 arg_cong [OF setConf_servers(1), where f = length] by simp
  have "setup_frame w1 w2 \<and> del = [] \<and> w_nconn w2 = w_nconn w1 + length [0..<?n]
    \<and> (\<forall>k<length [0..<?n]. server_linked w2 ([0..<?n] ! k) (w_nconn w1 + k)
        \<and> sv_ns_conn_q (sp_server (w_sp w2) ! ([0..<?n] ! k)) = sv_ns_conn_q (sp_server (w_sp w1) ! ([0..<?n] ! k)) + 1)
    \<and> (\<forall>j. j \<notin> set [0..<?n] \<longrightarrow> sp_server (w_sp w2) ! j = sp_server (w_sp w1) ! j)"
    by (rule create_servers_ok) (use s f0 f1 len setConf_servers(2) in \<open>auto simp: createServerConn_def\<close>)
  then have s2: "setup_frame w1 w2" "w_nconn w2 = w_nconn w + ?n"
    "\<And>k. k < ?n \<Longrightarrow> server_linked w2 k (w_nconn w + k)
       \<and> sv_ns_conn_q (sp_server (w_sp w2) ! k) = sv_ns_conn_q (sp_server (w_sp w1) ! k) + 1"
    using f0 f1 by simp_all
  note f2 = setup_frameD [OF s2(1)]
  have p2: "p_queue (w_p_pool w2) = []" using f2(5) f1 f0(2) by simp
  from p obtain del' where "createProxyConn w2 = Some (NC_OK, del', w')" by blast
  note f3 = createProxyConn_ok [OF this p2]
  have link: "server_linked w' i (w_nconn w + i)" if "i < ?n" for i
    using s2(2) s2(3) [of i] f3 that by (simp add: server_linked_def)
  have "w_sp w' = (spool_setConf jsv cp (spool_new jsp))\<lparr>sp_server := sp_server (w_sp w'), sp_p_conn := Some (w_nconn w + ?n)\<rparr>"
    using f3 f2(7) f1 f0(1) s2(2) by (metis (no_types, lifting) spool.update_convs(1) spool.update_convs(4) spool.select_convs(4) spool.surjective)
  moreover have "map server_static (sp_server (w_sp w')) = map static_of (cp_server cp)"
    using f3 f2(4) f1 f0(1) setConf_servers(1) by simp
  moreover have "sv_ns_conn_q (sp_server (w_sp w') ! i) = sv_ns_conn_q (jsv i) + 1" if "i < ?n" for i
    using s2(3) [OF that] f3 f1 f0(1) setConf_servers(3) [OF that] by simp
  moreover have "w_conns w' x = w_conns w x" if "x < w_nconn w" for x
    using that f3 f2(2) [of x] f1 f0 s2(2) by simp
  ultimately show ?thesis
    using link f3 f2(1,3-) f1 f0 s2(2) by (auto simp: context_ready_def fresh_pools_def)
qed

text \<open>With one server, and the members that no configuration sets as needed, requests are routed.\<close>

lemma context_routed:
  assumes "context_ready cp jsp jsv w w'" "length (cp_server cp) = 1" "default_settings cp"
    and "sp_key_hash_type jsp = 1" "sp_dist_type jsp \<noteq> kDIST_RANDOM" "sv_ns_conn_q (jsv 0) = 0"
  shows "routed (w_nconn w) (w_sp w')" "server_linked w' 0 (w_nconn w)"
proof -
  have link: "server_linked w' 0 (w_nconn w)" "sv_ns_conn_q (sp_server (w_sp w') ! 0) = 1"
    using assms by (auto simp: context_ready_def)
  have "length (sp_server (w_sp w')) = 1"
    using assms(1,2) by (auto simp: context_ready_def dest!: arg_cong [where f = length])
  then obtain sv where sv: "sp_server (w_sp w') = [sv]" by (cases "sp_server (w_sp w')") auto
  have sp: "w_sp w' = (spool_setConf jsv cp (spool_new jsp))\<lparr>sp_server := sp_server (w_sp w'),
      sp_p_conn := Some (w_nconn w + length (cp_server cp))\<rparr>"
    using assms(1) by (simp add: context_ready_def)
  have "sp_hash_tag (w_sp w') = []" "sp_key_hash_type (w_sp w') = 1" "sp_dist_type (w_sp w') \<noteq> kDIST_RANDOM"
    "sp_server_connections (w_sp w') = 1"
    using assms(3-5) by (subst sp; simp add: spool_setConf_def spool_new_def default_settings_def)+
  with link sv show "routed (w_nconn w) (w_sp w')" by (simp add: routed_def server_linked_def)
  show "server_linked w' 0 (w_nconn w)" by (rule link)
qed

section \<open>A listener that fails\<close>

lemma createProxyConn_fails:
  assumes "createProxyConn w = Some (st, del, w')" "st \<noteq> NC_OK"
  shows "set del \<inter> set (p_queue (w_p_pool w')) \<noteq> {}"
proof -
  obtain c w0 where a: "alloc_from_p PROXY w = (c, w0)" by fastforce
  with assms obtain w1 where l: "proxy_close c w1 = Some w'" "del = [c]"
    by (auto simp: createProxyConn_def bind_eq_Some_conv split: if_split_asm)
  have "c \<in> set (p_queue (w_p_pool w'))"
    using l(1) by (auto simp: proxy_close_def free_proxy_def pool_free_def upd_conn_def bind_eq_Some_conv Let_def
        split: if_split_asm prod.split_asm)
  with l(2) show ?thesis by simp
qed

text \<open>The listening connection is freed into its pool and then deleted; deleting the context
  deletes it again.\<close>

lemma createContext_listen_fails:
  assumes "calcConnections (context_new chunk jsp jsv cp w) = (NC_OK, w1)"
    and "createServerConn w1 = Some (NC_OK, del, w2)" "createProxyConn w2 = Some (st, del', w3)" "st \<noteq> NC_OK"
  shows "createContext chunk jsp jsv cp w = None"
  using createProxyConn_fails [OF assms(3,4)] assms by (auto simp: createContext_def context_delete_def)

section \<open>The loop\<close>

lemma timeout_loop_empty: "empty_tree (w_rb w) \<Longrightarrow> timeout_loop clock i w = Some w"
  by (subst timeout_loop.simps) (simp add: rb_min_def empty_tree_def)

lemma loop_one_event:
  assumes "conn_callback c (ev_events ev) w = Some (r, w')" "empty_tree (w_rb w')"
  shows "instance_loop clock (Ready [(Some c, ev)] # rs) w = Some (NC_OK, w', rs)"
  using assms by (simp add: instance_loop_def timeout_loop_empty)

text \<open>A request that timed out: its node leaves the tree and its connection is closed.\<close>

lemma timeout_expired:
  assumes "rb_min (w_rb w) = Some (Some m)" "\<not> m_error (w_msgs w m)" "\<not> m_done (w_msgs w m)"
    and "rb_key (rb_nodes (w_rb w) m) \<le> ncMsecNow (clock i)" "rb_data (rb_nodes (w_rb w) m) = Some c"
    and "rb_remove (Some m) (w_rb w) = Some t"
  shows "timeout_loop clock i w
    = Option.bind (processClose c (upd_conn c (conn_setError ETIMEDOUT) (w\<lparr>w_rb := t\<rparr>))) (timeout_loop clock (i + 1))"
  using assms by (subst timeout_loop.simps) (simp add: Let_def)

lemma timeout_later:
  assumes "rb_min (w_rb w) = Some (Some m)" "\<not> m_error (w_msgs w m)" "\<not> m_done (w_msgs w m)"
    and "ncMsecNow (clock i) < rb_key (rb_nodes (w_rb w) m)"
  shows "timeout_loop clock i w = Some w"
  using assms by (subst timeout_loop.simps) (simp add: Let_def)

section \<open>The command line\<close>

definition options_ok :: "inst \<Rightarrow> bool" where
  "options_ok i \<longleftrightarrow> 0 \<le> i_log_level i \<and> 1 \<le> uint (i_stats_port i) \<and> 0 \<le> i_stats_interval i
     \<and> MBUF_MIN_SIZE \<le> unat (i_mbuf_chunk_size i) \<and> unat (i_mbuf_chunk_size i) \<le> MBUF_MAX_SIZE"

lemma default_options_ok: "options_ok (ncSetDefaultOptions hostname i)"
  by (simp add: options_ok_def ncSetDefaultOptions_def NC_LOG_DEFAULT_def LLOG_VVVERB_def NC_STATS_PORT_def
      NC_STATS_INTERVAL_def MBUF_MIN_SIZE_def MBUF_MAX_SIZE_def MBUF_SIZE_def)

lemma uint_u16: "0 \<le> v \<Longrightarrow> v \<le> 65535 \<Longrightarrow> uint (word_of_int v :: u16) = v"
  by (simp add: uint_word_of_int_eq take_bit_int_eq_self)

lemma unat_u64: "0 \<le> v \<Longrightarrow> v < 2 ^ 64 \<Longrightarrow> unat (word_of_int v :: u64) = nat v"
  by (simp add: unat_eq_nat_uint uint_word_of_int_eq take_bit_int_eq_self)

lemma option_step_ok:
  assumes "option_step x (i, f) = Some (st, i', f')" "options_ok i"
  shows "options_ok i' \<and> (st \<noteq> NC_OK \<longrightarrow> st = NC_ERROR \<and> i' = i \<and> f' = f)"
proof (cases x)
  case (Opt_v a)
  with assms show ?thesis by (auto simp: option_step_def options_ok_def bind_eq_Some_conv split: if_split_asm)
next
  case (Opt_s a)
  with assms show ?thesis
    by (auto simp: option_step_def options_ok_def bind_eq_Some_conv ncValidPort_def uint_u16 split: if_split_asm)
next
  case (Opt_i a)
  with assms show ?thesis by (auto simp: option_step_def options_ok_def bind_eq_Some_conv split: if_split_asm)
next
  case (Opt_m a)
  with assms show ?thesis
    by (auto simp: option_step_def options_ok_def bind_eq_Some_conv unat_u64 MBUF_MIN_SIZE_def MBUF_MAX_SIZE_def
        split: if_split_asm)
qed (use assms in \<open>auto simp: option_step_def options_ok_def\<close>)

lemma ncGetOptions_ok:
  "ncGetOptions xs (i, f) = Some (st, i', f') \<Longrightarrow> options_ok i \<Longrightarrow>
   options_ok i' \<and> (st = NC_OK \<or> st = NC_ERROR)"
proof (induction xs arbitrary: i f)
  case (Cons x xs)
  then obtain s1 i1 f1 where o: "option_step x (i, f) = Some (s1, i1, f1)" by (auto simp: bind_eq_Some_conv)
  with Cons option_step_ok [OF o] show ?case by (auto split: if_split_asm)
qed simp

end
