(* ===== verification/NcPipeline.thy ===== *)
theory NcPipeline
  imports NcFlow
begin

text \<open>
  Many requests on one server connection. The abstract proxy is a pipeline: requests of any
  clients arrive, their bytes leave in the order of arrival, and each response belongs to the
  oldest request that has none. The callbacks of the connections, in whatever order the events
  come, are steps of this pipeline.
\<close>

section \<open>The abstract pipeline\<close>

text \<open>A request is its client and its bytes.\<close>

type_synonym request = "nat \<times> bytes"

record pipe =
  answers :: "(request \<times> bytes) list"
  unanswered :: "request list"
  unsent :: "(request \<times> bytes) list"
  sent :: bytes

definition requests :: "pipe \<Rightarrow> request list" where
  "requests p = map fst (answers p) @ unanswered p @ map fst (unsent p)"

definition pipe_empty :: pipe where
  "pipe_empty = \<lparr>answers = [], unanswered = [], unsent = [], sent = []\<rparr>"

inductive pipe_step :: "pipe \<Rightarrow> pipe \<Rightarrow> bool" where
  arrive: "req \<noteq> [] \<Longrightarrow> pipe_step p (p\<lparr>unsent := unsent p @ [((c, req), req)]\<rparr>)"
| send_part: "unsent p = [(q, rest)] \<Longrightarrow> n < length rest \<Longrightarrow>
    pipe_step p (p\<lparr>unsent := [(q, drop n rest)], sent := sent p @ take n rest\<rparr>)"
| send_all: "unsent p = [(q, rest)] \<Longrightarrow>
    pipe_step p (p\<lparr>unsent := [], unanswered := unanswered p @ [q], sent := sent p @ rest\<rparr>)"
| answer: "unanswered p = q # qs \<Longrightarrow> rsp \<noteq> [] \<Longrightarrow>
    pipe_step p (p\<lparr>unanswered := qs, answers := answers p @ [(q, rsp)]\<rparr>)"

text \<open>What was sent and what is left to send are the requests in the order of their arrival.\<close>

definition pipe_fifo :: "pipe \<Rightarrow> bool" where
  "pipe_fifo p \<longleftrightarrow> sent p @ concat (map snd (unsent p)) = concat (map snd (requests p))"

lemma pipe_step_fifo: "pipe_step p p' \<Longrightarrow> pipe_fifo p \<Longrightarrow> pipe_fifo p'"
  by (induction rule: pipe_step.induct) (auto simp: pipe_fifo_def requests_def)

lemma pipe_fifo: "pipe_step\<^sup>*\<^sup>* pipe_empty p \<Longrightarrow> pipe_fifo p"
proof (induction rule: rtranclp_induct)
  case base
  show ?case by (simp add: pipe_fifo_def requests_def pipe_empty_def)
qed (rule pipe_step_fifo)

section \<open>The pipeline in the world\<close>

text \<open>
  In the world a request is a message with its mbuf, and so is a response; the ghost data of a
  request are its client and bytes.
\<close>

record job =
  j_req :: request
  j_msg :: nat
  j_buf :: nat

record reply =
  r_msg :: nat
  r_buf :: nat
  r_text :: bytes

type_synonym flow = "(job \<times> reply) list \<times> job list \<times> (job \<times> bytes) list"

fun jobs :: "flow \<Rightarrow> job list" where
  "jobs (as, ws, ts) = map fst as @ ws @ map fst ts"

fun pipe_of :: "flow \<Rightarrow> bytes \<Rightarrow> pipe" where
  "pipe_of (as, ws, ts) out = \<lparr>answers = map (\<lambda>(j, r). (j_req j, r_text r)) as, unanswered = map j_req ws,
     unsent = map (\<lambda>(j, rest). (j_req j, rest)) ts, sent = out\<rparr>"

definition job_in :: "nat set \<Rightarrow> world \<Rightarrow> job \<Rightarrow> bool" where
  "job_in C w j \<longleftrightarrow> fst (j_req j) \<in> C \<and> j_msg j < w_nmsg w \<and> j_buf j < w_nmbuf w
     \<and> m_mbuf_q (w_msgs w (j_msg j)) = [j_buf j]
     \<and> rb_nodes (w_rb w) (j_msg j) = rbnode_new\<lparr>rb_data := Some (fst (j_req j))\<rparr>"

definition open_job :: "world \<Rightarrow> job \<Rightarrow> bool" where
  "open_job w j \<longleftrightarrow> m_peer (w_msgs w (j_msg j)) = None \<and> \<not> m_done (w_msgs w (j_msg j))"

definition job_left :: "world \<Rightarrow> job \<times> bytes \<Rightarrow> bool" where
  "job_left w x \<longleftrightarrow> carries (w_msgs w (j_msg (fst x))) (j_buf (fst x)) (snd x) (w_mbufs w) \<and> snd x \<noteq> []
     \<and> \<not> m_noreply (w_msgs w (j_msg (fst x)))"

definition job_done :: "world \<Rightarrow> job \<times> reply \<Rightarrow> bool" where
  "job_done w x \<longleftrightarrow> m_peer (w_msgs w (j_msg (fst x))) = Some (r_msg (snd x))
     \<and> m_peer (w_msgs w (r_msg (snd x))) = Some (j_msg (fst x))
     \<and> carries (w_msgs w (r_msg (snd x))) (r_buf (snd x)) (r_text (snd x)) (w_mbufs w) \<and> r_text (snd x) \<noteq> []
     \<and> r_msg (snd x) < w_nmsg w \<and> r_buf (snd x) < w_nmbuf w"

definition apart :: "flow \<Rightarrow> bool" where
  "apart f \<longleftrightarrow> distinct (map j_msg (jobs f) @ map (r_msg \<circ> snd) (fst f))
     \<and> distinct (map j_buf (jobs f) @ map (r_buf \<circ> snd) (fst f))"

text \<open>The connections: each client waits for its own requests, the server connection for all.\<close>

definition conns_hold :: "nat \<Rightarrow> nat set \<Rightarrow> flow \<Rightarrow> world \<Rightarrow> bool" where
  "conns_hold s C f w \<longleftrightarrow> idle_server (w_conns w s)
     \<and> c_imsg_q (w_conns w s) = map (j_msg \<circ> fst) (snd (snd f)) \<and> c_omsg_q (w_conns w s) = map j_msg (fst (snd f))
     \<and> (\<forall>c\<in>C. idle_client (w_conns w c)
          \<and> c_omsg_q (w_conns w c) = map j_msg (filter (\<lambda>j. fst (j_req j) = c) (jobs f)))"

definition calm :: "nat \<Rightarrow> world \<Rightarrow> bool" where
  "calm s w \<longleftrightarrow> routed s (w_sp w) \<and> fresh_pools w \<and> empty_tree (w_rb w) \<and> os_ctl (w_os w) = [] \<and> 0 \<le> w_testi w"

definition holds :: "nat \<Rightarrow> nat set \<Rightarrow> flow \<Rightarrow> world \<Rightarrow> bool" where
  "holds s C f w \<longleftrightarrow> calm s w \<and> conns_hold s C f w \<and> apart f \<and> (\<forall>j\<in>set (jobs f). job_in C w j)
     \<and> (\<forall>j\<in>set (fst (snd f)) \<union> fst ` set (snd (snd f)). open_job w j)
     \<and> (\<forall>x\<in>set (snd (snd f)). job_left w x) \<and> (\<forall>x\<in>set (fst f). job_done w x)"

section \<open>The callbacks are steps\<close>

text \<open>What a callback does to the descriptors: it reads \<open>rd\<close> from one and writes to another.\<close>

definition reads :: "int \<Rightarrow> bytes \<Rightarrow> world \<Rightarrow> world \<Rightarrow> bool" where
  "reads sd bs w w' \<longleftrightarrow> os_read (w_os w) sd = Data bs # os_read (w_os w') sd
     \<and> (\<forall>x. x \<noteq> sd \<longrightarrow> os_read (w_os w') x = os_read (w_os w) x)
     \<and> os_sent (w_os w') = os_sent (w_os w) \<and> os_write (w_os w') = os_write (w_os w)"

text \<open>What the handling of requests leaves alone: the statics, the free connections, the listening ones.\<close>

definition bystanders :: "world \<Rightarrow> world \<Rightarrow> bool" where
  "bystanders w w' \<longleftrightarrow> w_st w' = w_st w \<and> w_nconn w' = w_nconn w \<and> w_sys w' = w_sys w \<and> w_c_pool w' = w_c_pool w \<and> w_max_ncconn w' = w_max_ncconn w
     \<and> (\<forall>x. c_kind (w_conns w x) = PROXY \<longrightarrow> w_conns w' x = w_conns w x)"

definition same_sds :: "world \<Rightarrow> world \<Rightarrow> bool" where
  "same_sds w w' \<longleftrightarrow> (\<forall>x. c_sd (w_conns w' x) = c_sd (w_conns w x)) \<and> st_chunk (w_st w') = st_chunk (w_st w) \<and> bystanders w w'"

lemma not_proxy:
  "holds s C f w \<Longrightarrow> c_kind (w_conns w x) = PROXY \<Longrightarrow> x \<noteq> s \<and> x \<notin> C"
  by (auto simp: holds_def conns_hold_def idle_client_def idle_server_def)

lemma not_server: "holds s C f w \<Longrightarrow> c \<in> C \<Longrightarrow> c \<noteq> s"
  by (auto simp: holds_def conns_hold_def idle_client_def idle_server_def)

lemma in_job: "j \<in> set (jobs f) \<Longrightarrow> holds s C f w \<Longrightarrow> j_msg j < w_nmsg w \<and> j_buf j < w_nmbuf w \<and> fst (j_req j) \<in> C"
  by (auto simp: holds_def job_in_def)

lemma in_reply: "x \<in> set (fst f) \<Longrightarrow> holds s C f w \<Longrightarrow> r_msg (snd x) < w_nmsg w \<and> r_buf (snd x) < w_nmbuf w"
  by (auto simp: holds_def job_done_def)

text \<open>A message and an mbuf that are new touch nothing that is under way.\<close>

definition grown :: "world \<Rightarrow> world \<Rightarrow> bool" where
  "grown w w' \<longleftrightarrow> w_nmsg w \<le> w_nmsg w' \<and> w_nmbuf w \<le> w_nmbuf w' \<and> (\<forall>b<w_nmbuf w. w_mbufs w' b = w_mbufs w b)
     \<and> (\<forall>m<w_nmsg w. rb_nodes (w_rb w') m = rb_nodes (w_rb w) m)"

lemma grown_job:
  "grown w w' \<Longrightarrow> job_in C w j \<Longrightarrow> m_mbuf_q (w_msgs w' (j_msg j)) = m_mbuf_q (w_msgs w (j_msg j)) \<Longrightarrow> job_in C w' j"
  by (auto simp: grown_def job_in_def)

lemma grown_left:
  "grown w w' \<Longrightarrow> job_in C w (fst x) \<Longrightarrow> job_left w x \<Longrightarrow> w_msgs w' (j_msg (fst x)) = w_msgs w (j_msg (fst x)) \<Longrightarrow> job_left w' x"
  by (auto simp: grown_def job_in_def job_left_def carries_def)

lemma grown_done:
  "grown w w' \<Longrightarrow> job_done w x \<Longrightarrow> w_msgs w' (j_msg (fst x)) = w_msgs w (j_msg (fst x))
   \<Longrightarrow> w_msgs w' (r_msg (snd x)) = w_msgs w (r_msg (snd x)) \<Longrightarrow> job_done w' x"
  by (auto simp: grown_def job_done_def carries_def)

lemma apart_job:
  assumes "apart (as, ws, ts)" "\<forall>j\<in>set (jobs (as, ws, ts)). j_msg j < m \<and> j_buf j < b"
    and "\<forall>x\<in>set as. r_msg (snd x) < m \<and> r_buf (snd x) < b"
  shows "apart (as, ws, ts @ [(\<lparr>j_req = q, j_msg = m, j_buf = b\<rparr>, req)])"
    and "ws = j # ws' \<Longrightarrow> apart (as @ [(j, \<lparr>r_msg = m, r_buf = b, r_text = rsp\<rparr>)], ws', ts)"
  using assms by (auto simp: apart_def)

lemma apart_reply: "apart f \<Longrightarrow> j \<in> set (jobs f) \<Longrightarrow> y \<in> set (fst f) \<Longrightarrow> r_msg (snd y) \<noteq> j_msg j \<and> r_buf (snd y) \<noteq> j_buf j"
  unfolding apart_def distinct_append by (metis (no_types, lifting) comp_apply disjoint_iff image_eqI list.set_map)

lemma distinct_head: "distinct (map f xs @ f j # map f ys) \<Longrightarrow> i \<in> set (xs @ ys) \<Longrightarrow> f i \<noteq> f j"
proof -
  assume "distinct (map f xs @ f j # map f ys)" "i \<in> set (xs @ ys)"
  then have "f j \<notin> f ` set (xs @ ys)" "f i \<in> f ` set (xs @ ys)" by auto
  then show ?thesis by metis
qed

lemma apart_head:
  assumes "apart (as, j # ws, ts)" "i \<in> set (map fst as @ ws @ map fst ts)"
  shows "j_msg i \<noteq> j_msg j"
  by (rule distinct_head [OF _ assms(2)]) (use assms(1) in \<open>auto simp: apart_def\<close>)

lemma arrive_step:
  assumes h: "holds s C (as, ws, ts) w" and c: "c \<in> C"
    and arr: "os_read (w_os w) (c_sd (w_conns w c)) = Data req # rs" "req \<noteq> []"
      "length req + MBUF_HSIZE < unat (st_chunk (w_st w))" "w_testi w + 1 < 2 ^ 31"
  shows "\<exists>w'. conn_callback c EVENT_READ w = Some (NC_OK, w')
    \<and> holds s C (as, ws, ts @ [(\<lparr>j_req = (c, req), j_msg = w_nmsg w, j_buf = w_nmbuf w\<rparr>, req)]) w'
    \<and> reads (c_sd (w_conns w c)) req w w' \<and> same_sds w w' \<and> w_testi w' = w_testi w + 1"
proof -
  let ?m = "w_nmsg w" and ?b = "w_nmbuf w" let ?j = "\<lparr>j_req = (c, req), j_msg = ?m, j_buf = ?b\<rparr>"
  have calm: "calm s w" and conns: "conns_hold s C (as, ws, ts) w" using h by (simp_all add: holds_def)
  have pre: "idle_client (w_conns w c)" "idle_server (w_conns w s)" "routed s (w_sp w)"
    "p_queue (w_mbuf_pool w) = []" "p_queue (w_msg_pool w) = []" and pre': "os_ctl (w_os w) = []" and pre'': "0 \<le> w_testi w"
    using calm conns c by (auto simp: calm_def conns_hold_def fresh_pools_def)
  obtain cn sn v x k where w': "conn_callback c EVENT_READ w = Some (NC_OK,
       w\<lparr>w_msg_pool := w_msg_pool w\<lparr>p_current := Some ?m\<rparr>, w_nmsg := ?m + 1,
         w_rb := w_rb w\<lparr>rb_nodes := (rb_nodes (w_rb w))(?m := rbnode_new\<lparr>rb_data := Some c\<rparr>)\<rparr>,
         w_mbuf_pool := w_mbuf_pool w\<lparr>p_current := Some ?b\<rparr>, w_nmbuf := ?b + 1,
         w_mbufs := (w_mbufs w)(?b := v), w_msgs := (w_msgs w)(?m := x),
         w_testi := w_testi w + 1, w_conns := (w_conns w)(c := cn, s := sn), w_os := k\<rparr>)" (is "_ = Some (_, ?w)")
    and x: "carries x ?b req ((w_mbufs w)(?b := v))" "m_peer x = None" "\<not> m_noreply x" "\<not> m_done x"
    and cn: "idle_client cn" "c_sd cn = c_sd (w_conns w c)" "c_omsg_q cn = c_omsg_q (w_conns w c) @ [?m]"
    and sn: "idle_server sn" "c_sd sn = c_sd (w_conns w s)" "c_imsg_q sn = c_imsg_q (w_conns w s) @ [?m]"
      "c_omsg_q sn = c_omsg_q (w_conns w s)"
    and k: "quiet_os ((w_os w)\<lparr>os_read := (os_read (w_os w))(c_sd (w_conns w c) := rs)\<rparr>) k"
    using request_read [OF pre arr(1,2) pre' arr(3) pre'' arr(4)] by (elim exE conjE) (rule that; assumption)
  have cs: "c \<noteq> s" using not_server [OF h c] .
  have g: "grown w ?w" by (simp add: grown_def)
  have old: "w_msgs ?w (j_msg j) = w_msgs w (j_msg j)" if "j \<in> set (jobs (as, ws, ts))" for j
    using in_job [OF that h] by simp
  have oldr: "w_msgs ?w (r_msg (snd y)) = w_msgs w (r_msg (snd y))" if "y \<in> set as" for y
    using in_reply [of y "(as, ws, ts)", OF _ h] that by simp
  let ?f = "(as, ws, ts @ [(?j, req)])"
  have "holds s C ?f ?w"
    unfolding holds_def
  proof (intro conjI)
    show "calm s ?w" using calm k by (simp add: calm_def fresh_pools_def empty_tree_def quiet_os_def)
    show "conns_hold s C ?f ?w" using conns cn sn cs not_server [OF h] by (simp add: conns_hold_def)
    show "apart ?f" using apart_job(1) h in_job [OF _ h] in_reply [OF _ h] by (simp add: holds_def)
    have "job_in C ?w ?j" using x(1) c by (simp add: job_in_def carries_def)
    moreover have "job_in C ?w i" if "i \<in> set (jobs (as, ws, ts))" for i
      by (rule grown_job [OF g]) (use h that old [OF that] in \<open>auto simp: holds_def\<close>)
    ultimately show "\<forall>j\<in>set (jobs ?f). job_in C ?w j" by auto
    have "open_job ?w ?j" using x(2,4) by (simp add: open_job_def)
    moreover have "open_job ?w i" if "i \<in> set ws \<union> fst ` set ts" for i
      using h that old [of i] by (auto simp: holds_def open_job_def)
    ultimately show "\<forall>j\<in>set (fst (snd ?f)) \<union> fst ` set (snd (snd ?f)). open_job ?w j" by auto
    have "job_left ?w (?j, req)" using x(1,3) arr(2) by (simp add: job_left_def)
    moreover have "job_left ?w y" if "y \<in> set ts" for y
      by (rule grown_left [OF g, of C]) (use h that old [of "fst y"] in \<open>auto simp: holds_def\<close>)
    ultimately show "\<forall>y\<in>set (snd (snd ?f)). job_left ?w y" by auto
    have "job_done ?w y" if "y \<in> set as" for y
      by (rule grown_done [OF g]) (use h that old [of "fst y"] oldr [OF that] in \<open>auto simp: holds_def\<close>)
    then show "\<forall>y\<in>set (fst ?f). job_done ?w y" by auto
  qed
  moreover have "bystanders w ?w" using not_proxy [OF h] c by (auto simp: bystanders_def)
  ultimately show ?thesis using w' k arr(1) cn(2) sn(2) by (auto simp: reads_def same_sds_def quiet_os_def)
qed

lemma apart_moved: "apart (as, ws, [(j, bs)]) = apart (as, ws @ [j], [])"
  "apart (as, ws, [(j, bs)]) = apart (as, ws, [(j, bs')])"
  by (auto simp: apart_def)

lemma send_step:
  assumes h: "holds s C (as, ws, [(j, bs)]) w"
    and script: "\<forall>r\<in>set (os_write (w_os w) (c_sd (w_conns w s))). good_reply r"
  shows "\<exists>n w'. conn_callback s EVENT_WRITE w = Some (NC_OK, w') \<and> n \<le> length bs
    \<and> holds s C (if n = length bs then (as, ws @ [j], []) else (as, ws, [(j, drop n bs)])) w'
    \<and> os_sent (w_os w') = (os_sent (w_os w))(c_sd (w_conns w s) := os_sent (w_os w) (c_sd (w_conns w s)) @ take n bs)
    \<and> os_read (w_os w') = os_read (w_os w) \<and> (\<forall>x. x \<noteq> c_sd (w_conns w s) \<longrightarrow> os_write (w_os w') x = os_write (w_os w) x)
    \<and> same_sds w w' \<and> w_testi w' = w_testi w \<and> (os_write (w_os w) (c_sd (w_conns w s)) = [] \<longrightarrow> n = length bs)
    \<and> set (os_write (w_os w') (c_sd (w_conns w s))) \<subseteq> set (os_write (w_os w) (c_sd (w_conns w s)))"
proof -
  have calm: "calm s w" and conns: "conns_hold s C (as, ws, [(j, bs)]) w" and left: "job_left w (j, bs)"
    and ap: "apart (as, ws, [(j, bs)])" using h by (simp_all add: holds_def)
  have pre: "idle_server (w_conns w s)" "c_imsg_q (w_conns w s) = [j_msg j]" "os_ctl (w_os w) = []"
    "carries (w_msgs w (j_msg j)) (j_buf j) bs (w_mbufs w)" "bs \<noteq> []" "\<not> m_noreply (w_msgs w (j_msg j))"
    using calm conns left by (simp_all add: calm_def conns_hold_def job_left_def)
  obtain n cn x k where w': "conn_callback s EVENT_WRITE w
      = Some (NC_OK, w\<lparr>w_conns := (w_conns w)(s := cn), w_os := k, w_mbufs := (w_mbufs w)(j_buf j := x)\<rparr>)" (is "_ = Some (_, ?w)")
    and sw: "server_wrote (j_msg j) bs (w_conns w s) (w_os w) n cn k x"
    and all: "os_write (w_os w) (c_sd (w_conns w s)) = [] \<longrightarrow> n = length bs"
    using request_written [OF pre script] by blast
  let ?f = "if n = length bs then (as, ws @ [j], []) else (as, ws, [(j, drop n bs)])"
  have jobs: "set (jobs ?f) = set (jobs (as, ws, [(j, bs)]))" "fst ?f = as"
    "map j_msg (filter P (jobs ?f)) = map j_msg (filter P (jobs (as, ws, [(j, bs)])))" for P by auto
  have bufs: "r_buf (snd y) \<noteq> j_buf j" if "y \<in> set as" for y using apart_reply [OF ap, of j y] that by simp
  have "holds s C ?f ?w"
    unfolding holds_def
  proof (intro conjI)
    show "calm s ?w" using calm sw by (simp add: calm_def fresh_pools_def server_wrote_def)
    show "conns_hold s C ?f ?w"
      using conns sw not_server [OF h] unfolding conns_hold_def jobs(3) by (auto simp: server_wrote_def)
    show "apart ?f" using ap apart_moved by auto
    show "\<forall>j\<in>set (jobs ?f). job_in C ?w j" unfolding jobs(1) using h by (auto simp: holds_def job_in_def)
    show "\<forall>j\<in>set (fst (snd ?f)) \<union> fst ` set (snd (snd ?f)). open_job ?w j" using h by (auto simp: holds_def open_job_def)
    show "\<forall>y\<in>set (snd (snd ?f)). job_left ?w y"
      using left sw by (auto simp: job_left_def carries_def server_wrote_def)
    show "\<forall>y\<in>set (fst ?f). job_done ?w y"
      unfolding jobs(2) using h bufs by (auto simp: holds_def job_done_def carries_def)
  qed
  moreover have "bystanders w ?w" using not_proxy [OF h] by (auto simp: bystanders_def)
  ultimately show ?thesis using w' sw all by (intro exI [of _ n] exI [of _ ?w]) (simp add: server_wrote_def same_sds_def)
qed

lemma answer_step:
  assumes h: "holds s C (as, j # ws, ts) w"
    and arr: "os_read (w_os w) (c_sd (w_conns w s)) = Data rsp # rs" "rsp \<noteq> []"
      "length rsp + MBUF_HSIZE < unat (st_chunk (w_st w))" "w_testi w + 1 < 2 ^ 31"
  shows "\<exists>w'. conn_callback s EVENT_READ w = Some (NC_OK, w')
    \<and> holds s C (as @ [(j, \<lparr>r_msg = w_nmsg w, r_buf = w_nmbuf w, r_text = rsp\<rparr>)], ws, ts) w'
    \<and> reads (c_sd (w_conns w s)) rsp w w' \<and> same_sds w w' \<and> w_testi w' = w_testi w + 1"
proof -
  let ?m = "w_nmsg w" and ?b = "w_nmbuf w" and ?p = "j_msg j" and ?c = "fst (j_req j)"
  let ?r = "\<lparr>r_msg = ?m, r_buf = ?b, r_text = rsp\<rparr>" let ?f = "(as @ [(j, ?r)], ws, ts)"
  have calm: "calm s w" and conns: "conns_hold s C (as, j # ws, ts) w" and jin: "job_in C w j"
    and ap: "apart (as, j # ws, ts)" using h by (simp_all add: holds_def)
  have cC: "?c \<in> C" "?p < ?m" using jin by (simp_all add: job_in_def)
  have ps: "?p \<notin> set (map j_msg ws)" using ap by (auto simp: apart_def)
  have pre: "idle_server (w_conns w s)" "c_omsg_q (w_conns w s) = ?p # map j_msg ws" "?p \<notin> set (map j_msg ws)"
    "rb_data (rb_nodes (w_rb w) ?p) = Some ?c" "c_omsg_q (w_conns w ?c) \<noteq> []" "?c \<noteq> s"
    "p_queue (w_mbuf_pool w) = []" "p_queue (w_msg_pool w) = []" "?p \<noteq> ?m"
    and pre': "os_ctl (w_os w) = []" and pre'': "0 \<le> w_testi w"
    using calm conns cC jin not_server [OF h] ps by (auto simp: calm_def conns_hold_def fresh_pools_def job_in_def)
  obtain sn v x k where w': "conn_callback s EVENT_READ w = Some (NC_OK,
       w\<lparr>w_msg_pool := w_msg_pool w\<lparr>p_current := Some ?m\<rparr>, w_nmsg := ?m + 1,
         w_rb := w_rb w\<lparr>rb_nodes := (rb_nodes (w_rb w))(?m := rbnode_new)\<rparr>,
         w_mbuf_pool := w_mbuf_pool w\<lparr>p_current := Some ?b\<rparr>, w_nmbuf := ?b + 1,
         w_mbufs := (w_mbufs w)(?b := v), w_testi := w_testi w + 1,
         w_msgs := (w_msgs w)(?p := (w_msgs w ?p)\<lparr>m_done := True, m_peer := Some ?m\<rparr>, ?m := x),
         w_conns := (w_conns w)(s := sn, ?c := (w_conns w ?c)\<lparr>c_send_active := True\<rparr>), w_os := k\<rparr>)" (is "_ = Some (_, ?w)")
    and x: "carries x ?b rsp ((w_mbufs w)(?b := v))" "m_peer x = Some ?p"
    and sn: "idle_server sn" "c_sd sn = c_sd (w_conns w s)" "c_omsg_q sn = map j_msg ws" "c_imsg_q sn = c_imsg_q (w_conns w s)"
    and k: "quiet_os ((w_os w)\<lparr>os_read := (os_read (w_os w))(c_sd (w_conns w s) := rs)\<rparr>) k"
    using response_read [OF pre arr(1,2) pre' arr(3) pre'' arr(4)] by (elim exE conjE) (rule that; assumption)
  have g: "grown w ?w" by (simp add: grown_def)
  have msg: "j_msg i \<noteq> ?m" if "i \<in> set (jobs (as, j # ws, ts))" for i using in_job [OF that h] by simp
  have other: "w_msgs ?w (j_msg i) = w_msgs w (j_msg i)" if "i \<in> set (map fst as @ ws @ map fst ts)" for i
  proof -
    have "j_msg i \<noteq> ?p" using apart_head [OF ap that] .
    moreover have "j_msg i \<noteq> ?m" using msg [of i] that by auto
    ultimately show ?thesis by simp
  qed
  have oldr: "w_msgs ?w (r_msg (snd y)) = w_msgs w (r_msg (snd y))" if "y \<in> set as" for y
  proof -
    have "r_msg (snd y) \<noteq> ?p" using apart_reply [OF ap, of j y] that by simp
    then show ?thesis using in_reply [of y "(as, j # ws, ts)", OF _ h] that by simp
  qed
  have queue: "m_mbuf_q (w_msgs ?w (j_msg i)) = m_mbuf_q (w_msgs w (j_msg i))" if "i \<in> set (jobs (as, j # ws, ts))" for i
    using msg [OF that] by simp
  have "holds s C ?f ?w"
    unfolding holds_def
  proof (intro conjI)
    show "calm s ?w" using calm k by (simp add: calm_def fresh_pools_def empty_tree_def quiet_os_def)
    show "conns_hold s C ?f ?w"
      using conns sn not_server [OF h] pre(6) by (auto simp: conns_hold_def idle_client_def)
    show "apart ?f" using apart_job(2) [OF ap] in_job [OF _ h] in_reply [OF _ h] by simp
    show "\<forall>j\<in>set (jobs ?f). job_in C ?w j"
    proof
      fix i assume "i \<in> set (jobs ?f)"
      then have i: "i \<in> set (jobs (as, j # ws, ts))" by auto
      then have "job_in C w i" using h by (auto simp: holds_def)
      from grown_job [OF g this queue [OF i]] show "job_in C ?w i" .
    qed
    show "\<forall>i\<in>set (fst (snd ?f)) \<union> fst ` set (snd (snd ?f)). open_job ?w i"
    proof
      fix i assume i: "i \<in> set (fst (snd ?f)) \<union> fst ` set (snd (snd ?f))"
      then have "open_job w i" using h by (auto simp: holds_def)
      with other [of i] i show "open_job ?w i" by (auto simp: open_job_def)
    qed
    show "\<forall>y\<in>set (snd (snd ?f)). job_left ?w y"
    proof
      fix y assume "y \<in> set (snd (snd ?f))"
      then have "job_left w y" "job_in C w (fst y)" "w_msgs ?w (j_msg (fst y)) = w_msgs w (j_msg (fst y))"
        using h other [of "fst y"] by (auto simp: holds_def)
      with grown_left [OF g] show "job_left ?w y" by blast
    qed
    have "job_done ?w (j, ?r)" using x arr(2) pre(9) by (simp add: job_done_def)
    moreover have "job_done ?w y" if "y \<in> set as" for y
      by (rule grown_done [OF g]) (use h that other [of "fst y"] oldr [OF that] in \<open>auto simp: holds_def\<close>)
    ultimately show "\<forall>y\<in>set (fst ?f). job_done ?w y" by auto
  qed
  moreover have "bystanders w ?w" using not_proxy [OF h] cC by (auto simp: bystanders_def)
  ultimately show ?thesis using w' k arr(1) sn(2) by (auto simp: reads_def same_sds_def quiet_os_def)
qed

section \<open>Runs\<close>

text \<open>
  The events that can come: something that fits an mbuf arrives at a client or, while requests
  wait for an answer, at the server connection; or this is ready for the one request to be sent.
\<close>

definition incoming :: "nat \<Rightarrow> world \<Rightarrow> bool" where
  "incoming x w \<longleftrightarrow> (case os_read (w_os w) (c_sd (w_conns w x)) of
       Data bs # rs \<Rightarrow> bs \<noteq> [] \<and> length bs + MBUF_HSIZE < unat (st_chunk (w_st w)) | _ \<Rightarrow> False)
     \<and> w_testi w + 1 < 2 ^ 31"

definition ready :: "nat \<Rightarrow> nat set \<Rightarrow> nat \<Rightarrow> u32 \<Rightarrow> world \<Rightarrow> bool" where
  "ready s C x events w \<longleftrightarrow> x \<in> C \<and> events = EVENT_READ \<and> incoming x w
     \<or> x = s \<and> events = EVENT_READ \<and> c_omsg_q (w_conns w s) \<noteq> [] \<and> incoming s w
     \<or> x = s \<and> events = EVENT_WRITE \<and> length (c_imsg_q (w_conns w s)) = 1
       \<and> (\<forall>r\<in>set (os_write (w_os w) (c_sd (w_conns w s))). good_reply r)"

inductive served :: "nat \<Rightarrow> nat set \<Rightarrow> world \<Rightarrow> world \<Rightarrow> bool" for s C w where
  served_none: "served s C w w"
| served_event: "served s C w w1 \<Longrightarrow> ready s C x events w1 \<Longrightarrow> conn_callback x events w1 = Some (r, w2) \<Longrightarrow> served s C w w2"

text \<open>What went through the descriptors since the world \<open>w\<close>.\<close>

definition traffic :: "nat \<Rightarrow> nat set \<Rightarrow> pipe \<Rightarrow> world \<Rightarrow> world \<Rightarrow> bool" where
  "traffic s C p w w' \<longleftrightarrow> same_sds w w' \<and> fst ` set (requests p) \<subseteq> C
     \<and> (\<forall>c\<in>C. os_read (w_os w) (c_sd (w_conns w c))
          = map (Data \<circ> snd) (filter (\<lambda>q. fst q = c) (requests p)) @ os_read (w_os w') (c_sd (w_conns w c)))
     \<and> os_read (w_os w) (c_sd (w_conns w s)) = map (Data \<circ> snd) (answers p) @ os_read (w_os w') (c_sd (w_conns w s))
     \<and> os_sent (w_os w') = (os_sent (w_os w))(c_sd (w_conns w s) := os_sent (w_os w) (c_sd (w_conns w s)) @ sent p)
     \<and> (\<forall>x. x \<noteq> c_sd (w_conns w s) \<longrightarrow> os_write (w_os w') x = os_write (w_os w) x)"

definition pipe_rel :: "nat \<Rightarrow> nat set \<Rightarrow> world \<Rightarrow> pipe \<Rightarrow> world \<Rightarrow> bool" where
  "pipe_rel s C w p w' \<longleftrightarrow> (\<exists>f. p = pipe_of f (sent p) \<and> holds s C f w') \<and> traffic s C p w w'"

lemma pipe_relI: "p = pipe_of f (sent p) \<Longrightarrow> holds s C f w' \<Longrightarrow> traffic s C p w w' \<Longrightarrow> pipe_rel s C w p w'"
  unfolding pipe_rel_def by blast

text \<open>Every event that can come is handled without an error, and is a step of the pipeline.\<close>

lemma same_sds_trans: "same_sds w w' \<Longrightarrow> same_sds w' w'' \<Longrightarrow> same_sds w w''"
  by (auto simp: same_sds_def bystanders_def)

lemma traffic_arrive:
  assumes "traffic s C p w w1" "inj_on (\<lambda>x. c_sd (w_conns w x)) (insert s C)" "c \<in> C" "c \<noteq> s"
    and "reads (c_sd (w_conns w1 c)) req w1 w2" "same_sds w1 w2"
  shows "traffic s C (p\<lparr>unsent := unsent p @ [((c, req), req)]\<rparr>) w w2"
proof -
  have sd: "c_sd (w_conns w1 x) = c_sd (w_conns w x)" for x using assms(1) by (simp add: traffic_def same_sds_def)
  have ne: "c_sd (w_conns w x) \<noteq> c_sd (w_conns w c)" if "x \<in> insert s C" "x \<noteq> c" for x
    using inj_onD [OF assms(2)] that assms(3) by blast
  have rq: "requests (p\<lparr>unsent := unsent p @ [((c, req), req)]\<rparr>) = requests p @ [(c, req)]" by (simp add: requests_def)
  have "os_read (w_os w) (c_sd (w_conns w x)) = map (Data \<circ> snd) (filter (\<lambda>q. fst q = x) (requests p @ [(c, req)]))
      @ os_read (w_os w2) (c_sd (w_conns w x))" if "x \<in> C" for x
    using that assms(1,5) ne [of x] unfolding traffic_def reads_def sd by (cases "x = c") simp_all
  moreover have "os_read (w_os w2) (c_sd (w_conns w s)) = os_read (w_os w1) (c_sd (w_conns w s))"
    using assms(4,5) ne [of s] unfolding reads_def sd by simp
  ultimately show ?thesis
    using assms(1,3,5) same_sds_trans [OF _ assms(6)] unfolding traffic_def rq reads_def by simp
qed

lemma traffic_answer:
  assumes "traffic s C p w w1" "inj_on (\<lambda>x. c_sd (w_conns w x)) (insert s C)" "s \<notin> C" "unanswered p = q # qs"
    and "reads (c_sd (w_conns w1 s)) rsp w1 w2" "same_sds w1 w2"
  shows "traffic s C (p\<lparr>unanswered := qs, answers := answers p @ [(q, rsp)]\<rparr>) w w2"
proof -
  have sd: "c_sd (w_conns w1 x) = c_sd (w_conns w x)" for x using assms(1) by (simp add: traffic_def same_sds_def)
  have ne: "c_sd (w_conns w x) \<noteq> c_sd (w_conns w s)" if "x \<in> C" for x
    using inj_onD [OF assms(2), of x s] that assms(3) by auto
  have rq: "requests (p\<lparr>unanswered := qs, answers := answers p @ [(q, rsp)]\<rparr>) = requests p"
    using assms(4) by (simp add: requests_def)
  show ?thesis
    using assms(1,5) ne same_sds_trans [OF _ assms(6)] unfolding traffic_def rq reads_def sd by simp
qed

lemma traffic_send:
  assumes "traffic s C p w w1" "inj_on (\<lambda>x. c_sd (w_conns w x)) (insert s C)" "requests p' = requests p"
    and "answers p' = answers p" "sent p' = sent p @ bs" "same_sds w1 w2"
    and "os_sent (w_os w2) = (os_sent (w_os w1))(c_sd (w_conns w1 s) := os_sent (w_os w1) (c_sd (w_conns w1 s)) @ bs)"
    and "os_read (w_os w2) = os_read (w_os w1)"
    and "\<forall>x. x \<noteq> c_sd (w_conns w1 s) \<longrightarrow> os_write (w_os w2) x = os_write (w_os w1) x"
  shows "traffic s C p' w w2"
proof -
  have sd: "c_sd (w_conns w1 x) = c_sd (w_conns w x)" for x using assms(1) by (simp add: traffic_def same_sds_def)
  show ?thesis using assms(1,3-5,7-9) same_sds_trans [OF _ assms(6)] unfolding traffic_def sd by simp
qed

lemma incoming_data:
  assumes "incoming x w"
  obtains bs rs where "os_read (w_os w) (c_sd (w_conns w x)) = Data bs # rs" "bs \<noteq> []"
    "length bs + MBUF_HSIZE < unat (st_chunk (w_st w))" "w_testi w + 1 < 2 ^ 31"
  using assms unfolding incoming_def by (auto split: list.splits recv_reply.splits)

lemma event_is_step:
  assumes rel: "pipe_rel s C w p w1" and sds: "inj_on (\<lambda>x. c_sd (w_conns w x)) (insert s C)" and r: "ready s C x events w1"
  shows "\<exists>p' w2. conn_callback x events w1 = Some (NC_OK, w2) \<and> pipe_step p p' \<and> pipe_rel s C w p' w2"
proof -
  obtain as ws ts where p: "p = pipe_of (as, ws, ts) (sent p)" and h: "holds s C (as, ws, ts) w1"
    and tr: "traffic s C p w w1" using rel unfolding pipe_rel_def by (metis surj_pair)
  have conns: "conns_hold s C (as, ws, ts) w1" using h by (simp add: holds_def)
  have sC: "s \<notin> C" using not_server [OF h] by blast
  consider (arr) "x \<in> C" "events = EVENT_READ" "incoming x w1"
    | (ans) "x = s" "events = EVENT_READ" "c_omsg_q (w_conns w1 s) \<noteq> []" "incoming s w1"
    | (snd) "x = s" "events = EVENT_WRITE" "length (c_imsg_q (w_conns w1 s)) = 1"
        "\<forall>r\<in>set (os_write (w_os w1) (c_sd (w_conns w1 s))). good_reply r"
    using r unfolding ready_def by blast
  then show ?thesis
  proof cases
    case arr
    obtain req rs where i: "os_read (w_os w1) (c_sd (w_conns w1 x)) = Data req # rs" "req \<noteq> []"
      "length req + MBUF_HSIZE < unat (st_chunk (w_st w1))" "w_testi w1 + 1 < 2 ^ 31" using incoming_data [OF arr(3)] .
    from arrive_step [OF h arr(1) i] obtain w2 where w2: "conn_callback x EVENT_READ w1 = Some (NC_OK, w2)"
      "holds s C (as, ws, ts @ [(\<lparr>j_req = (x, req), j_msg = w_nmsg w1, j_buf = w_nmbuf w1\<rparr>, req)]) w2" (is "holds s C ?f w2")
      "reads (c_sd (w_conns w1 x)) req w1 w2" "same_sds w1 w2" by blast
    let ?p = "p\<lparr>unsent := unsent p @ [((x, req), req)]\<rparr>"
    have "?p = pipe_of ?f (sent ?p)" by (subst p) (simp, subst p, simp)
    then have "pipe_rel s C w ?p w2"
      using w2(2) traffic_arrive [OF tr sds arr(1) not_server [OF h arr(1)] w2(3,4)] unfolding pipe_rel_def by blast
    then show ?thesis using w2(1) arr(2) pipe_step.arrive [OF i(2), of p x] by blast
  next
    case ans
    obtain j ws' where ws: "ws = j # ws'" using ans(3) conns by (cases ws) (auto simp: conns_hold_def)
    obtain rsp rs where i: "os_read (w_os w1) (c_sd (w_conns w1 s)) = Data rsp # rs" "rsp \<noteq> []"
      "length rsp + MBUF_HSIZE < unat (st_chunk (w_st w1))" "w_testi w1 + 1 < 2 ^ 31" using incoming_data [OF ans(4)] .
    from answer_step [OF h [unfolded ws] i] obtain w2 where w2: "conn_callback s EVENT_READ w1 = Some (NC_OK, w2)"
      "holds s C (as @ [(j, \<lparr>r_msg = w_nmsg w1, r_buf = w_nmbuf w1, r_text = rsp\<rparr>)], ws', ts) w2" (is "holds s C ?f w2")
      "reads (c_sd (w_conns w1 s)) rsp w1 w2" "same_sds w1 w2" by blast
    let ?p = "p\<lparr>unanswered := map j_req ws', answers := answers p @ [(j_req j, rsp)]\<rparr>"
    have u: "unanswered p = j_req j # map j_req ws'" by (subst p) (simp add: ws)
    have "?p = pipe_of ?f (sent ?p)" by (subst p) (simp, subst p, simp)
    then have "pipe_rel s C w ?p w2"
      using w2(2) traffic_answer [OF tr sds sC u w2(3,4)] unfolding pipe_rel_def by blast
    then show ?thesis using w2(1) ans(1,2) pipe_step.answer [OF u i(2)] by blast
  next
    case snd
    obtain j bs where ts: "ts = [(j, bs)]" using snd(3) conns by (cases ts) (auto simp: conns_hold_def)
    from send_step [OF h [unfolded ts] snd(4)] obtain n w2 where
      w2: "conn_callback s EVENT_WRITE w1 = Some (NC_OK, w2)" "n \<le> length bs"
      "holds s C (if n = length bs then (as, ws @ [j], []) else (as, ws, [(j, drop n bs)])) w2"
      "os_sent (w_os w2) = (os_sent (w_os w1))(c_sd (w_conns w1 s) := os_sent (w_os w1) (c_sd (w_conns w1 s)) @ take n bs)"
      "os_read (w_os w2) = os_read (w_os w1)" "\<forall>x. x \<noteq> c_sd (w_conns w1 s) \<longrightarrow> os_write (w_os w2) x = os_write (w_os w1) x"
      "same_sds w1 w2" by blast
    have u: "unsent p = [(j_req j, bs)]" "unanswered p = map j_req ws" "answers p = map (\<lambda>(j, r). (j_req j, r_text r)) as"
      by (subst p; simp add: ts)+
    show ?thesis
    proof (cases "n = length bs")
      case True
      let ?p = "p\<lparr>unsent := [], unanswered := unanswered p @ [j_req j], sent := sent p @ bs\<rparr>"
      have "?p = pipe_of (as, ws @ [j], []) (sent ?p)" using u by simp
      moreover have "traffic s C ?p w w2"
        by (rule traffic_send [OF tr sds _ _ _ w2(7)]) (use w2(4-6) u True in \<open>simp_all add: requests_def\<close>)
      moreover have "holds s C (as, ws @ [j], []) w2" using w2(3) True by simp
      ultimately have "pipe_rel s C w ?p w2" using pipe_relI by blast
      then show ?thesis using w2(1) snd(1,2) pipe_step.send_all [OF u(1)] by blast
    next
      case False
      let ?p = "p\<lparr>unsent := [(j_req j, drop n bs)], sent := sent p @ take n bs\<rparr>"
      have "?p = pipe_of (as, ws, [(j, drop n bs)]) (sent ?p)" using u by simp
      moreover have "traffic s C ?p w w2"
        by (rule traffic_send [OF tr sds _ _ _ w2(7)]) (use w2(4-6) u in \<open>simp_all add: requests_def\<close>)
      moreover have "holds s C (as, ws, [(j, drop n bs)]) w2" using w2(3) False by simp
      ultimately have "pipe_rel s C w ?p w2" using pipe_relI by blast
      moreover have "n < length bs" using w2(2) False by simp
      ultimately show ?thesis using w2(1) snd(1,2) pipe_step.send_part [OF u(1)] by blast
    qed
  qed
qed

lemma served_is_pipe:
  assumes "served s C w w'" "pipe_rel s C w pipe_empty w" "inj_on (\<lambda>x. c_sd (w_conns w x)) (insert s C)"
  shows "\<exists>p. pipe_step\<^sup>*\<^sup>* pipe_empty p \<and> pipe_rel s C w p w'"
  using assms(1)
proof (induction rule: served.induct)
  case served_none
  with assms(2) show ?case by blast
next
  case (served_event w1 x events r w2)
  then obtain p where p: "pipe_step\<^sup>*\<^sup>* pipe_empty p" "pipe_rel s C w p w1" by blast
  from event_is_step [OF p(2) assms(3) served_event.hyps(2)] served_event.hyps(3)
  obtain p' where "pipe_step p p'" "pipe_rel s C w p' w2" by auto
  with p(1) show ?case by (meson rtranclp.rtrancl_into_rtrancl)
qed

section \<open>Delivery\<close>

definition answer_of :: "job \<times> reply \<Rightarrow> answer" where
  "answer_of x = (j_msg (fst x), r_msg (snd x), r_buf (snd x), r_text (snd x))"

lemma distinct_parts:
  "distinct (map f xs @ map g ys @ map h zs) \<Longrightarrow> distinct (map f (filter P xs) @ map h (filter R zs) @ map g (filter Q ys))"
  by (auto simp: distinct_map_filter)

lemma holds_answered:
  assumes h: "holds s C (as, ws, ts) w" and c: "c \<in> C"
  shows "answered (map answer_of (filter (\<lambda>x. fst (j_req (fst x)) = c) as))
    (map j_msg (filter (\<lambda>j. fst (j_req j) = c) (ws @ map fst ts))) c w"
    (is "answered (map answer_of ?as) (map j_msg ?qs) c w")
proof -
  have calm: "calm s w" and conns: "conns_hold s C (as, ws, ts) w" and ap: "apart (as, ws, ts)" using h by (simp_all add: holds_def)
  have d: "job_done w x" "job_in C w (fst x)" if "x \<in> set ?as" for x using h that by (auto simp: holds_def)
  have of: "map request_of (map answer_of xs) = map (j_msg \<circ> fst) xs" "map response_of (map answer_of xs) = map (r_msg \<circ> snd) xs"
    "map mbuf_of (map answer_of xs) = map (r_buf \<circ> snd) xs" for xs by (simp_all add: answer_of_def answer_defs)
  have sep: "distinct (map request_of (map answer_of ?as) @ map response_of (map answer_of ?as) @ map j_msg ?qs)"
    unfolding of by (rule distinct_parts) (use ap in \<open>simp add: apart_def\<close>)
  have bufs: "distinct (map mbuf_of (map answer_of ?as))"
    unfolding of by (rule distinct_map_filter) (use ap in \<open>simp add: apart_def\<close>)
  have "mbuf_of (answer_of x) \<notin> set (m_mbuf_q (w_msgs w (request_of (answer_of y))))" if "x \<in> set ?as" "y \<in> set ?as" for x y
    using apart_reply [OF ap, of "fst y" x] d(2) [OF that(2)] that
    by (auto simp: answer_of_def answer_defs job_in_def)
  then have sp: "separate (map answer_of ?as) (map j_msg ?qs) w" using sep bufs unfolding separate_def by force
  have q: "c_omsg_q (w_conns w c) = map request_of (map answer_of ?as) @ map j_msg ?qs" "idle_client (w_conns w c)"
    using conns c by (auto simp: conns_hold_def answer_of_def request_of_def filter_map comp_def)
  have pr: "\<forall>a\<in>set (map answer_of ?as). paired w a"
    using d by (auto simp: paired_def answer_of_def answer_defs job_done_def job_in_def carries_def rbnode_new_def)
  have ld: "\<forall>a\<in>set (map answer_of ?as). loaded w a"
    using d by (auto simp: loaded_def answer_of_def answer_defs job_done_def)
  have "m_peer (w_msgs w x) = None" if "x \<in> set (map j_msg ?qs)" for x
    using h that by (auto simp: holds_def open_job_def)
  then have "\<forall>x qs'. map j_msg ?qs = x # qs' \<longrightarrow> m_peer (w_msgs w x) = None" by (metis list.set_intros(1))
  then show ?thesis using calm q pr sp ld unfolding answered_def waiting_def calm_def by blast
qed

section \<open>The order of the answers\<close>

text \<open>A world in which nothing is under way.\<close>

definition pipe_ready :: "nat \<Rightarrow> nat set \<Rightarrow> world \<Rightarrow> bool" where
  "pipe_ready s C w \<longleftrightarrow> calm s w \<and> idle_server (w_conns w s) \<and> c_imsg_q (w_conns w s) = [] \<and> c_omsg_q (w_conns w s) = []
     \<and> (\<forall>c\<in>C. idle_client (w_conns w c) \<and> c_omsg_q (w_conns w c) = []) \<and> inj_on (\<lambda>x. c_sd (w_conns w x)) (insert s C)"

lemma pipe_ready_rel: "pipe_ready s C w \<Longrightarrow> pipe_rel s C w pipe_empty w"
  by (rule pipe_relI [where f = "([], [], [])"])
    (auto simp: pipe_ready_def pipe_empty_def holds_def conns_hold_def apart_def traffic_def requests_def same_sds_def bystanders_def)

lemma served_traffic:
  assumes "pipe_ready s C w" "served s C w w'"
  obtains p f where "pipe_fifo p" "p = pipe_of f (sent p)" "holds s C f w'" "traffic s C p w w'" "pipe_rel s C w p w'"
proof -
  have "inj_on (\<lambda>x. c_sd (w_conns w x)) (insert s C)" using assms(1) by (simp add: pipe_ready_def)
  from served_is_pipe [OF assms(2) pipe_ready_rel [OF assms(1)] this] show thesis
    using that pipe_fifo unfolding pipe_rel_def by metis
qed

lemma delivered:
  assumes "holds s C f w'" "c \<in> C" "os_write (w_os w') (c_sd (w_conns w' c)) = []" "p = pipe_of f (sent p)"
  shows "\<exists>w''. conn_callback c EVENT_WRITE w' = Some (NC_OK, w'')
    \<and> os_sent (w_os w'') (c_sd (w_conns w' c)) = os_sent (w_os w') (c_sd (w_conns w' c))
        @ concat (map snd (filter (\<lambda>x. fst (fst x) = c) (answers p)))"
proof -
  obtain as ws ts where f: "f = (as, ws, ts)" by (cases f)
  from responses_written [OF holds_answered [OF assms(1) [unfolded f] assms(2)]] assms(3)
  obtain w'' as' where w: "conn_callback c EVENT_WRITE w' = Some (NC_OK, w'')" "as' = []"
    "os_sent (w_os w'') (c_sd (w_conns w' c)) @ pending as' = os_sent (w_os w') (c_sd (w_conns w' c))
       @ pending (map answer_of (filter (\<lambda>x. fst (j_req (fst x)) = c) as))"
    by (auto simp: wrote_answers_def)
  have "answers p = map (\<lambda>(j, r). (j_req j, r_text r)) as" by (subst assms(4)) (simp add: f)
  then have "pending (map answer_of (filter (\<lambda>x. fst (j_req (fst x)) = c) as))
      = concat (map snd (filter (\<lambda>x. fst (fst x) = c) (answers p)))"
    by (simp add: pending_def answer_of_def left_of_def filter_map comp_def split_beta)
  with w show ?thesis by (simp add: pending_def)
qed

lemma pipeline_order:
  assumes "pipe_ready s C w" "served s C w w'" "c \<in> C" "os_write (w_os w) (c_sd (w_conns w c)) = []"
  shows "\<exists>qs rsps out rest w''.
     fst ` set qs \<subseteq> C \<and> length rsps \<le> length qs
     \<and> (\<forall>x\<in>C. os_read (w_os w) (c_sd (w_conns w x))
          = map (Data \<circ> snd) (filter (\<lambda>q. fst q = x) qs) @ os_read (w_os w') (c_sd (w_conns w x)))
     \<and> os_read (w_os w) (c_sd (w_conns w s)) = map Data rsps @ os_read (w_os w') (c_sd (w_conns w s))
     \<and> os_sent (w_os w') (c_sd (w_conns w s)) = os_sent (w_os w) (c_sd (w_conns w s)) @ out \<and> out @ rest = concat (map snd qs)
     \<and> conn_callback c EVENT_WRITE w' = Some (NC_OK, w'')
     \<and> os_sent (w_os w'') (c_sd (w_conns w c)) = os_sent (w_os w) (c_sd (w_conns w c))
          @ concat (map snd (filter (\<lambda>x. fst (fst x) = c) (zip qs rsps)))"
proof -
  obtain p f where p: "pipe_fifo p" "p = pipe_of f (sent p)" "holds s C f w'" "traffic s C p w w'"
    using served_traffic [OF assms(1,2)] by metis
  have sd: "c_sd (w_conns w' x) = c_sd (w_conns w x)" for x using p(4) by (simp add: traffic_def same_sds_def)
  have "c \<noteq> s" by (rule not_server [OF p(3) assms(3)])
  then have ne: "c_sd (w_conns w c) \<noteq> c_sd (w_conns w s)"
    using assms(1,3) inj_onD [of "\<lambda>x. c_sd (w_conns w x)" "insert s C" c s] by (auto simp: pipe_ready_def)
  from delivered [OF p(3) assms(3) _ p(2)] obtain w'' where w'': "conn_callback c EVENT_WRITE w' = Some (NC_OK, w'')"
    "os_sent (w_os w'') (c_sd (w_conns w c)) = os_sent (w_os w') (c_sd (w_conns w c))
        @ concat (map snd (filter (\<lambda>x. fst (fst x) = c) (answers p)))"
    using p(4) assms(4) ne unfolding sd traffic_def by auto
  have "zip (map fst (answers p) @ qs) (map snd (answers p)) = answers p" for qs by (induction "answers p") (simp_all add: zip_append1 zip_map_fst_snd)
  then have "zip (requests p) (map snd (answers p)) = answers p" by (simp add: requests_def)
  then show ?thesis
    using p(1,4) w'' ne
    by (intro exI [of _ "requests p"] exI [of _ "map snd (answers p)"] exI [of _ "sent p"] exI [of _ "concat (map snd (unsent p))"]
        exI [of _ w'']) (auto simp: traffic_def pipe_fifo_def requests_def [of p] comp_def)
qed

lemma pipeline_events:
  assumes "pipe_ready s C w" "served s C w w'" "ready s C x events w'"
  shows "\<exists>w''. conn_callback x events w' = Some (NC_OK, w'')"
proof -
  have "inj_on (\<lambda>x. c_sd (w_conns w x)) (insert s C)" using assms(1) by (simp add: pipe_ready_def)
  with served_traffic [OF assms(1,2)] event_is_step [OF _ this assms(3)] show ?thesis by metis
qed

section \<open>Runs that exist\<close>

lemma served_trans: "served s C w1 w2 \<Longrightarrow> served s C w w1 \<Longrightarrow> served s C w w2"
  by (induction rule: served.induct) (auto intro: served.intros)

lemma incomingI:
  "os_read (w_os w) (c_sd (w_conns w x)) = Data bs # rs \<Longrightarrow> bs \<noteq> [] \<Longrightarrow> length bs + MBUF_HSIZE < unat (st_chunk (w_st w))
   \<Longrightarrow> w_testi w + 1 < 2 ^ 31 \<Longrightarrow> incoming x w"
  by (simp add: incoming_def)

text \<open>A request comes and goes out; a response comes.\<close>

lemma run_request:
  assumes h: "holds s C (as, ws, []) w" and c: "c \<in> C"
    and arr: "os_read (w_os w) (c_sd (w_conns w c)) = Data req # rs" "req \<noteq> []"
      "length req + MBUF_HSIZE < unat (st_chunk (w_st w))" "w_testi w + 1 < 2 ^ 31"
    and wr: "os_write (w_os w) (c_sd (w_conns w s)) = []"
  shows "\<exists>j w'. served s C w w' \<and> holds s C (as, ws @ [j], []) w' \<and> same_sds w w' \<and> w_testi w' = w_testi w + 1
    \<and> os_read (w_os w') = (os_read (w_os w))(c_sd (w_conns w c) := rs)
    \<and> os_write (w_os w') = os_write (w_os w)"
proof -
  let ?j = "\<lparr>j_req = (c, req), j_msg = w_nmsg w, j_buf = w_nmbuf w\<rparr>"
  from arrive_step [OF h c arr] obtain w1 where w1: "conn_callback c EVENT_READ w = Some (NC_OK, w1)"
    "holds s C (as, ws, [(?j, req)]) w1" "reads (c_sd (w_conns w c)) req w w1" "same_sds w w1" "w_testi w1 = w_testi w + 1" by auto
  have sd: "c_sd (w_conns w1 x) = c_sd (w_conns w x)" for x using w1(4) by (simp add: same_sds_def)
  have wr1: "os_write (w_os w1) (c_sd (w_conns w1 s)) = []" using wr w1(3) by (simp add: sd reads_def)
  then have script: "\<forall>r\<in>set (os_write (w_os w1) (c_sd (w_conns w1 s))). good_reply r" by simp
  from send_step [OF w1(2) script] wr1 obtain w2 where w2: "conn_callback s EVENT_WRITE w1 = Some (NC_OK, w2)"
    "holds s C (as, ws @ [?j], []) w2" "os_read (w_os w2) = os_read (w_os w1)" "same_sds w1 w2" "w_testi w2 = w_testi w1"
    "\<forall>x. x \<noteq> c_sd (w_conns w1 s) \<longrightarrow> os_write (w_os w2) x = os_write (w_os w1) x" "os_write (w_os w2) (c_sd (w_conns w1 s)) = []"
    by auto
  have "os_write (w_os w2) x = os_write (w_os w1) x" for x using w2(6,7) wr1 by (cases "x = c_sd (w_conns w1 s)") auto
  then have same: "os_write (w_os w2) = os_write (w_os w)" using w1(3) by (auto simp: reads_def)
  have "served s C w w1"
    by (rule served_event [OF served_none _ w1(1)]) (use c incomingI [OF arr] in \<open>simp add: ready_def\<close>)
  moreover have "length (c_imsg_q (w_conns w1 s)) = 1" using w1(2) by (simp add: holds_def conns_hold_def)
  ultimately have "served s C w w2"
    by (elim served_event [OF _ _ w2(1)]) (use script in \<open>simp add: ready_def\<close>)
  moreover have "os_read (w_os w2) = (os_read (w_os w))(c_sd (w_conns w c) := rs)"
    using w1(3) w2(3) arr(1) by (auto simp: reads_def)
  ultimately show ?thesis
    using w1(5) w2(2,5) same same_sds_trans [OF w1(4) w2(4)] by auto
qed

lemma run_response:
  assumes h: "holds s C (as, j # ws, ts) w"
    and arr: "os_read (w_os w) (c_sd (w_conns w s)) = Data rsp # rs" "rsp \<noteq> []"
      "length rsp + MBUF_HSIZE < unat (st_chunk (w_st w))" "w_testi w + 1 < 2 ^ 31"
  shows "\<exists>r w'. served s C w w' \<and> holds s C (as @ [(j, r)], ws, ts) w' \<and> same_sds w w' \<and> w_testi w' = w_testi w + 1
    \<and> os_read (w_os w') = (os_read (w_os w))(c_sd (w_conns w s) := rs) \<and> os_write (w_os w') = os_write (w_os w)"
proof -
  from answer_step [OF h arr] obtain w' where w': "conn_callback s EVENT_READ w = Some (NC_OK, w')"
    "holds s C (as @ [(j, \<lparr>r_msg = w_nmsg w, r_buf = w_nmbuf w, r_text = rsp\<rparr>)], ws, ts) w'"
    "reads (c_sd (w_conns w s)) rsp w w'" "same_sds w w'" "w_testi w' = w_testi w + 1" by blast
  have "c_omsg_q (w_conns w s) \<noteq> []" using h by (simp add: holds_def conns_hold_def)
  then have "served s C w w'"
    by (intro served_event [OF served_none _ w'(1)]) (use incomingI [OF arr] in \<open>simp add: ready_def\<close>)
  moreover have "os_read (w_os w') = (os_read (w_os w))(c_sd (w_conns w s) := rs)"
    using w'(3) arr(1) by (auto simp: reads_def)
  ultimately show ?thesis using w'(2-5) by (auto simp: reads_def)
qed

section \<open>Two requests at once\<close>

text \<open>
  With more than one request to be sent, \<open>sendChain\<close> collects the mbufs of the first request again
  for each further message, and \<open>sendNext\<close> names the second message again and again: the array of
  \<^verbatim>\<open>iovec\<close>s fills with the first request, and the second one is taken for sent.
\<close>

lemma loaded_mbuf:
  assumes "carries x b bs f" "bs \<noteq> []"
  shows "unat (mbuf_length (f b)) = length bs" "\<not> mbuf_empty (f b)" "length bs < 2 ^ 32"
    "mbuf_range (b_pos (f b)) (b_pos (f b) + length bs) (f b) = Some bs"
proof -
  have q: "mbuf_ok (f b)" "mbuf_bytes (f b) = bs" using assms(1) by (auto simp: carries_def)
  show len: "unat (mbuf_length (f b)) = length bs" "\<not> mbuf_empty (f b)"
    using mbuf_bytes_length [OF q(1)] q(2) assms(2) mbuf_length_size [OF q(1)] mbuf_okD [OF q(1)] by (auto simp: mbuf_empty_def)
  show "length bs < 2 ^ 32" using unsigned_less [of "mbuf_length (f b)", where 'a = nat] len(1) by simp
  show "mbuf_range (b_pos (f b)) (b_pos (f b) + length bs) (f b) = Some bs"
    using q mbuf_okD [OF q(1)] mbuf_length_size(1) [OF q(1)] len by (auto simp: mbuf_range_def mbuf_bytes_def)
qed

lemma gather_one:
  assumes "carries x b bs (w_mbufs w)" "bs \<noteq> []" "nsend = length iov * length bs" "length iov < NC_IOV_MAX"
  shows "gather_mbufs w [b] iov nsend = Some (iov @ [bs], nsend + length bs) \<and> nsend + length bs \<le> SSIZE_MAX"
proof -
  note l = loaded_mbuf [OF assms(1,2)]
  have "(length iov + 1) * length bs \<le> 128 * 2 ^ 32"
    using l(3) assms(4) by (intro mult_le_mono) (simp_all add: NC_IOV_MAX_def)
  then have fit: "nsend + length bs \<le> SSIZE_MAX" "nsend < SSIZE_MAX" using assms(2,3) by (simp_all add: SSIZE_MAX_def)
  then show ?thesis using assms(4) l by (simp add: Let_def)
qed

text \<open>The connection \<open>s\<close> of \<open>w\<close> with its current message set.\<close>

abbreviation at_msg :: "nat \<Rightarrow> nat option \<Rightarrow> world \<Rightarrow> world" where
  "at_msg s x w \<equiv> w\<lparr>w_conns := (w_conns w)(s := (w_conns w s)\<lparr>c_smsg := x\<rparr>)\<rparr>"

lemma gather_repeats:
  assumes "idle_server (w_conns w s)" "c_imsg_q (w_conns w s) = m # m' # ms"
    and "carries (w_msgs w m) b bs (w_mbufs w)" "bs \<noteq> []"
    and "nsend = length iov * length bs" "length iov < NC_IOV_MAX"
  shows "\<exists>y. gather s m cmsg q iov nsend (at_msg s (Some x) w)
    = Some (q @ cmsg # replicate (NC_IOV_MAX - length iov - 1) m', iov @ replicate (NC_IOV_MAX - length iov) bs,
        NC_IOV_MAX * length bs, at_msg s (Some y) w)"
  using assms(5,6)
proof (induction "NC_IOV_MAX - length iov" arbitrary: iov nsend cmsg q x rule: less_induct)
  case less
  let ?w = "\<lambda>x. at_msg s (Some x) w"
  have g: "gather_mbufs (?w x) [b] iov nsend = Some (iov @ [bs], nsend + length bs) \<and> nsend + length bs \<le> SSIZE_MAX"
    by (rule gather_one) (use assms(3,4) less.prems in simp_all)
  have mq: "m_mbuf_q (w_msgs w m) = [b]" using assms(3) by (simp add: carries_def)
  note k = idle_serverD [OF assms(1)]
  show ?case
  proof (cases "length iov + 1 \<ge> NC_IOV_MAX")
    case True
    then have M: "NC_IOV_MAX = Suc (length iov)" using less.prems by simp
    have "NC_IOV_MAX - length iov = 1" "nsend + length bs = NC_IOV_MAX * length bs" unfolding M using less.prems by simp_all
    then show ?thesis
      by (subst gather.simps) (use g mq True in \<open>auto simp: q_push_def Let_def simp del: gather_mbufs.simps\<close>)
  next
    case False
    have nx: "conn_sendNext s (?w x) = Some (Some m', ?w m')"
      using k assms(2) by (auto simp: conn_sendNext_def server_sendNext_def getContext_def upd_conn_def Let_def)
    have "gather s m cmsg q iov nsend (?w x) = gather s m m' (q @ [cmsg]) (iov @ [bs]) (nsend + length bs) (?w m')"
      by (subst gather.simps) (use g mq nx False in \<open>simp add: q_push_def Let_def\<close>)
    moreover have "\<exists>y. gather s m m' (q @ [cmsg]) (iov @ [bs]) (nsend + length bs) (?w m')
        = Some ((q @ [cmsg]) @ m' # replicate (NC_IOV_MAX - length (iov @ [bs]) - 1) m',
            (iov @ [bs]) @ replicate (NC_IOV_MAX - length (iov @ [bs])) bs, NC_IOV_MAX * length bs, ?w y)"
      by (rule less.hyps) (use less.prems False in simp_all)
    moreover obtain i where "NC_IOV_MAX - length iov = Suc (Suc i)"
      using False by (cases "NC_IOV_MAX - length iov"; cases "NC_IOV_MAX - length iov - 1") auto
    then have "m' # replicate (NC_IOV_MAX - length (iov @ [bs]) - 1) m' = replicate (NC_IOV_MAX - length iov - 1) m'"
      "bs # replicate (NC_IOV_MAX - length (iov @ [bs])) bs = replicate (NC_IOV_MAX - length iov) bs"
      by (simp_all add: diff_Suc split: nat.splits)
    ultimately show ?thesis by simp
  qed
qed

lemma sendv_all:
  assumes "os_write k (c_sd x) = []" "data \<noteq> []" "\<forall>v\<in>set data. v \<noteq> []"
  shows "conn_sendv data x k = (int (length (concat data)),
    x\<lparr>c_send_bytes := c_send_bytes x + of_nat (length (concat data))\<rparr>,
    k\<lparr>os_write := (os_write k)(c_sd x := []), os_sent := (os_sent k)(c_sd x := os_sent k (c_sd x) @ concat data)\<rparr>)"
proof -
  have "length data \<le> length (concat data)"
    using assms(3) by (induction data) (auto simp: neq_Nil_conv)
  moreover have "0 < length data" using assms(2) by simp
  ultimately have "length (concat data) \<noteq> 0" "\<not> length (concat data) < length data" by linarith+
  then show ?thesis using assms(1) by (auto simp: conn_sendv_def conn_write_def Let_def)
qed


text \<open>The accounts after everything was taken.\<close>

definition both_done :: "nat \<Rightarrow> nat \<Rightarrow> nat \<Rightarrow> nat \<Rightarrow> nat \<Rightarrow> world \<Rightarrow> world" where
  "both_done s m m' b b' w = w\<lparr>w_mbufs := (w_mbufs w)(b := mbuf_setComplete (w_mbufs w b), b' := mbuf_setComplete (w_mbufs w b')),
     w_conns := (w_conns w)(s := (w_conns w s)\<lparr>c_imsg_q := [], c_omsg_q := c_omsg_q (w_conns w s) @ [m, m']\<rparr>)\<rparr>"

lemma account_both:
  assumes "c_kind (w_conns w s) = SERVER" "c_imsg_q (w_conns w s) = [m, m']" "m \<noteq> m'" "b \<noteq> b'"
    and "carries (w_msgs w m) b bs (w_mbufs w)" "bs \<noteq> []" "carries (w_msgs w m') b' bs' (w_mbufs w)" "bs' \<noteq> []"
    and "\<not> m_noreply (w_msgs w m)" "\<not> m_noreply (w_msgs w m')" "length bs + length bs' \<le> nsent"
  shows "account s (m # m' # replicate k m') nsent w = Some (both_done s m m' b b' w)"
proof -
  note l = loaded_mbuf [OF assms(5,6)] and l' = loaded_mbuf [OF assms(7,8)]
  have q: "m_mbuf_q (w_msgs w m) = [b]" "m_mbuf_q (w_msgs w m') = [b']" using assms(5,7) by (simp_all add: carries_def)
  have r: "q_remove m (m' # replicate k m') = m' # replicate k m'" "q_remove m' (replicate k m') = []"
    using assms(3) unfolding q_remove_def by (simp, induction k) simp_all
  let ?w1 = "w\<lparr>w_mbufs := (w_mbufs w)(b := mbuf_setComplete (w_mbufs w b)),
     w_conns := (w_conns w)(s := (w_conns w s)\<lparr>c_imsg_q := [m'], c_omsg_q := c_omsg_q (w_conns w s) @ [m]\<rparr>)\<rparr>"
  have n: "0 < nsent" "\<not> nsent < length bs" "0 < nsent - length bs" "\<not> nsent - length bs < length bs'"
  proof -
    have "0 < length bs" "0 < length bs'" using assms(6,8) by simp_all
    with assms(11) show "0 < nsent" "\<not> nsent < length bs" "0 < nsent - length bs" "\<not> nsent - length bs < length bs'" by linarith+
  qed
  have a: "advance_mbufs [b] nsent w = (True, nsent - length bs, w\<lparr>w_mbufs := (w_mbufs w)(b := mbuf_setComplete (w_mbufs w b))\<rparr>)"
    using l n by (simp add: upd_mbuf_def Let_def)
  have d: "conn_sendDone s m (w\<lparr>w_mbufs := (w_mbufs w)(b := mbuf_setComplete (w_mbufs w b))\<rparr>) = Some ?w1"
    using assms(1-3,9) by (simp add: conn_sendDone_def server_sendDone_def dequeueInput_def enqueueOutput_def upd_defs q_remove_def q_push_def)
  have a': "advance_mbufs [b'] (nsent - length bs) ?w1
      = (True, nsent - length bs - length bs', ?w1\<lparr>w_mbufs := (w_mbufs ?w1)(b' := mbuf_setComplete (w_mbufs w b'))\<rparr>)"
    using l' n assms(4) by (simp add: upd_mbuf_def Let_def)
  have d': "conn_sendDone s m' (?w1\<lparr>w_mbufs := (w_mbufs ?w1)(b' := mbuf_setComplete (w_mbufs w b'))\<rparr>) = Some (both_done s m m' b b' w)"
    using assms(1-3,10) by (simp add: conn_sendDone_def server_sendDone_def dequeueInput_def enqueueOutput_def upd_defs q_remove_def
        q_push_def both_done_def)
  have "account s (m' # replicate k m') (nsent - length bs) ?w1 = Some (both_done s m m' b b' w)"
    using n(3) q(2) a' d' by (subst account.simps(2)) (simp add: r Let_def)
  then show ?thesis
    using n(1) q(1) a d assms(3) by (subst account.simps(2)) (simp add: r Let_def del: account.simps)
qed

lemma two_requests_sent:
  assumes s: "idle_server (w_conns w s)" "c_imsg_q (w_conns w s) = [m, m']" "m \<noteq> m'" "b \<noteq> b'" "os_ctl (w_os w) = []"
    and m: "carries (w_msgs w m) b bs (w_mbufs w)" "bs \<noteq> []" "\<not> m_noreply (w_msgs w m)"
    and m': "carries (w_msgs w m') b' bs' (w_mbufs w)" "bs' \<noteq> []" "\<not> m_noreply (w_msgs w m')"
    and wr: "os_write (w_os w) (c_sd (w_conns w s)) = []" "length bs' \<le> (NC_IOV_MAX - 1) * length bs"
  shows "\<exists>w'. conn_callback s EVENT_WRITE w = Some (NC_OK, w')
    \<and> os_sent (w_os w') = (os_sent (w_os w))(c_sd (w_conns w s) := os_sent (w_os w) (c_sd (w_conns w s)) @ concat (replicate NC_IOV_MAX bs))
    \<and> c_imsg_q (w_conns w' s) = [] \<and> c_omsg_q (w_conns w' s) = c_omsg_q (w_conns w s) @ [m, m']"
proof -
  note k = idle_serverD [OF s(1)]
  let ?cn = "(w_conns w s)\<lparr>c_events := EVENT_WRITE, c_send_ready := True\<rparr>"
  let ?w = "w\<lparr>w_conns := (w_conns w)(s := ?cn)\<rparr>"
  let ?data = "replicate NC_IOV_MAX bs"
  define N where "N = NC_IOV_MAX * length bs"
  define K where "K = NC_IOV_MAX - 1"
  have cn: "idle_server ?cn" using s(1) by (simp add: idle_server_def)
  have nx: "conn_sendNext s ?w = Some (Some m, at_msg s (Some m) ?w)"
    using k s(2) by (auto simp: conn_sendNext_def server_sendNext_def getContext_def upd_conn_def Let_def)
  obtain y where g: "gather s m m [] [] 0 (at_msg s (Some m) ?w)
      = Some (m # replicate K m', ?data, N, at_msg s (Some y) ?w)"
    using gather_repeats [of ?w s m m' "[]" b bs 0 "[]" m "[]" m] cn s(2) m by (auto simp: NC_IOV_MAX_def N_def K_def)
  have M: "K = Suc (NC_IOV_MAX - 2)" "0 < NC_IOV_MAX" by (simp_all add: NC_IOV_MAX_def K_def)
  let ?c2 = "?cn\<lparr>c_smsg := None, c_send_bytes := c_send_bytes ?cn + of_nat (length (concat ?data))\<rparr>"
  let ?k2 = "(w_os w)\<lparr>os_write := (os_write (w_os w))(c_sd (w_conns w s) := []),
      os_sent := (os_sent (w_os w))(c_sd (w_conns w s) := os_sent (w_os w) (c_sd (w_conns w s)) @ concat ?data)\<rparr>"
  let ?w2 = "w\<lparr>w_conns := (w_conns w)(s := ?c2), w_os := ?k2\<rparr>"
  have len: "length (concat ?data) = N" by (simp add: length_concat sum_list_replicate N_def)
  have snd: "on_conn s (conn_sendv ?data) (upd_conn s (\<lambda>x. x\<lparr>c_smsg := None\<rparr>) (at_msg s (Some y) ?w)) = (int N, ?w2)"
    using wr(1) m(2) M(2) sendv_all [of "w_os w" "?cn\<lparr>c_smsg := None\<rparr>" ?data] len
    by (simp add: on_conn_def upd_conn_def)
  have acc: "account s (m # replicate K m') N ?w2 = Some (both_done s m m' b b' ?w2)"
    unfolding M(1) replicate_Suc
    by (rule account_both [where bs = bs and bs' = bs']) (use k s(2-4) m m' wr(2) in \<open>simp_all add: NC_IOV_MAX_def N_def\<close>)
  have pos: "0 < N" using m(2) M(2) by (simp add: N_def)
  obtain j where j: "c_owner (w_conns w s) = Some j" using k by blast
  have chain: "sendChain s m (at_msg s (Some m) ?w) = Some (NC_OK, both_done s m m' b b' ?w2)"
    using g snd acc pos j by (simp add: sendChain_def getContext_def Let_def del: account.simps)
  let ?c3 = "?c2\<lparr>c_imsg_q := [], c_omsg_q := c_omsg_q (w_conns w s) @ [m, m']\<rparr>"
  let ?w3 = "(both_done s m m' b b' ?w2)\<lparr>w_conns := (w_conns w)(s := ?c3\<lparr>c_send_active := False\<rparr>), w_os := disarm_os ?c3 ?k2\<rparr>"
  have q: "os_ctl ?k2 = []" using s(5) by simp
  have "send_loop s (both_done s m m' b b' ?w2) = Some (NC_OK, ?w3)"
    using k j s(5) by (subst send_loop.simps)
      (simp add: conn_sendNext_def server_sendNext_def getContext_def on_conn_def delOutput_quiet [OF q] both_done_def Let_def)
  then have "send_loop s ?w = Some (NC_OK, ?w3)"
    using chain nx by (subst send_loop.simps) (simp add: both_done_def)
  then have "conn_callback s EVENT_WRITE w = Some (NC_OK, ?w3)"
    using k j by (simp add: conn_callback_def getContext_def upd_conn_def event_bits processSend_def conn_sendMsg_def conn_failed_def)
  then show ?thesis using delOutput_quiet(2) [OF q, of ?c3] by (simp add: quiet_os_def)
qed

end
