(* ===== verification/NcService.thy ===== *)
theory NcService
  imports NcCoreSpec NcPipeline
begin

text \<open>
  The whole program: from the command line and the configuration file to the bytes on the
  descriptors of a client and a server.
\<close>

section \<open>A client is accepted\<close>

text \<open>One client waits at the listening connection \<open>p\<close>, and every call for it succeeds.\<close>

lemma addConn_quiet:
  assumes "os_ctl k = []"
  shows "\<exists>k'. ev_addConn events x k = (0, x\<lparr>c_send_active := True, c_recv_active := True\<rparr>, k') \<and> quiet_os k k'"
  using assms by (simp add: ev_addConn_def epoll_ctl_def quiet_os_def Let_def)

definition listening :: "nat \<Rightarrow> world \<Rightarrow> bool" where
  "listening p w \<longleftrightarrow> p < w_nconn w \<and> c_kind (w_conns w p) = PROXY \<and> c_owner (w_conns w p) = Some 0
     \<and> c_err (w_conns w p) = 0 \<and> \<not> c_done (w_conns w p)"

lemma sys_empty: "w_sys w = [] \<Longrightarrow> sys w = (0, w)"
  by (cases w) (simp add: sys_def)

text \<open>The connection of a new client is a new object, or the oldest of the pool as it is.\<close>

definition taken :: "world \<Rightarrow> nat" where
  "taken w = (case p_queue (w_c_pool w) of [] \<Rightarrow> w_nconn w | n # _ \<Rightarrow> n)"

definition taken_conn :: "int \<Rightarrow> world \<Rightarrow> conn" where
  "taken_conn sd w = (case p_queue (w_c_pool w) of [] \<Rightarrow> conn_new CLIENT | n # _ \<Rightarrow> w_conns w n)
     \<lparr>c_sd := sd, c_owner := Some 0, c_family := 0, c_addrlen := 0, c_send_active := True, c_recv_active := True\<rparr>"

definition conns_after :: "world \<Rightarrow> nat" where
  "conns_after w = (case p_queue (w_c_pool w) of [] \<Rightarrow> w_nconn w + 1 | _ \<Rightarrow> w_nconn w)"

lemmas taken_defs = taken_def taken_conn_def conns_after_def

lemma accept_client_quiet:
  assumes "w_sys w = []" "st_curc (w_st w) < w_max_ncconn w" "os_ctl (w_os w) = []"
  shows "\<exists>cp k. accept_client p sd w = Some (NC_OK,
      w\<lparr>w_conns := (w_conns w)(taken w := taken_conn sd w), w_nconn := conns_after w, w_c_pool := cp,
        w_sp := (w_sp w)\<lparr>sp_nc_conn_q := sp_nc_conn_q (w_sp w) + 1, sp_c_conn_q := q_push (taken w) (sp_c_conn_q (w_sp w))\<rparr>,
        w_os := k\<rparr>)
    \<and> quiet_os (w_os w) k"
proof -
  let ?c = "taken w"
  let ?x = "case p_queue (w_c_pool w) of [] \<Rightarrow> conn_new CLIENT | n # _ \<Rightarrow> w_conns w n"
  let ?cn = "?x\<lparr>c_sd := sd, c_owner := Some 0, c_family := 0, c_addrlen := 0\<rparr>"
  let ?cp = "snd (pool_alloc (w_nconn w) (w_c_pool w))"
  let ?sp = "(w_sp w)\<lparr>sp_nc_conn_q := sp_nc_conn_q (w_sp w) + 1, sp_c_conn_q := q_push ?c (sp_c_conn_q (w_sp w))\<rparr>"
  let ?w = "w\<lparr>w_conns := (w_conns w)(?c := ?cn), w_nconn := conns_after w, w_c_pool := ?cp, w_sp := ?sp\<rparr>"
  obtain k where k: "ev_addConn EVENT_READ ?cn (w_os w) = (0, ?cn\<lparr>c_send_active := True, c_recv_active := True\<rparr>, k)"
    "quiet_os (w_os w) k" using addConn_quiet [OF assms(3)] by fastforce
  have al: "alloc_client w = (?c, w\<lparr>w_conns := (w_conns w)(?c := ?x), w_nconn := conns_after w, w_c_pool := ?cp\<rparr>)"
    by (cases "p_queue (w_c_pool w)") (simp_all add: alloc_client_def alloc_conn_def pool_alloc_def taken_defs Let_def)
  have rf: "client_ref ?c (upd_conn ?c (conn_setSd sd) (snd (alloc_client w))) = ?w"
    unfolding al by (simp add: client_ref_def upd_conn_def upd_sp_def conn_setSd_def Let_def)
  have sys: "sys ?w = (0, ?w)" using assms(1) by (intro sys_empty) simp
  have on: "on_conn ?c (ev_addConn EVENT_READ) ?w
      = (0, ?w\<lparr>w_conns := (w_conns w)(?c := ?cn\<lparr>c_send_active := True, c_recv_active := True\<rparr>), w_os := k\<rparr>)"
    by (simp add: on_conn_def k(1))
  have "accept_client p sd w
      = Some (NC_OK, ?w\<lparr>w_conns := (w_conns w)(?c := ?cn\<lparr>c_send_active := True, c_recv_active := True\<rparr>), w_os := k\<rparr>)"
    using assms(2) [unfolded not_le [symmetric]] rf sys on by (simp add: accept_client_def al sys_nonblock_def Let_def)
  then show ?thesis
    using k(2) by (intro exI [of _ ?cp] exI [of _ k]) (simp add: taken_conn_def)
qed

lemma accept_one:
  assumes p: "listening p w" "p \<noteq> taken w" and sd: "w_sys w = [sd]" "0 \<le> sd"
    and room: "st_curc (w_st w) < w_max_ncconn w" "os_ctl (w_os w) = []"
  shows "\<exists>px cp k. conn_callback p EVENT_READ w = Some (NC_OK,
      w\<lparr>w_conns := (w_conns w)(taken w := taken_conn sd w, p := px), w_nconn := conns_after w, w_c_pool := cp,
        w_sp := (w_sp w)\<lparr>sp_nc_conn_q := sp_nc_conn_q (w_sp w) + 1, sp_c_conn_q := q_push (taken w) (sp_c_conn_q (w_sp w))\<rparr>,
        w_sys := [], w_os := k\<rparr>)
    \<and> quiet_os (w_os w) k"
proof -
  have p': "c_kind (w_conns w p) = PROXY" "c_owner (w_conns w p) = Some 0" "c_err (w_conns w p) = 0"
    "\<not> c_done (w_conns w p)" "taken w \<noteq> p" using p by (auto simp: listening_def)
  let ?px = "(w_conns w p)\<lparr>c_events := EVENT_READ, c_recv_ready := True\<rparr>"
  let ?w = "w\<lparr>w_conns := (w_conns w)(p := ?px), w_sys := []\<rparr>"
  have tk: "taken ?w = taken w" "taken_conn sd ?w = taken_conn sd w" "conns_after ?w = conns_after w"
    using p'(5) by (auto simp: taken_defs split: list.split)
  obtain cp k where a: "accept_client p sd ?w = Some (NC_OK,
      ?w\<lparr>w_conns := (w_conns w)(p := ?px, taken w := taken_conn sd w), w_nconn := conns_after w, w_c_pool := cp,
        w_sp := (w_sp w)\<lparr>sp_nc_conn_q := sp_nc_conn_q (w_sp w) + 1, sp_c_conn_q := q_push (taken w) (sp_c_conn_q (w_sp w))\<rparr>,
        w_os := k\<rparr>)" (is "_ = Some (_, ?v)")
    and k: "quiet_os (w_os w) k"
    using accept_client_quiet [of ?w p sd] room unfolding tk by auto
  let ?v' = "?v\<lparr>w_conns := (w_conns w)(p := ?px\<lparr>c_recv_ready := False\<rparr>, taken w := taken_conn sd w)\<rparr>"
  have "proxy_recv_loop p ?v = Some (NC_OK, ?v')"
    using p' by (subst proxy_recv_loop.simps)
      (simp add: proxy_accept_def getContext_def upd_conn_def fun_upd_twist)
  moreover have "proxy_accept p (w\<lparr>w_conns := (w_conns w)(p := ?px)\<rparr>) = Some (NC_OK, ?v)"
    using p' sd a by (simp add: proxy_accept_def getContext_def Let_def)
  ultimately have l: "proxy_recv_loop p (w\<lparr>w_conns := (w_conns w)(p := ?px)\<rparr>) = Some (NC_OK, ?v')"
    using p' by (subst proxy_recv_loop.simps) simp
  have "conn_callback p EVENT_READ w = Some (NC_OK, ?v')"
    using p' l by (simp add: conn_callback_def getContext_def upd_conn_def event_bits processRecv_def conn_recvMsg_def
        proxy_recvMsg_def conn_failed_def EVENT_WRITE_def)
  moreover have "?v' = w\<lparr>w_conns := (w_conns w)(taken w := taken_conn sd w, p := ?px\<lparr>c_recv_ready := False\<rparr>),
      w_nconn := conns_after w, w_c_pool := cp, w_sp := (w_sp w)\<lparr>sp_nc_conn_q := sp_nc_conn_q (w_sp w) + 1,
        sp_c_conn_q := q_push (taken w) (sp_c_conn_q (w_sp w))\<rparr>, w_sys := [], w_os := k\<rparr>"
    using p'(5) by (simp add: fun_upd_twist)
  ultimately show ?thesis using k by metis
qed

text \<open>With an empty pool the client is a new connection.\<close>

lemma taken_new:
  assumes "p_queue (w_c_pool w) = []"
  shows "taken w = w_nconn w" "conns_after w = w_nconn w + 1" "idle_client (taken_conn sd w)"
    "c_omsg_q (taken_conn sd w) = []" "c_sd (taken_conn sd w) = sd"
  using assms by (simp_all add: taken_defs idle_client_def conn_new_def conn_reset_def connbase_reset_def)

section \<open>A context that serves\<close>

text \<open>One client waits for the connection \<open>p\<close>; its descriptor will be \<open>sd\<close>, and there is room for it.\<close>

definition one_waits :: "nat \<Rightarrow> int \<Rightarrow> world \<Rightarrow> bool" where
  "one_waits p sd w \<longleftrightarrow> listening p w \<and> w_sys w = [sd] \<and> 0 \<le> sd \<and> st_curc (w_st w) < w_max_ncconn w
     \<and> p_queue (w_c_pool w) = []"

definition server_answers :: "nat \<Rightarrow> int \<Rightarrow> world \<Rightarrow> bool" where
  "server_answers s b w \<longleftrightarrow> c_err (w_conns w s) = 0 \<and> \<not> c_connecting (w_conns w s) \<and> c_sd (w_conns w s) = b"

definition offers :: "int \<Rightarrow> bytes \<Rightarrow> nat \<Rightarrow> os \<Rightarrow> bool" where
  "offers sd bs chunk k \<longleftrightarrow> (\<exists>rs. os_read k sd = Data bs # rs) \<and> bs \<noteq> [] \<and> length bs + MBUF_HSIZE < chunk \<and> os_write k sd = []"

text \<open>The memory of the new pool holds the types the program expects, since nothing sets them.\<close>

definition good_memory :: "spool \<Rightarrow> (nat \<Rightarrow> server) \<Rightarrow> bool" where
  "good_memory jsp jsv \<longleftrightarrow> sp_key_hash_type jsp = 1 \<and> sp_dist_type jsp \<noteq> kDIST_RANDOM \<and> sv_ns_conn_q (jsv 0) = 0"

definition untouched :: "world \<Rightarrow> bool" where
  "untouched w \<longleftrightarrow> empty_tree (w_rb w) \<and> os_ctl (w_os w) = [] \<and> 0 \<le> w_testi w \<and> w_testi w + 2 < 2 ^ 31"

text \<open>The events: the client comes, its request, the server can be written, its response, the client can be written.\<close>

definition first_client :: "nat \<Rightarrow> (nat option \<times> u32) list" where
  "first_client s = (Some (s + 1), EPOLLIN) # round_trip (s + 2) s"

lemma routed_queue:
  "routed s (p\<lparr>sp_nc_conn_q := n\<rparr>) = routed s p" "routed s (p\<lparr>sp_c_conn_q := q\<rparr>) = routed s p"
  by (simp_all add: routed_def split: list.split)

lemma accept_rest:
  assumes rest: "idle_server (w_conns w s)" "c_imsg_q (w_conns w s) = []" "c_omsg_q (w_conns w s) = []" "s < w_nconn w" "s \<noteq> p"
    and w: "routed s (w_sp w)" "empty_tree (w_rb w)" "os_ctl (w_os w) = []" "fresh_pools w"
    and new: "one_waits p sd w" "sd \<noteq> c_sd (w_conns w s)"
  shows "\<exists>w'. conn_callback p EVENT_READ w = Some (NC_OK, w') \<and> at_rest (w_nconn w) s w' \<and> fresh_pools w'
    \<and> c_sd (w_conns w' (w_nconn w)) = sd \<and> c_sd (w_conns w' s) = c_sd (w_conns w s) \<and> w_st w' = w_st w \<and> w_testi w' = w_testi w
    \<and> os_read (w_os w') = os_read (w_os w) \<and> os_write (w_os w') = os_write (w_os w) \<and> os_sent (w_os w') = os_sent (w_os w)"
proof -
  have p: "listening p w" "p \<noteq> w_nconn w" using new(1) by (auto simp: one_waits_def listening_def)
  have e: "p_queue (w_c_pool w) = []" using new(1) by (simp add: one_waits_def)
  note cn = taken_new [OF e]
  obtain px cp k where a: "conn_callback p EVENT_READ w = Some (NC_OK,
      w\<lparr>w_conns := (w_conns w)(w_nconn w := taken_conn sd w, p := px), w_nconn := w_nconn w + 1, w_c_pool := cp,
        w_sp := (w_sp w)\<lparr>sp_nc_conn_q := sp_nc_conn_q (w_sp w) + 1, sp_c_conn_q := q_push (w_nconn w) (sp_c_conn_q (w_sp w))\<rparr>,
        w_sys := [], w_os := k\<rparr>)" (is "_ = Some (_, ?w)")
    and k: "quiet_os (w_os w) k"
    using accept_one [OF p(1), of sd] p(2) new(1) w(3) unfolding one_waits_def cn(1,2) by blast
  have "at_rest (w_nconn w) s ?w"
    using rest w cn k new(2) p(2) by (simp add: at_rest_def routed_queue quiet_os_def)
  then show ?thesis using a cn k rest w p(2) by (auto simp: fresh_pools_def quiet_os_def)
qed

lemma context_served:
  assumes ctx: "createContext chunk jsp jsv cp w = Some (True, w1)" "length (cp_server cp) = 1" "default_settings cp"
      "good_memory jsp jsv" "untouched w" "0 < chunk"
    and conns: "server_answers (w_nconn w) sd' w1" "one_waits (w_nconn w + 1) sd w1" "sd \<noteq> sd'"
    and data: "offers sd req (unat chunk) (w_os w1)" "offers sd' rsp (unat chunk) (w_os w1)"
  shows "\<exists>w'. ev_dispatch on_event (first_client (w_nconn w)) w1 = Some w' \<and> empty_tree (w_rb w')
    \<and> os_sent (w_os w') = (os_sent (w_os w1))(sd' := os_sent (w_os w1) sd' @ req, sd := os_sent (w_os w1) sd @ rsp)"
proof -
  let ?s = "w_nconn w"
  have r: "context_ready cp jsp jsv w w1" "st_chunk (w_st w1) = chunk"
    using createContext_ok [OF ctx(1)] ctx(6) by simp_all
  have n: "w_nconn w1 = ?s + 2" using r(1) ctx(2) by (simp add: context_ready_def)
  have rt: "routed ?s (w_sp w1)" "server_linked w1 0 ?s"
    using context_routed [OF r(1) ctx(2,3)] ctx(4) by (simp_all add: good_memory_def)
  have w1: "empty_tree (w_rb w1)" "os_ctl (w_os w1) = []" "fresh_pools w1" "0 \<le> w_testi w1" "w_testi w1 + 2 < 2 ^ 31"
    using r(1) ctx(5) by (simp_all add: context_ready_def untouched_def)
  have s: "idle_server (w_conns w1 ?s)" "c_imsg_q (w_conns w1 ?s) = []" "c_omsg_q (w_conns w1 ?s) = []"
    using rt(2) conns(1) by (auto simp: server_linked_def idle_server_def server_answers_def)
  have sd: "c_sd (w_conns w1 ?s) = sd'" using conns(1) by (simp add: server_answers_def)
  obtain w2 where w2: "conn_callback (?s + 1) EVENT_READ w1 = Some (NC_OK, w2)" "at_rest (?s + 2) ?s w2" "fresh_pools w2"
    "c_sd (w_conns w2 (?s + 2)) = sd" "c_sd (w_conns w2 ?s) = sd'" "w_st w2 = w_st w1" "w_testi w2 = w_testi w1"
    "os_read (w_os w2) = os_read (w_os w1)" "os_write (w_os w2) = os_write (w_os w1)" "os_sent (w_os w2) = os_sent (w_os w1)"
    using accept_rest [OF s _ _ rt(1) w1(1-3) conns(2)] n sd conns(3) by auto
  obtain rs rs' where rd: "os_read (w_os w1) sd = Data req # rs" "os_read (w_os w1) sd' = Data rsp # rs'"
    using data by (auto simp: offers_def)
  have "\<exists>w'. ev_dispatch on_event (round_trip (?s + 2) ?s) w2 = Some w' \<and> at_rest (?s + 2) ?s w'
    \<and> os_sent (w_os w') = (os_sent (w_os w1))(sd' := os_sent (w_os w1) sd' @ req, sd := os_sent (w_os w1) sd @ rsp)"
    using transaction_served [OF w2(2,3), of req rs rsp rs'] w2(4-10) rd data w1(4,5) r(2) by (auto simp: offers_def)
  then obtain w' where "ev_dispatch on_event (round_trip (?s + 2) ?s) w2 = Some w'" "at_rest (?s + 2) ?s w'"
    "os_sent (w_os w') = (os_sent (w_os w1))(sd' := os_sent (w_os w1) sd' @ req, sd := os_sent (w_os w1) sd @ rsp)" by blast
  moreover have "on_event (?s + 1) (ev_events EPOLLIN) w1 = Some w2" using w2(1) by (simp add: on_event_def ev_events_single)
  ultimately show ?thesis by (auto simp: first_client_def at_rest_def)
qed

section \<open>The loop of the program\<close>

lemma loop_events:
  assumes "ev_dispatch on_event evs w = Some w'" "empty_tree (w_rb w')" "evs \<noteq> []"
  shows "instance_loop clock (Ready evs # rs) w = Some (NC_OK, w', rs)"
  using assms by (simp add: instance_loop_def timeout_loop_empty on_event_def [abs_def])

text \<open>The loop serves the events that come and ends with the event base.\<close>

lemma serve_events:
  assumes "ev_dispatch on_event evs w = Some w'" "empty_tree (w_rb w')" "evs \<noteq> []"
  shows "serve clocks n (Ready evs # Ready [] # rs) w = Some (w', rs)"
proof -
  have "serve clocks (n + 1) (Ready [] # rs) w' = Some (w', rs)"
    by (subst serve.simps) (simp add: instance_loop_def)
  then show ?thesis by (subst serve.simps) (simp add: loop_events [OF assms])
qed

section \<open>The start of the program\<close>

lemma read_conf_config:
  assumes "config_ok ps" "a_fopen a" "a_events a = map Some (config_events ps)" "0 \<le> a_seek a" "a_init a"
    and "pools_of (a_env a) ps [] = Some qs"
  shows "\<exists>cf. read_conf a i = Some (NC_OK, cf) \<and> cf_pool cf = qs"
  using parseProcess_config [OF assms(1,4), of "a_env a" "i_conf_filename i"] assms(2-6)
  by (simp add: read_conf_def conf_openFile_def)

lemma ncInit_config:
  assumes "config_ok ps" "a_fopen a" "a_events a = map Some (config_events ps)" "0 \<le> a_seek a" "a_init a"
    and "pools_of (a_env a) ps [] = Some qs" "\<not> s_daemonize f"
    and "i_log_filename i = [] \<or> 0 \<le> a_opens a (Some (i_log_filename i))"
  shows "\<exists>cf sg. ncInit a f i = Some (Returned NC_OK, cf, i\<lparr>i_pid := a_pid a\<rparr>, sg) \<and> cf_pool cf = qs"
proof -
  obtain cf where cf: "read_conf a i = Some (NC_OK, cf)" "cf_pool cf = qs" using read_conf_config [OF assms(1-6)] by blast
  obtain lg where "logger_init (a_opens a) (i_log_level i) (Some (i_log_filename i)) logger_new = (NC_OK, lg)"
    using assms(8) by (cases "i_log_filename i") (auto simp: logger_init_def Let_def)
  with cf assms(7) show ?thesis by (simp add: ncInit_def)
qed

lemma main_serves:
  assumes options: "ncGetOptions opts (ncSetDefaultOptions hostname (k_inst mem), flags_init) = Some (NC_OK, i, f)"
      "\<not> s_show_version f" "\<not> s_test_conf f" "\<not> s_daemonize f"
      "i_log_filename i = [] \<or> 0 \<le> a_opens a (Some (i_log_filename i))"
    and conf: "config_ok ps" "a_fopen a" "a_events a = map Some (config_events ps)" "0 \<le> a_seek a" "a_init a"
      "pools_of (a_env a) ps [] = Some [cp]"
    and ctx: "createContext (ucast (i_mbuf_chunk_size i)) (k_spool mem) (k_server mem) cp w = Some (True, w1)"
    and events: "ev_dispatch on_event evs w1 = Some w'" "empty_tree (w_rb w')" "evs \<noteq> []"
  shows "nc_main mem a hostname opts clocks (Ready evs # Ready [] # rs) w = Some (1, w')"
proof -
  obtain cf sg where "ncInit a f i = Some (Returned NC_OK, cf, i\<lparr>i_pid := a_pid a\<rparr>, sg)" "cf_pool cf = [cp]"
    using ncInit_config [OF conf options(4,5)] by blast
  then show ?thesis
    using options(1-3) ctx serve_events [OF events, of clocks 0 rs] by (simp add: nc_main_def)
qed

lemma chunk_size:
  assumes "ncGetOptions opts (ncSetDefaultOptions hostname i0, flags_init) = Some (st, i, f)"
  shows "unat (ucast (i_mbuf_chunk_size i) :: u32) = unat (i_mbuf_chunk_size i)" "0 < (ucast (i_mbuf_chunk_size i) :: u32)"
proof -
  have ok: "MBUF_MIN_SIZE \<le> unat (i_mbuf_chunk_size i)" "unat (i_mbuf_chunk_size i) \<le> MBUF_MAX_SIZE"
    using ncGetOptions_ok [OF assms default_options_ok] by (simp_all add: options_ok_def)
  then show u: "unat (ucast (i_mbuf_chunk_size i) :: u32) = unat (i_mbuf_chunk_size i)"
    by (simp add: unsigned_ucast_eq take_bit_nat_eq_self MBUF_MAX_SIZE_def)
  show "0 < (ucast (i_mbuf_chunk_size i) :: u32)"
    using ok(1) unfolding word_less_nat_alt u by (simp add: MBUF_MIN_SIZE_def)
qed

section \<open>From the command line to the bytes\<close>

lemma program_round_trip:
  assumes options: "ncGetOptions opts (ncSetDefaultOptions hostname (k_inst mem), flags_init) = Some (NC_OK, i, f)"
      "\<not> s_show_version f" "\<not> s_test_conf f" "\<not> s_daemonize f"
      "i_log_filename i = [] \<or> 0 \<le> a_opens a (Some (i_log_filename i))"
    and conf: "config_ok ps" "a_fopen a" "a_events a = map Some (config_events ps)" "0 \<le> a_seek a" "a_init a"
      "pools_of (a_env a) ps [] = Some [cp]" "length (cp_server cp) = 1"
    and ctx: "good_memory (k_spool mem) (k_server mem)" "untouched w"
      "createContext (ucast (i_mbuf_chunk_size i)) (k_spool mem) (k_server mem) cp w = Some (True, w1)"
      "server_answers (w_nconn w) sd' w1" "one_waits (w_nconn w + 1) sd w1" "sd \<noteq> sd'"
    and data: "offers sd req (unat (i_mbuf_chunk_size i)) (w_os w1)" "offers sd' rsp (unat (i_mbuf_chunk_size i)) (w_os w1)"
  shows "\<exists>w'. nc_main mem a hostname opts clocks (Ready (first_client (w_nconn w)) # Ready [] # rs) w = Some (1, w')
    \<and> os_sent (w_os w') = (os_sent (w_os w1))(sd' := os_sent (w_os w1) sd' @ req, sd := os_sent (w_os w1) sd @ rsp)"
proof -
  have "default_settings cp" using pools_of_keeps [OF conf(6)] by simp
  then obtain w' where w': "ev_dispatch on_event (first_client (w_nconn w)) w1 = Some w'" "empty_tree (w_rb w')"
    "os_sent (w_os w') = (os_sent (w_os w1))(sd' := os_sent (w_os w1) sd' @ req, sd := os_sent (w_os w1) sd @ rsp)"
    using context_served [OF ctx(3) conf(7) _ ctx(1,2) chunk_size(2) [OF options(1)] ctx(4-6)] data
      chunk_size(1) [OF options(1)] by auto
  from main_serves [OF options(1-5) conf(1-6) ctx(3) w'(1,2)] w'(3) show ?thesis
    by (auto simp: first_client_def)
qed

end
