(* ===== verification/NcRecycle.thy ===== *)
theory NcRecycle
  imports NcService
begin

text \<open>
  What becomes of a client that fails while its request is under way. The pool resets a freed
  connection with the function of the base class, so the queue of its requests stays, and the
  next client is given the same object: it gets the response to a request it did not make.
\<close>

section \<open>The client fails\<close>

definition swallowed :: "nat list \<Rightarrow> (nat \<Rightarrow> msg) \<Rightarrow> nat \<Rightarrow> msg" where
  "swallowed ms f = (\<lambda>m. if m \<in> set ms then (f m)\<lparr>m_swallow := True\<rparr> else f m)"

lemma swallowed_same [simp]:
  "m_peer (swallowed ms f m) = m_peer (f m)" "m_done (swallowed ms f m) = m_done (f m)"
  "m_mbuf_q (swallowed ms f m) = m_mbuf_q (f m)" "m_noreply (swallowed ms f m) = m_noreply (f m)"
  "m_mlen (swallowed ms f m) = m_mlen (f m)"
  by (simp_all add: swallowed_def)

lemma discard_waiting:
  "\<forall>m\<in>set ms. \<not> m_done (w_msgs w m) \<Longrightarrow> client_discard c ms w = Some (w\<lparr>w_msgs := swallowed ms (w_msgs w)\<rparr>)"
proof (induction ms arbitrary: w)
  case Nil
  show ?case by (simp add: swallowed_def)
next
  case (Cons m ms)
  let ?w = "upd_msg m (\<lambda>x. x\<lparr>m_swallow := True\<rparr>) w"
  have "\<forall>m\<in>set ms. \<not> m_done (w_msgs ?w m)" using Cons.prems by (simp add: upd_msg_def)
  moreover have "swallowed ms (w_msgs ?w) = swallowed (m # ms) (w_msgs w)"
    by (auto simp: swallowed_def upd_msg_def)
  moreover have "?w\<lparr>w_msgs := f\<rparr> = w\<lparr>w_msgs := f\<rparr>" for f by (simp add: upd_msg_def)
  ultimately show ?case using Cons.IH [of ?w] Cons.prems by simp
qed

text \<open>What \<open>free\<close> of the pool leaves of the connection.\<close>

abbreviation lost_conn :: "conn \<Rightarrow> conn" where
  "lost_conn x \<equiv> connbase_reset (x\<lparr>c_owner := None\<rparr>)"

lemma sys_step: "w_sys w = r # rs \<Longrightarrow> 0 \<le> r \<Longrightarrow> sys w = (r, w\<lparr>w_sys := rs\<rparr>)"
  by (simp add: sys_def)

lemma delConn_quiet:
  assumes "os_ctl k = []"
  shows "\<exists>k'. ev_delConn x k = (0, x\<lparr>c_recv_active := False, c_send_active := False\<rparr>, k') \<and> quiet_os k k'"
  using assms by (simp add: ev_delConn_def epoll_ctl_def quiet_os_def Let_def)

text \<open>The answers of the system: the pending error can be read, it is \<open>e\<close>, and the descriptor is closed.\<close>

lemma client_lost:
  assumes c: "idle_client (w_conns w c)" "0 \<le> c_sd (w_conns w c)" "os_ctl (w_os w) = []"
    and ms: "\<forall>m\<in>set (c_omsg_q (w_conns w c)). \<not> m_done (w_msgs w m)"
    and sys: "w_sys w = 0 # e # 0 # rs" "0 \<le> e"
  shows "\<exists>k. conn_callback c EVENT_ERR w = Some (NC_ERROR,
      w\<lparr>w_conns := (w_conns w)(c := lost_conn (w_conns w c)), w_msgs := swallowed (c_omsg_q (w_conns w c)) (w_msgs w),
        w_sp := (w_sp w)\<lparr>sp_nc_conn_q := sp_nc_conn_q (w_sp w) - 1, sp_c_conn_q := q_remove c (sp_c_conn_q (w_sp w))\<rparr>,
        w_c_pool := pool_free (Some c) (w_c_pool w), w_sys := rs, w_os := k\<rparr>)
    \<and> quiet_os ((w_os w)\<lparr>os_errno := e\<rparr>) k"
proof -
  note ic = idle_clientD [OF c(1)]
  let ?q = "c_omsg_q (w_conns w c)"
  let ?cn = "(w_conns w c)\<lparr>c_events := EVENT_ERR, c_err := e\<rparr>"
  obtain k where d: "ev_delConn ?cn ((w_os w)\<lparr>os_errno := e\<rparr>)
      = (0, ?cn\<lparr>c_recv_active := False, c_send_active := False\<rparr>, k)" "quiet_os ((w_os w)\<lparr>os_errno := e\<rparr>) k"
    using delConn_quiet [of "(w_os w)\<lparr>os_errno := e\<rparr>"] c(3) by fastforce
  let ?w = "w\<lparr>w_sys := 0 # rs, w_conns := (w_conns w)(c := ?cn\<lparr>c_recv_active := False, c_send_active := False\<rparr>),
      w_os := k\<rparr>"
  have "processError c (upd_conn c (\<lambda>x. x\<lparr>c_events := EVENT_ERR\<rparr>) w) = conn_close c ?w"
    using d(1) sys ic
    by (simp add: processError_def sys_step upd_conn_def conn_setError_def processClose_def getContext_def on_conn_def Let_def)
  moreover have "client_discard c ?q ?w = Some (?w\<lparr>w_msgs := swallowed ?q (w_msgs w)\<rparr>)"
    using discard_waiting [of ?q ?w] ms by simp
  then have "conn_close c ?w = Some (
      w\<lparr>w_conns := (w_conns w)(c := lost_conn (w_conns w c)), w_msgs := swallowed ?q (w_msgs w),
        w_sp := (w_sp w)\<lparr>sp_nc_conn_q := sp_nc_conn_q (w_sp w) - 1, sp_c_conn_q := q_remove c (sp_c_conn_q (w_sp w))\<rparr>,
        w_c_pool := pool_free (Some c) (w_c_pool w), w_sys := rs, w_os := k\<rparr>)"
    using ic c(2)
    by (simp add: conn_close_def client_close_def getContext_def client_unref_def free_client_def upd_conn_def upd_sp_def
        sys_step conn_setSd_def connbase_reset_def Let_def)
  ultimately show ?thesis
    using ic d(2) by (intro exI [of _ k]) (simp add: conn_callback_def getContext_def event_bits)
qed

section \<open>The next client\<close>

text \<open>The pool of connections was empty, so the next client is the connection that was lost.\<close>

lemma taken_lost:
  assumes "p_queue (w_c_pool w) = [c]" "w_conns w c = lost_conn x" "idle_client x"
  shows "taken w = c" "conns_after w = w_nconn w" "idle_client (taken_conn sd w)"
    "c_omsg_q (taken_conn sd w) = c_omsg_q x" "c_sd (taken_conn sd w) = sd"
  using assms by (simp_all add: taken_defs idle_client_def connbase_reset_def)

text \<open>Everything that is under way stays under way, for the new client.\<close>

definition replaced :: "nat \<Rightarrow> int \<Rightarrow> world \<Rightarrow> world \<Rightarrow> bool" where
  "replaced c sd w w' \<longleftrightarrow> c_sd (w_conns w' c) = sd \<and> (\<forall>x. x \<noteq> c \<and> c_kind (w_conns w x) \<noteq> PROXY \<longrightarrow> c_sd (w_conns w' x) = c_sd (w_conns w x))
     \<and> st_chunk (w_st w') = st_chunk (w_st w) \<and> w_testi w' = w_testi w \<and> os_read (w_os w') = os_read (w_os w)
     \<and> os_write (w_os w') = os_write (w_os w) \<and> os_sent (w_os w') = os_sent (w_os w)"

lemma client_replaced:
  assumes h: "holds s C f w" "c \<in> C" "0 \<le> c_sd (w_conns w c)"
    and ms: "fst f = []"
    and p: "listening p w" "st_curc (w_st w) < w_max_ncconn w" "p_queue (w_c_pool w) = []"
    and sys: "w_sys w = [0, e, 0, sd]" "0 \<le> e" "0 \<le> sd"
  shows "\<exists>w1 w2. conn_callback c EVENT_ERR w = Some (NC_ERROR, w1) \<and> conn_callback p EVENT_READ w1 = Some (NC_OK, w2)
    \<and> holds s C f w2 \<and> replaced c sd w w2"
proof -
  obtain ws ts where f: "f = ([], ws, ts)" using ms by (cases f) auto
  have c: "idle_client (w_conns w c)" "os_ctl (w_os w) = []"
    "c_omsg_q (w_conns w c) = map j_msg (filter (\<lambda>j. fst (j_req j) = c) (jobs f))"
    using h by (auto simp: holds_def calm_def conns_hold_def)
  have "\<forall>m\<in>set (c_omsg_q (w_conns w c)). \<not> m_done (w_msgs w m)"
    using h(1) unfolding c(3) f by (auto simp: holds_def open_job_def)
  from client_lost [OF c(1) h(3) c(2) this sys(1,2)] obtain k0 where
    w1: "conn_callback c EVENT_ERR w = Some (NC_ERROR,
      w\<lparr>w_conns := (w_conns w)(c := lost_conn (w_conns w c)), w_msgs := swallowed (c_omsg_q (w_conns w c)) (w_msgs w),
        w_sp := (w_sp w)\<lparr>sp_nc_conn_q := sp_nc_conn_q (w_sp w) - 1, sp_c_conn_q := q_remove c (sp_c_conn_q (w_sp w))\<rparr>,
        w_c_pool := pool_free (Some c) (w_c_pool w), w_sys := [sd], w_os := k0\<rparr>)"
      (is "_ = Some (_, ?w)") and k0: "quiet_os ((w_os w)\<lparr>os_errno := e\<rparr>) k0" by blast
  have pc: "p \<noteq> c" "p \<noteq> s" "p \<notin> C"
    using p(1) h by (auto simp: listening_def holds_def conns_hold_def idle_client_def idle_server_def)
  have tk: "p_queue (w_c_pool ?w) = [c]" "w_conns ?w c = lost_conn (w_conns w c)" using p(3) by (simp_all add: pool_free_def)
  note t = taken_lost [OF tk c(1)]
  have "listening p ?w" using p(1) pc(1) by (simp add: listening_def)
  moreover have "w_sys ?w = [sd]" "st_curc (w_st ?w) < w_max_ncconn ?w" "os_ctl (w_os ?w) = []" "p \<noteq> taken ?w"
    using p(2) k0 pc(1) t(1) by (simp_all add: quiet_os_def)
  ultimately obtain px cp k where w2: "conn_callback p EVENT_READ ?w = Some (NC_OK,
      ?w\<lparr>w_conns := (w_conns ?w)(c := taken_conn sd ?w, p := px), w_nconn := w_nconn ?w, w_c_pool := cp,
        w_sp := (w_sp ?w)\<lparr>sp_nc_conn_q := sp_nc_conn_q (w_sp ?w) + 1, sp_c_conn_q := q_push c (sp_c_conn_q (w_sp ?w))\<rparr>,
        w_sys := [], w_os := k\<rparr>)" (is "_ = Some (_, ?v)") and k: "quiet_os (w_os ?w) k"
    using accept_one [of p ?w sd] sys(3) unfolding t(1,2) by blast
  have cn: "idle_client (w_conns ?v c)" "c_omsg_q (w_conns ?v c) = c_omsg_q (w_conns w c)" "c_sd (w_conns ?v c) = sd"
    using t(3-5) pc(1) by simp_all
  have other: "w_conns ?v x = w_conns w x" if "x \<noteq> c" "x \<noteq> p" for x using that by simp
  have v: "w_msgs ?v = swallowed (c_omsg_q (w_conns w c)) (w_msgs w)" "w_mbufs ?v = w_mbufs w" "w_rb ?v = w_rb w"
    "w_nmsg ?v = w_nmsg w" "w_nmbuf ?v = w_nmbuf w" "w_testi ?v = w_testi w" "w_st ?v = w_st w" by simp_all
  have calm: "calm s ?v" using h(1) k k0 by (simp add: holds_def calm_def routed_queue fresh_pools_def quiet_os_def)
  have conns: "conns_hold s C f ?v"
    unfolding conns_hold_def
  proof (intro conjI ballI)
    have "s \<noteq> c" using not_server [OF h(1,2)] by simp
    then have "w_conns ?v s = w_conns w s" using other [of s] pc(2) by simp
    then show "idle_server (w_conns ?v s)" "c_imsg_q (w_conns ?v s) = map (j_msg \<circ> fst) (snd (snd f))"
      "c_omsg_q (w_conns ?v s) = map j_msg (fst (snd f))" using h(1) by (simp_all only: holds_def conns_hold_def)
    fix x assume x: "x \<in> C"
    have old: "idle_client (w_conns w x)" "c_omsg_q (w_conns w x) = map j_msg (filter (\<lambda>j. fst (j_req j) = x) (jobs f))"
      using h(1) x by (auto simp only: holds_def conns_hold_def)
    have "idle_client (w_conns ?v x) \<and> c_omsg_q (w_conns ?v x) = c_omsg_q (w_conns w x)"
    proof (cases "x = c")
      case True
      with cn(1,2) show ?thesis by (simp only:)
    next
      case False
      have "x \<noteq> p" using x pc(3) by blast
      from other [OF False this] old(1) show ?thesis by (simp only:)
    qed
    with old(2) show "idle_client (w_conns ?v x)" "c_omsg_q (w_conns ?v x) = map j_msg (filter (\<lambda>j. fst (j_req j) = x) (jobs f))"
      by (simp_all only:)
  qed
  have same: "job_in C ?v j = job_in C w j" "open_job ?v j = open_job w j" "job_left ?v x = job_left w x" "job_done ?v y = job_done w y"
    for j x y by (simp_all only: job_in_def open_job_def job_left_def job_done_def carries_def v swallowed_same)
  have "holds s C f ?v" unfolding holds_def same using calm conns h(1) [unfolded holds_def]
    by (elim conjE) (intro conjI; assumption)
  moreover have "replaced c sd w ?v" using cn(3) k k0 p(1) by (simp add: replaced_def quiet_os_def listening_def)
  ultimately show ?thesis using w1 w2 by blast
qed

section \<open>The wrong response\<close>

text \<open>
  The events: a request of the client \<open>c\<close>, the server can be written, an error at \<open>c\<close>, a new client
  at \<open>p\<close>, the response of the server, the new client can be written.
\<close>

definition lost_client :: "nat \<Rightarrow> nat \<Rightarrow> nat \<Rightarrow> (nat option \<times> u32) list" where
  "lost_client c p s = [(Some c, EPOLLIN), (Some s, EPOLLOUT), (Some c, EPOLLERR), (Some p, EPOLLIN),
     (Some s, EPOLLIN), (Some c, EPOLLOUT)]"

lemma ev_events_err: "ev_events EPOLLERR = EVENT_ERR"
  by (simp add: ev_events_def event_bits)

lemma lost_client_steps:
  assumes "conn_callback c EVENT_READ w = Some (r1, w1)" "conn_callback s EVENT_WRITE w1 = Some (r2, w2)"
    and "conn_callback c EVENT_ERR w2 = Some (r3, w3)" "conn_callback p EVENT_READ w3 = Some (r4, w4)"
    and "conn_callback s EVENT_READ w4 = Some (r5, w5)" "conn_callback c EVENT_WRITE w5 = Some (r6, w6)"
  shows "ev_dispatch on_event (lost_client c p s) w = Some w6"
  by (simp add: lost_client_def on_event_def ev_events_single ev_events_err assms)

lemma holds_rest: "at_rest c s w \<Longrightarrow> fresh_pools w \<Longrightarrow> 0 \<le> w_testi w \<Longrightarrow> holds s {c} ([], [], []) w"
  by (simp add: at_rest_def holds_def calm_def conns_hold_def apart_def)

text \<open>One response is there, its client can be written.\<close>

lemma answer_delivered:
  assumes "holds s C ([(j, r)], [], []) w" "r_text r = rsp" "os_write (w_os w) (c_sd (w_conns w (fst (j_req j)))) = []"
  shows "\<exists>w'. conn_callback (fst (j_req j)) EVENT_WRITE w = Some (NC_OK, w')
    \<and> os_sent (w_os w') = (os_sent (w_os w))(c_sd (w_conns w (fst (j_req j)))
        := os_sent (w_os w) (c_sd (w_conns w (fst (j_req j)))) @ rsp)
    \<and> c_sd (w_conns w' (fst (j_req j))) = c_sd (w_conns w (fst (j_req j)))"
proof -
  let ?c = "fst (j_req j)"
  have "?c \<in> C" using assms(1) by (simp add: holds_def job_in_def)
  from responses_written [OF holds_answered [OF assms(1) this]] assms(3)
  obtain w' where w': "conn_callback ?c EVENT_WRITE w = Some (NC_OK, w')"
    "os_sent (w_os w') (c_sd (w_conns w ?c)) = os_sent (w_os w) (c_sd (w_conns w ?c)) @ pending [answer_of (j, r)]"
    "client_frame ?c w w'"
    by (auto simp: wrote_answers_def pending_def)
  have "pending [answer_of (j, r)] = rsp" using assms(2) by (simp add: pending_def answer_of_def left_of_def)
  with w' have "os_sent (w_os w') = (os_sent (w_os w))(c_sd (w_conns w ?c) := os_sent (w_os w) (c_sd (w_conns w ?c)) @ rsp)"
    by (auto simp: client_frame_def)
  with w'(1,3) show ?thesis by (auto simp: client_frame_def)
qed

lemma wrong_response:
  assumes rest: "at_rest c s w" "fresh_pools w" "0 \<le> c_sd (w_conns w c)"
    and req: "os_read (w_os w) (c_sd (w_conns w c)) = Data req # rs" "req \<noteq> []"
      "length req + MBUF_HSIZE < unat (st_chunk (w_st w))"
    and rsp: "os_read (w_os w) (c_sd (w_conns w s)) = Data rsp # rs'" "rsp \<noteq> []"
      "length rsp + MBUF_HSIZE < unat (st_chunk (w_st w))"
    and wr: "os_write (w_os w) sd = []" "os_write (w_os w) (c_sd (w_conns w s)) = []"
    and t: "0 \<le> w_testi w" "w_testi w + 2 < 2 ^ 31"
    and p: "listening p w" "st_curc (w_st w) < w_max_ncconn w" "p_queue (w_c_pool w) = []"
    and sys: "w_sys w = [0, e, 0, sd]" "0 \<le> e" "0 \<le> sd" "sd \<noteq> c_sd (w_conns w s)"
  shows "\<exists>w'. ev_dispatch on_event (lost_client c p s) w = Some w' \<and> c_sd (w_conns w' c) = sd
    \<and> os_sent (w_os w') = (os_sent (w_os w))(c_sd (w_conns w s) := os_sent (w_os w) (c_sd (w_conns w s)) @ req,
        sd := os_sent (w_os w) sd @ rsp)"
proof -
  let ?b = "c_sd (w_conns w s)"
  have cs: "c_sd (w_conns w c) \<noteq> ?b" using rest(1) by (simp add: at_rest_def)
  have t1: "w_testi w + 1 < 2 ^ 31" using t(2) by simp
  obtain j w1 where w1: "conn_callback c EVENT_READ w = Some (NC_OK, w1)" "holds s {c} ([], [], [(j, req)]) w1"
    "reads (c_sd (w_conns w c)) req w w1" "same_sds w w1" "w_testi w1 = w_testi w + 1" "fst (j_req j) = c"
    using arrive_step [OF holds_rest [OF rest(1,2) t(1)] _ req t1] by auto
  have "c_sd (w_conns w1 s) = ?b" "os_write (w_os w1) = os_write (w_os w)" "os_sent (w_os w1) = os_sent (w_os w)"
    "os_read (w_os w1) ?b = Data rsp # rs'" using w1(3,4) cs rsp(1) by (auto simp: same_sds_def reads_def)
  note k1 = this
  have script: "\<forall>r\<in>set (os_write (w_os w1) (c_sd (w_conns w1 s))). good_reply r" "os_write (w_os w1) (c_sd (w_conns w1 s)) = []"
    using wr(2) k1 by simp_all
  obtain w2 where w2: "conn_callback s EVENT_WRITE w1 = Some (NC_OK, w2)" "holds s {c} ([], [j], []) w2"
    "os_sent (w_os w2) = (os_sent (w_os w1))(?b := os_sent (w_os w1) ?b @ req)" "os_read (w_os w2) = os_read (w_os w1)"
    "\<forall>x. x \<noteq> ?b \<longrightarrow> os_write (w_os w2) x = os_write (w_os w1) x" "same_sds w1 w2" "w_testi w2 = w_testi w1"
    using send_step [OF w1(2) script(1)] script(2) k1(1) by auto
  have s2: "same_sds w w2" using same_sds_trans [OF w1(4) w2(6)] .
  have b2: "bystanders w w2" using s2 by (simp add: same_sds_def)
  have p2: "listening p w2" "st_curc (w_st w2) < w_max_ncconn w2" "p_queue (w_c_pool w2) = []" "w_sys w2 = [0, e, 0, sd]"
    "0 \<le> c_sd (w_conns w2 c)"
    using p sys(1) rest(3) b2 s2 by (auto simp: bystanders_def listening_def same_sds_def)
  obtain w3 w4 where w4: "conn_callback c EVENT_ERR w2 = Some (NC_ERROR, w3)" "conn_callback p EVENT_READ w3 = Some (NC_OK, w4)"
    "holds s {c} ([], [j], []) w4" "replaced c sd w2 w4"
    using client_replaced [OF w2(2) _ p2(5) _ p2(1-4) sys(2,3)] by auto
  have "s \<noteq> c" "c_kind (w_conns w2 s) \<noteq> PROXY"
    using not_server [OF w2(2)] w2(2) by (auto simp: holds_def conns_hold_def idle_server_def)
  then have k4: "c_sd (w_conns w4 s) = ?b" "c_sd (w_conns w4 c) = sd" "os_read (w_os w4) ?b = Data rsp # rs'"
    "w_testi w4 + 1 < 2 ^ 31" "st_chunk (w_st w4) = st_chunk (w_st w)" "os_write (w_os w4) sd = []"
    "os_sent (w_os w4) = (os_sent (w_os w))(?b := os_sent (w_os w) ?b @ req)"
    using w4(4) s2 k1 w1(5) w2(3-5,7) t(2) wr(1) sys(4) by (simp_all add: replaced_def same_sds_def)
  obtain r w5 where w5: "conn_callback s EVENT_READ w4 = Some (NC_OK, w5)" "holds s {c} ([(j, r)], [], []) w5" "r_text r = rsp"
    "reads ?b rsp w4 w5" "same_sds w4 w5"
    using answer_step [OF w4(3)] k4(1,3-5) rsp(2,3) by fastforce
  have k5: "c_sd (w_conns w5 c) = sd" "os_write (w_os w5) sd = []" "os_sent (w_os w5) = os_sent (w_os w4)"
    using w5(4,5) k4 by (simp_all add: reads_def same_sds_def)
  obtain w6 where w6: "conn_callback c EVENT_WRITE w5 = Some (NC_OK, w6)" "c_sd (w_conns w6 c) = sd"
    "os_sent (w_os w6) = (os_sent (w_os w4))(sd := os_sent (w_os w4) sd @ rsp)"
    using answer_delivered [OF w5(2,3)] k5 w1(6) by auto
  have "ev_dispatch on_event (lost_client c p s) w = Some w6"
    by (rule lost_client_steps [OF w1(1) w2(1) w4(1,2) w5(1) w6(1)])
  then show ?thesis using w6(2,3) k4(7) sys(4) by (intro exI [of _ w6]) simp
qed

end
