(* ===== verification/NcKqueue.thy ===== *)
theory NcKqueue
  imports NcEvent
begin

text \<open>
  \<^verbatim>\<open>event/nc_kqueue.cpp\<close>, the event base over kqueue, and the contract that it shares with the
  one over epoll. Changes of interest are collected in an array and handed to the kernel by
  the next \<^verbatim>\<open>kevent\<close>; a change behind the end of the array is \<open>None\<close>. The answers of \<^verbatim>\<open>kevent\<close>
  are scripted.
\<close>

section \<open>The base\<close>

datatype kfilter = EVFILT_READ | EVFILT_WRITE

record kchange =
  kc_ident :: int
  kc_filter :: kfilter
  kc_add :: bool
  kc_udata :: nat

text \<open>A returned event: \<open>ke_error\<close> is the data of an event with the flag \<^verbatim>\<open>EV_ERROR\<close>.\<close>

record kevent =
  ke_ident :: int
  ke_filter :: "kfilter option"
  ke_error :: "int option"
  ke_udata :: "nat option"

text \<open>\<open>kq_reg\<close> is the interest the kernel knows of, with the pointer it was registered with.\<close>

record kqbase =
  kq_kq :: int
  kq_change :: "kchange list"
  kq_change_ok :: bool
  kq_event :: "kevent list"
  kq_nevent :: nat
  kq_nprocessed :: nat
  kq_reg :: "int \<Rightarrow> kfilter \<Rightarrow> nat option"

datatype kbase = KExit | KBase kqbase

text \<open>
  The constructor. The first test is on the variable \<open>event\<close>, which is not initialised yet;
  \<open>junk_null\<close> says whether it holds null. After a failed allocation it goes on when closing
  the descriptor succeeds.
\<close>

definition kqbase_new ::
  "nat \<Rightarrow> int \<Rightarrow> bool \<Rightarrow> bool \<Rightarrow> bool \<Rightarrow> bool \<Rightarrow> int \<Rightarrow> kbase option" where
  "kqbase_new nevent kq change_ok junk_null event_ok malloc_ok close_status =
     (if kq < 0 then Some KExit
      else if junk_null \<and> close_status < 0 then Some KExit
      else if \<not> event_ok \<and> close_status < 0 then Some KExit
      else if \<not> malloc_ok then (if close_status < 0 then Some KExit else None)
      else Some (KBase \<lparr>kq_kq = kq, kq_change = [], kq_change_ok = change_ok, kq_event = [],
             kq_nevent = nevent, kq_nprocessed = 0, kq_reg = (\<lambda>_ _. None)\<rparr>))"

definition kqbase_delete :: "kqbase option \<Rightarrow> int list" where
  "kqbase_delete b = (case b of None \<Rightarrow> [] | Some b \<Rightarrow> [kq_kq b])"

section \<open>Interest\<close>

definition kq_push :: "kchange \<Rightarrow> kqbase \<Rightarrow> kqbase option" where
  "kq_push ch b =
     (if \<not> kq_change_ok b \<or> length (kq_change b) \<ge> kq_nevent b then None
      else Some (b\<lparr>kq_change := kq_change b @ [ch]\<rparr>))"

definition kq_addInput :: "nat \<Rightarrow> conn \<Rightarrow> kqbase \<Rightarrow> (int \<times> conn \<times> kqbase) option" where
  "kq_addInput p c b =
     (if c_recv_active c then Some (0, c, b)
      else do {
        b \<leftarrow> kq_push \<lparr>kc_ident = c_sd c, kc_filter = EVFILT_READ, kc_add = True, kc_udata = p\<rparr> b;
        Some (0, c\<lparr>c_recv_active := True\<rparr>, b)
      })"

definition kq_delInput :: "nat \<Rightarrow> conn \<Rightarrow> kqbase \<Rightarrow> (int \<times> conn \<times> kqbase) option" where
  "kq_delInput p c b =
     (if \<not> c_recv_active c then Some (0, c, b)
      else do {
        b \<leftarrow> kq_push \<lparr>kc_ident = c_sd c, kc_filter = EVFILT_READ, kc_add = False, kc_udata = p\<rparr> b;
        Some (0, c\<lparr>c_recv_active := False\<rparr>, b)
      })"

definition kq_addOutput :: "nat \<Rightarrow> conn \<Rightarrow> kqbase \<Rightarrow> (int \<times> conn \<times> kqbase) option" where
  "kq_addOutput p c b =
     (if c_send_active c then Some (0, c, b)
      else do {
        b \<leftarrow> kq_push \<lparr>kc_ident = c_sd c, kc_filter = EVFILT_WRITE, kc_add = True, kc_udata = p\<rparr> b;
        Some (0, c\<lparr>c_send_active := True\<rparr>, b)
      })"

definition kq_delOutput :: "nat \<Rightarrow> conn \<Rightarrow> kqbase \<Rightarrow> (int \<times> conn \<times> kqbase) option" where
  "kq_delOutput p c b =
     (if \<not> c_send_active c then Some (0, c, b)
      else do {
        b \<leftarrow> kq_push \<lparr>kc_ident = c_sd c, kc_filter = EVFILT_WRITE, kc_add = False, kc_udata = p\<rparr> b;
        Some (0, c\<lparr>c_send_active := False\<rparr>, b)
      })"

definition kq_addConn :: "u32 \<Rightarrow> nat \<Rightarrow> conn \<Rightarrow> kqbase \<Rightarrow> (int \<times> conn \<times> kqbase) option" where
  "kq_addConn events p c b = do {
     (_, c, b) \<leftarrow> (if events AND EVENT_READ \<noteq> 0 then kq_addInput p c b else Some (0, c, b));
     (_, c, b) \<leftarrow> (if events AND EVENT_WRITE \<noteq> 0 then kq_addOutput p c b else Some (0, c, b));
     Some (0, c, b)
   }"

text \<open>The first event of the descriptor behind the current one loses its flags and filter.\<close>

fun purge_event :: "int \<Rightarrow> kevent list \<Rightarrow> kevent list" where
  "purge_event sd [] = []"
| "purge_event sd (e # es) =
     (if ke_ident e = sd then e\<lparr>ke_error := None, ke_filter := None\<rparr> # es else e # purge_event sd es)"

definition kq_delConn :: "nat \<Rightarrow> conn \<Rightarrow> kqbase \<Rightarrow> (int \<times> conn \<times> kqbase) option" where
  "kq_delConn p c b = do {
     (_, c, b) \<leftarrow> kq_delOutput p c b;
     (_, c, b) \<leftarrow> kq_delInput p c b;
     let k = kq_nprocessed b + 1;
     Some (0, c, b\<lparr>kq_event := take k (kq_event b) @ purge_event (c_sd c) (drop k (kq_event b))\<rparr>)
   }"

section \<open>Waiting\<close>

text \<open>The changes are applied in order; deleting forgets the pointer.\<close>

definition apply_change :: "kchange \<Rightarrow> (int \<Rightarrow> kfilter \<Rightarrow> nat option) \<Rightarrow> int \<Rightarrow> kfilter \<Rightarrow> nat option" where
  "apply_change ch r = (\<lambda>i f. if i = kc_ident ch \<and> f = kc_filter ch
     then (if kc_add ch then Some (kc_udata ch) else None) else r i f)"

definition kq_register :: "kqbase \<Rightarrow> kqbase" where
  "kq_register b = b\<lparr>kq_reg := fold apply_change (kq_change b) (kq_reg b), kq_change := []\<rparr>"

text \<open>The events of one \<^verbatim>\<open>kevent\<close> as those of the program; \<open>None\<close> is one that is skipped.\<close>

definition ENOENT :: int where "ENOENT = 2"
definition EBADF :: int where "EBADF = 9"

definition kq_events :: "kevent \<Rightarrow> u32 option" where
  "kq_events e =
     (let input = (if ke_filter e = Some EVFILT_READ then EVENT_READ else 0);
          output = (if ke_filter e = Some EVFILT_WRITE then EVENT_WRITE else 0) in
      case ke_error e of
        Some d \<Rightarrow>
          if d = EBADF \<or> d = EINVAL \<or> d = ENOENT \<or> d = EINTR then None
          else Some (EVENT_ERR OR input OR output)
      | None \<Rightarrow> Some (input OR output))"

text \<open>
  The loop over the returned events. The callback runs on the state of the program and the
  base, and can change both: the event is read when its turn comes.
\<close>

partial_function (option) kq_dispatch ::
  "(nat \<Rightarrow> u32 \<Rightarrow> 'w \<times> kqbase \<Rightarrow> ('w \<times> kqbase) option) \<Rightarrow> 'w \<times> kqbase \<Rightarrow> ('w \<times> kqbase) option" where
  "kq_dispatch callback wb =
     (let b = snd wb; i = kq_nprocessed b in
      if i < length (kq_event b) then do {
        let e = kq_event b ! i;
        wb \<leftarrow> (case kq_events e of
            None \<Rightarrow> Some wb
          | Some events \<Rightarrow> (case ke_udata e of None \<Rightarrow> Some wb | Some c \<Rightarrow> callback c events wb));
        kq_dispatch callback (fst wb, (snd wb)\<lparr>kq_nprocessed := kq_nprocessed (snd wb) + 1\<rparr>)
      } else Some wb)"

datatype kreply = Events "kevent list" | KErr errno

fun kq_wait ::
  "(nat \<Rightarrow> u32 \<Rightarrow> 'w \<times> kqbase \<Rightarrow> ('w \<times> kqbase) option) \<Rightarrow> int \<Rightarrow> kreply list \<Rightarrow> 'w \<times> kqbase
    \<Rightarrow> (int \<times> ('w \<times> kqbase) \<times> kreply list) option" where
  "kq_wait callback timeout [] wb = None"
| "kq_wait callback timeout (Events es # rs) wb =
     (let wb = (fst wb, (kq_register (snd wb))\<lparr>kq_event := es\<rparr>) in
      if es = [] then Some (if timeout = - 1 then - 1 else 0, wb, rs)
      else do {
        wb \<leftarrow> kq_dispatch callback (fst wb, (snd wb)\<lparr>kq_nprocessed := 0\<rparr>);
        Some (int (length es), wb, rs)
      })"
| "kq_wait callback timeout (KErr e # rs) wb =
     (let wb = (fst wb, kq_register (snd wb)) in
      if e = EINTR then kq_wait callback timeout rs wb else Some (- 1, wb, rs))"

section \<open>The contract of an event base\<close>

text \<open>
  What a connection relies on: its flag \<open>m_send_active_\<close> says whether the base watches its
  descriptor for output. \<open>wanted sd s\<close> is the interest the base has noted for \<open>sd\<close>.
\<close>

locale event_base =
  fixes addOutput delOutput :: "nat \<Rightarrow> conn \<Rightarrow> 's \<Rightarrow> (int \<times> conn \<times> 's) option"
    and wanted :: "int \<Rightarrow> 's \<Rightarrow> bool"
  assumes add: "c_send_active c = wanted (c_sd c) s \<Longrightarrow> addOutput i c s = Some (r, c', s') \<Longrightarrow>
      c_sd c' = c_sd c \<and> c_send_active c' = wanted (c_sd c) s' \<and> (r = 0 \<longrightarrow> wanted (c_sd c) s')
      \<and> (\<forall>sd. sd \<noteq> c_sd c \<longrightarrow> wanted sd s' = wanted sd s)"
    and del: "c_send_active c = wanted (c_sd c) s \<Longrightarrow> delOutput i c s = Some (r, c', s') \<Longrightarrow>
      c_sd c' = c_sd c \<and> c_send_active c' = wanted (c_sd c) s' \<and> (r = 0 \<longrightarrow> \<not> wanted (c_sd c) s')
      \<and> (\<forall>sd. sd \<noteq> c_sd c \<longrightarrow> wanted sd s' = wanted sd s)"
begin

text \<open>A sequence of operations on connections, \<open>True\<close> for \<open>addOutput\<close>.\<close>

fun run :: "(nat \<times> bool) list \<Rightarrow> (nat \<Rightarrow> conn) \<times> 's \<Rightarrow> ((nat \<Rightarrow> conn) \<times> 's) option" where
  "run [] st = Some st"
| "run ((i, on) # ops) (f, s) = do {
     (r, c, s) \<leftarrow> (if on then addOutput i (f i) s else delOutput i (f i) s);
     run ops (f(i := c), s)
   }"

definition synced :: "nat set \<Rightarrow> (nat \<Rightarrow> conn) \<times> 's \<Rightarrow> bool" where
  "synced I st \<longleftrightarrow> (\<forall>i\<in>I. c_send_active (fst st i) = wanted (c_sd (fst st i)) (snd st))
     \<and> inj_on (\<lambda>i. c_sd (fst st i)) I"

lemma step_synced:
  assumes "synced I (f, s)" "i \<in> I" "(if on then addOutput i (f i) s else delOutput i (f i) s) = Some (r, c, s')"
  shows "synced I (f(i := c), s')"
proof -
  have a: "c_send_active (f i) = wanted (c_sd (f i)) s" using assms by (simp add: synced_def)
  have c: "c_sd c = c_sd (f i) \<and> c_send_active c = wanted (c_sd (f i)) s'
      \<and> (\<forall>sd. sd \<noteq> c_sd (f i) \<longrightarrow> wanted sd s' = wanted sd s)"
  proof (cases on)
    case True
    with add [OF a, of i r c s'] assms(3) show ?thesis by simp
  next
    case False
    with del [OF a, of i r c s'] assms(3) show ?thesis by simp
  qed
  have "(\<lambda>j. c_sd ((f(i := c)) j)) = (\<lambda>j. c_sd (f j))" using c by auto
  moreover have "c_sd (f j) \<noteq> c_sd (f i)" if "j \<in> I" "j \<noteq> i" for j
    using assms(1,2) that by (auto simp: synced_def dest: inj_onD)
  ultimately show ?thesis using assms(1) c by (simp add: synced_def)
qed

lemma run_synced:
  "synced I st \<Longrightarrow> \<forall>op\<in>set ops. fst op \<in> I \<Longrightarrow> run ops st = Some st' \<Longrightarrow> synced I st'"
proof (induction ops st rule: run.induct)
  case (2 i "on" ops f s)
  then obtain r c s1 where "(if on then addOutput i (f i) s else delOutput i (f i) s) = Some (r, c, s1)"
    "run ops (f(i := c), s1) = Some st'" by (auto simp: bind_eq_Some_conv split del: if_split)
  with 2 step_synced [OF 2(2)] show ?case by auto
qed simp

end

section \<open>Both bases keep the contract\<close>

interpretation epoll: event_base "\<lambda>i c k. Some (ev_addOutput c k)" "\<lambda>i c k. Some (ev_delOutput c k)" out_armed
proof
  show "c_sd c' = c_sd c \<and> c_send_active c' = out_armed (c_sd c) s' \<and> (r = 0 \<longrightarrow> out_armed (c_sd c) s')
      \<and> (\<forall>sd. sd \<noteq> c_sd c \<longrightarrow> out_armed sd s' = out_armed sd s)"
    if "c_send_active c = out_armed (c_sd c) s" "Some (ev_addOutput c s) = Some (r, c', s')" for c s r c' s'
    using that by (auto simp: ev_defs out_armed_def epoll_masks Let_def split: if_splits list.splits)
  show "c_sd c' = c_sd c \<and> c_send_active c' = out_armed (c_sd c) s' \<and> (r = 0 \<longrightarrow> \<not> out_armed (c_sd c) s')
      \<and> (\<forall>sd. sd \<noteq> c_sd c \<longrightarrow> out_armed sd s' = out_armed sd s)"
    if "c_send_active c = out_armed (c_sd c) s" "Some (ev_delOutput c s) = Some (r, c', s')" for c s r c' s'
    using that by (auto simp: ev_defs out_armed_def epoll_masks Let_def split: if_splits list.splits)
qed

text \<open>For kqueue the interest is what the kernel will know after the pending changes.\<close>

definition kq_wanted :: "int \<Rightarrow> kqbase \<Rightarrow> bool" where
  "kq_wanted sd b \<longleftrightarrow> kq_reg (kq_register b) sd EVFILT_WRITE \<noteq> None"

lemmas kq_defs = kq_addOutput_def kq_delOutput_def kq_addInput_def kq_delInput_def kq_push_def

interpretation kqueue: event_base kq_addOutput kq_delOutput kq_wanted
proof
  show "c_sd c' = c_sd c \<and> c_send_active c' = kq_wanted (c_sd c) s' \<and> (r = 0 \<longrightarrow> kq_wanted (c_sd c) s')
      \<and> (\<forall>sd. sd \<noteq> c_sd c \<longrightarrow> kq_wanted sd s' = kq_wanted sd s)"
    if "c_send_active c = kq_wanted (c_sd c) s" "kq_addOutput p c s = Some (r, c', s')" for p c s r c' s'
    using that by (auto simp: kq_defs kq_wanted_def kq_register_def apply_change_def bind_eq_Some_conv split: if_splits)
  show "c_sd c' = c_sd c \<and> c_send_active c' = kq_wanted (c_sd c) s' \<and> (r = 0 \<longrightarrow> \<not> kq_wanted (c_sd c) s')
      \<and> (\<forall>sd. sd \<noteq> c_sd c \<longrightarrow> kq_wanted sd s' = kq_wanted sd s)"
    if "c_send_active c = kq_wanted (c_sd c) s" "kq_delOutput p c s = Some (r, c', s')" for p c s r c' s'
    using that by (auto simp: kq_defs kq_wanted_def kq_register_def apply_change_def bind_eq_Some_conv split: if_splits)
qed

text \<open>Registering the changes does not alter the interest.\<close>

lemma kq_wanted_register [simp]: "kq_wanted sd (kq_register b) = kq_wanted sd b"
  by (simp add: kq_wanted_def kq_register_def)


definition demo_kq :: kqbase where
  "demo_kq = \<lparr>kq_kq = 3, kq_change = [], kq_change_ok = True, kq_event = [], kq_nevent = 4, kq_nprocessed = 0,
     kq_reg = (\<lambda>_ _. None)\<rparr>"

definition demo_watch :: "nat \<Rightarrow> conn" where
  "demo_watch i = (conn_new CLIENT)\<lparr>c_sd := int i\<rparr>"


end
