(* ===== verification/NcRbInsert.thy ===== *)
theory NcRbInsert
  imports NcRbTree "HOL-Library.Multiset"
begin

text \<open>
  Insertion into the red-black tree of \<^verbatim>\<open>nc_rbtree.h\<close> is correct: no pointer is null, the
  loops end, the nodes stay in order, and the colours keep the tree balanced. A position in the
  tree is a list of frames, from the hole up to the root, each with the node passed on the way
  and the subtree on its other side.
\<close>

section \<open>Positions\<close>

datatype frame = FL nat "nat tree" | FR "nat tree" nat

fun plug :: "frame list \<Rightarrow> nat tree \<Rightarrow> nat tree" where
  "plug [] T = T"
| "plug (FL a r # fs) T = plug fs \<langle>T, a, r\<rangle>"
| "plug (FR l a # fs) T = plug fs \<langle>l, a, T\<rangle>"

fun fnode :: "frame \<Rightarrow> nat" where
  "fnode (FL a r) = a"
| "fnode (FR l a) = a"

text \<open>The nodes before and behind the hole.\<close>

fun pre :: "frame list \<Rightarrow> nat list" where
  "pre [] = []"
| "pre (FL a r # fs) = pre fs"
| "pre (FR l a # fs) = pre fs @ inorder l @ [a]"

fun post :: "frame list \<Rightarrow> nat list" where
  "post [] = []"
| "post (FL a r # fs) = a # inorder r @ post fs"
| "post (FR l a # fs) = post fs"

lemma inorder_plug [simp]: "inorder (plug fs T) = pre fs @ inorder T @ post fs"
  by (induction fs T rule: plug.induct) auto

lemma plug_append: "plug (fs @ gs) T = plug gs (plug fs T)"
  by (induction fs T rule: plug.induct) auto

lemma pre_append [simp]: "pre (fs @ gs) = pre gs @ pre fs"
  by (induction fs rule: pre.induct) auto

lemma post_append [simp]: "post (fs @ gs) = post fs @ post gs"
  by (induction fs rule: post.induct) auto

lemma plug_not_Leaf: "T \<noteq> \<langle>\<rangle> \<or> fs \<noteq> [] \<Longrightarrow> plug fs T \<noteq> \<langle>\<rangle>"
  by (induction fs T rule: plug.induct) auto

definition faddr :: "frame list \<Rightarrow> nat set" where
  "faddr fs = set (pre fs) \<union> set (post fs)"

lemma faddr_simps [simp]:
  "faddr [] = {}" "faddr (FL a r # fs) = insert a (set (inorder r) \<union> faddr fs)"
  "faddr (FR l a # fs) = insert a (set (inorder l) \<union> faddr fs)"
  by (auto simp: faddr_def)

section \<open>The heap around a position\<close>

text \<open>The hole is the pointer \<open>p\<close>, whose parent link is \<open>par\<close>.\<close>

fun ctx :: "ptr \<Rightarrow> (nat \<Rightarrow> rbnode) \<Rightarrow> ptr \<Rightarrow> frame list \<Rightarrow> ptr \<Rightarrow> ptr \<Rightarrow> bool" where
  "ctx s h root [] par p \<longleftrightarrow> root = p"
| "ctx s h root (FL a r # fs) par p \<longleftrightarrow> par = Some a \<and> s \<noteq> Some a \<and> rb_left (h a) = p
     \<and> is_tree s h (Some a) (rb_right (h a)) r \<and> ctx s h root fs (rb_parent (h a)) (Some a)"
| "ctx s h root (FR l a # fs) par p \<longleftrightarrow> par = Some a \<and> s \<noteq> Some a \<and> rb_right (h a) = p
     \<and> is_tree s h (Some a) (rb_left (h a)) l \<and> ctx s h root fs (rb_parent (h a)) (Some a)"

lemma is_tree_plug:
  "(\<exists>par. is_tree s h par root (plug fs T)) \<longleftrightarrow> (\<exists>par p. ctx s h root fs par p \<and> is_tree s h par p T)"
  by (induction fs T rule: plug.induct) auto

lemma is_tree_plug_Node:
  "(\<exists>par. is_tree s h par root (plug fs \<langle>l, a, r\<rangle>)) \<longleftrightarrow>
   ctx s h root fs (rb_parent (h a)) (Some a) \<and> is_tree s h (rb_parent (h a)) (Some a) \<langle>l, a, r\<rangle>"
  by (auto simp: is_tree_plug)

lemma is_tree_upd [simp]: "a \<notin> set (inorder T) \<Longrightarrow> is_tree s (h(a := v)) par p T = is_tree s h par p T"
  by (induction s h par p T rule: is_tree.induct) auto

lemma ctx_upd [simp]: "a \<notin> faddr fs \<Longrightarrow> ctx s (h(a := v)) root fs par p = ctx s h root fs par p"
  by (induction s h root fs par p rule: ctx.induct) auto

text \<open>Only the links matter.\<close>

definition same_links :: "(nat \<Rightarrow> rbnode) \<Rightarrow> (nat \<Rightarrow> rbnode) \<Rightarrow> bool" where
  "same_links h h' \<longleftrightarrow> (\<forall>a. rb_left (h' a) = rb_left (h a) \<and> rb_right (h' a) = rb_right (h a) \<and> rb_parent (h' a) = rb_parent (h a))"

lemma same_links_tree: "same_links h h' \<Longrightarrow> is_tree s h' par p T = is_tree s h par p T"
  by (induction s h par p T rule: is_tree.induct) (simp_all add: same_links_def)

lemma same_links_ctx: "same_links h h' \<Longrightarrow> ctx s h' root fs par p = ctx s h root fs par p"
  by (induction s h root fs par p rule: ctx.induct) (simp_all add: same_links_tree, simp_all add: same_links_def)

lemma same_links_red: "same_links h (h(a := rb_red_update f (h a)))"
  by (simp add: same_links_def)

lemmas red_tree [simp] = same_links_tree [OF same_links_red] same_links_ctx [OF same_links_red]

lemma is_tree_addr: "is_tree s h par p T \<Longrightarrow> p = s \<or> (\<exists>a\<in>set (inorder T). p = Some a)"
  by (cases T) auto

lemma is_tree_not: "is_tree s h par p T \<Longrightarrow> a \<notin> set (inorder T) \<Longrightarrow> s \<noteq> Some a \<Longrightarrow> p \<noteq> Some a"
  by (cases T) auto

lemma ctx_root: "ctx s h root fs par p \<Longrightarrow> fs \<noteq> [] \<Longrightarrow> \<exists>a\<in>faddr fs. root = Some a"
  by (induction s h root fs par p rule: ctx.induct) (fastforce split: list.splits)+

section \<open>Rotations keep the order\<close>

definition same_content :: "(nat \<Rightarrow> rbnode) \<Rightarrow> (nat \<Rightarrow> rbnode) \<Rightarrow> bool" where
  "same_content h h' \<longleftrightarrow> (\<forall>a. rb_red (h' a) = rb_red (h a) \<and> rb_key (h' a) = rb_key (h a) \<and> rb_data (h' a) = rb_data (h a))"

lemma same_content_trans: "same_content g h \<Longrightarrow> same_content h k \<Longrightarrow> same_content g k"
  by (simp add: same_content_def)

lemma same_content_refl [simp, intro]: "same_content h h" by (simp add: same_content_def)

text \<open>Setting a link changes no content.\<close>

lemma content_link [simp, intro]:
  "same_content h (h(a := (h a)\<lparr>rb_left := p\<rparr>))" "same_content h (h(a := (h a)\<lparr>rb_right := p\<rparr>))"
  "same_content h (h(a := (h a)\<lparr>rb_parent := p\<rparr>))"
  by (simp_all add: same_content_def)

lemma is_tree_agree:
  "\<forall>a\<in>set (inorder T). h' a = h a \<Longrightarrow> is_tree s h' par p T = is_tree s h par p T"
  by (induction s h par p T rule: is_tree.induct) auto

text \<open>Putting \<open>y\<close> in the place of \<open>x\<close> as a child, the way each rotation does.\<close>

definition relinked :: "frame list \<Rightarrow> ptr \<Rightarrow> nat \<Rightarrow> rbtree \<Rightarrow> rbtree \<Rightarrow> bool" where
  "relinked fs par y t t' \<longleftrightarrow> rb_sentinel t' = rb_sentinel t
     \<and> ctx (rb_sentinel t) (rb_nodes t') (rb_root t') fs par (Some y)
     \<and> (\<forall>a. a \<notin> faddr fs \<longrightarrow> rb_nodes t' a = rb_nodes t a) \<and> same_content (rb_nodes t) (rb_nodes t')"

lemma relinked_left:
  assumes "ctx (rb_sentinel t) (rb_nodes t) (rb_root t) fs par (Some x)" "x \<notin> faddr fs" "rb_sentinel t \<noteq> Some x"
    and "distinct (pre fs @ post fs)"
  shows "\<exists>t'. (if Some x = rb_root t then Some (t\<lparr>rb_root := Some y\<rparr>)
       else do { q \<leftarrow> rd rb_left par t; if Some x = q then set_left par (Some y) t else set_right par (Some y) t })
     = Some t' \<and> relinked fs par y t t'"
proof (cases fs)
  case Nil
  with assms show ?thesis
    by (auto simp: relinked_def same_content_def)
next
  case (Cons f fs')
  have "Some x \<noteq> rb_root t" using ctx_root [OF assms(1)] assms(2) Cons by auto
  moreover have "\<exists>t'. (do { q \<leftarrow> rd rb_left par t; if Some x = q then set_left par (Some y) t else set_right par (Some y) t })
     = Some t' \<and> relinked fs par y t t'"
  proof (cases f)
    case (FL a r)
    with assms Cons show ?thesis
      by (auto simp: rd_def wr_def relinked_def same_content_def faddr_def)
  next
    case (FR l a)
    then have "rb_left (rb_nodes t a) \<noteq> Some x"
      using assms Cons is_tree_not [of "rb_sentinel t" "rb_nodes t" "Some a" _ l x] by auto
    with FR assms Cons show ?thesis
      by (auto simp: rd_def wr_def relinked_def same_content_def faddr_def)
  qed
  ultimately show ?thesis by simp
qed

lemma relinked_right:
  assumes "ctx (rb_sentinel t) (rb_nodes t) (rb_root t) fs par (Some x)" "x \<notin> faddr fs" "rb_sentinel t \<noteq> Some x"
    and "distinct (pre fs @ post fs)"
  shows "\<exists>t'. (if Some x = rb_root t then Some (t\<lparr>rb_root := Some y\<rparr>)
       else do { q \<leftarrow> rd rb_right par t; if Some x = q then set_right par (Some y) t else set_left par (Some y) t })
     = Some t' \<and> relinked fs par y t t'"
proof (cases fs)
  case Nil
  with assms show ?thesis
    by (auto simp: relinked_def same_content_def)
next
  case (Cons f fs')
  have "Some x \<noteq> rb_root t" using ctx_root [OF assms(1)] assms(2) Cons by auto
  moreover have "\<exists>t'. (do { q \<leftarrow> rd rb_right par t; if Some x = q then set_right par (Some y) t else set_left par (Some y) t })
     = Some t' \<and> relinked fs par y t t'"
  proof (cases f)
    case (FR l a)
    with assms Cons show ?thesis
      by (auto simp: rd_def wr_def relinked_def same_content_def faddr_def)
  next
    case (FL a r)
    then have "rb_right (rb_nodes t a) \<noteq> Some x"
      using assms Cons is_tree_not [of "rb_sentinel t" "rb_nodes t" "Some a" _ r x] by auto
    with FL assms Cons show ?thesis
      by (auto simp: rd_def wr_def relinked_def same_content_def faddr_def)
  qed
  ultimately show ?thesis by simp
qed

lemma ctx_agree: "\<forall>a\<in>faddr fs. h' a = h a \<Longrightarrow> ctx s h' root fs par p = ctx s h root fs par p"
proof (induction s h root fs par p rule: ctx.induct)
  case (2 s h root a r fs par p)
  then show ?case using is_tree_agree [of r h' h] by (simp add: ball_Un)
next
  case (3 s h root l a fs par p)
  then show ?case using is_tree_agree [of l h' h] by (simp add: ball_Un)
qed simp

text \<open>The heap of a left rotation at \<open>x\<close> before \<open>y\<close> takes the place of \<open>x\<close>.\<close>

definition moved :: "ptr \<Rightarrow> nat \<Rightarrow> nat \<Rightarrow> (nat \<Rightarrow> rbnode) \<Rightarrow> nat \<Rightarrow> rbnode" where
  "moved s x y h = (let h1 = h(x := (h x)\<lparr>rb_right := rb_left (h y)\<rparr>); b = the (rb_left (h y)) in
     if rb_left (h y) = s then h1 else h1(b := (h1 b)\<lparr>rb_parent := Some x\<rparr>))"

definition raised :: "ptr \<Rightarrow> nat \<Rightarrow> nat \<Rightarrow> (nat \<Rightarrow> rbnode) \<Rightarrow> nat \<Rightarrow> rbnode" where
  "raised s x y h = (moved s x y h)(y := (moved s x y h y)\<lparr>rb_parent := rb_parent (h x)\<rparr>)"

lemma raised_content: "same_content h (raised s x y h)"
  by (auto simp: same_content_def raised_def moved_def Let_def)

lemma moved_off:
  assumes "is_tree s h (Some y) (rb_left (h y)) B" "x \<notin> set (inorder B)"
  shows "a \<notin> set (inorder B) \<Longrightarrow> moved s x y h a = (h(x := (h x)\<lparr>rb_right := rb_left (h y)\<rparr>)) a"
    and "rb_parent (moved s x y h x) = rb_parent (h x)"
  using is_tree_addr [OF assms(1)] assms(2) by (auto simp: moved_def Let_def)

lemma raised_inner:
  assumes "is_tree s h (Some y) (rb_left (h y)) B" "x \<notin> set (inorder B)" "y \<notin> set (inorder B)" "distinct (inorder B)"
  shows "is_tree s (raised s x y h) (Some x) (rb_left (h y)) B"
proof (cases B)
  case (Node l k r)
  then have k: "rb_left (h y) = Some k" "s \<noteq> Some k" "k \<noteq> x" "k \<noteq> y" using assms(1-3) by auto
  then have "raised s x y h k = (h k)\<lparr>rb_parent := Some x\<rparr>" by (simp add: raised_def moved_def)
  moreover have "\<forall>a\<in>set (inorder l) \<union> set (inorder r). raised s x y h a = h a"
  proof
    fix a assume "a \<in> set (inorder l) \<union> set (inorder r)"
    then have "a \<noteq> x" "a \<noteq> y" "a \<noteq> k" using Node assms(2-4) by auto
    then show "raised s x y h a = h a" using k by (simp add: raised_def moved_def)
  qed
  ultimately show ?thesis
    using Node assms(1) k is_tree_agree [of l "raised s x y h" h] is_tree_agree [of r "raised s x y h" h] by simp
qed (use assms in simp)

lemma leftRotate_rep:
  assumes "rep t (plug fs \<langle>A, x, \<langle>B, y, C\<rangle>\<rangle>)"
  shows "\<exists>t'. leftRotate (Some x) t = Some t' \<and> rep t' (plug fs \<langle>\<langle>A, x, B\<rangle>, y, C\<rangle>) \<and> rb_sentinel t' = rb_sentinel t
    \<and> same_content (rb_nodes t) (rb_nodes t')
    \<and> (\<forall>z. z \<notin> set (inorder (plug fs \<langle>A, x, \<langle>B, y, C\<rangle>\<rangle>)) \<longrightarrow> rb_nodes t' z = rb_nodes t z)"
proof -
  let ?s = "rb_sentinel t" and ?h = "rb_nodes t" let ?par = "rb_parent (rb_nodes t x)"
  define h2 where "h2 = moved ?s x y ?h"
  define h3 where "h3 = raised ?s x y ?h"
  have c: "ctx ?s ?h (rb_root t) fs ?par (Some x)" "is_tree ?s ?h ?par (Some x) \<langle>A, x, \<langle>B, y, C\<rangle>\<rangle>"
    and d: "distinct (inorder (plug fs \<langle>A, x, \<langle>B, y, C\<rangle>\<rangle>))"
    using assms by (auto simp: rep_def is_tree_plug_Node)
  have xy: "x \<noteq> y" "y \<noteq> x" "x \<notin> set (inorder A)" "y \<notin> set (inorder A)" "x \<notin> set (inorder B)" "y \<notin> set (inorder B)"
    "x \<notin> set (inorder C)" "y \<notin> set (inorder C)" "x \<notin> faddr fs" "y \<notin> faddr fs" "distinct (pre fs @ post fs)" "distinct (inorder B)"
    using d by (auto simp: faddr_def)
  have t: "is_tree ?s ?h (Some x) (rb_left (?h x)) A" "is_tree ?s ?h (Some y) (rb_left (?h y)) B"
    "is_tree ?s ?h (Some y) (rb_right (?h y)) C" "rb_right (?h x) = Some y" "?s \<noteq> Some x" "?s \<noteq> Some y"
    using c(2) by auto
  note off = moved_off [OF t(2) xy(5), folded h2_def]
  have same: "h3 a = ?h a" if "a \<in> faddr fs \<union> set (inorder A) \<union> set (inorder C)" for a
  proof -
    have "a \<notin> set (inorder B)" "a \<noteq> x" "a \<noteq> y" using that d xy by (auto simp: faddr_def)
    then show ?thesis using off(1) by (simp add: h3_def raised_def h2_def)
  qed
  have h3: "ctx ?s h3 (rb_root t) fs ?par (Some x)" "is_tree ?s h3 (Some x) (rb_left (?h x)) A"
    "is_tree ?s h3 (Some y) (rb_right (?h y)) C" "is_tree ?s h3 (Some x) (rb_left (?h y)) B"
    using ctx_agree [of fs h3 ?h] is_tree_agree [of A h3 ?h] is_tree_agree [of C h3 ?h] same c(1) t(1,3)
      raised_inner [OF t(2) xy(5,6,12)] unfolding h3_def by (simp_all del: ball_simps)
  have f: "rb_left (h3 x) = rb_left (?h x)" "rb_right (h3 x) = rb_left (?h y)" "rb_right (h3 y) = rb_right (?h y)" "rb_parent (h3 y) = ?par"
    using off(1) xy by (simp_all add: h3_def raised_def h2_def)
  text \<open>The run of the code.\<close>
  obtain t4 where t4: "(if Some x = rb_root (t\<lparr>rb_nodes := h3\<rparr>) then Some ((t\<lparr>rb_nodes := h3\<rparr>)\<lparr>rb_root := Some y\<rparr>)
       else do { q \<leftarrow> rd rb_left ?par (t\<lparr>rb_nodes := h3\<rparr>);
                 if Some x = q then set_left ?par (Some y) (t\<lparr>rb_nodes := h3\<rparr>) else set_right ?par (Some y) (t\<lparr>rb_nodes := h3\<rparr>) })
     = Some t4" "relinked fs ?par y (t\<lparr>rb_nodes := h3\<rparr>) t4"
    using relinked_left [of "t\<lparr>rb_nodes := h3\<rparr>" fs ?par x y] h3(1) xy(9,11) t(5) by auto
  let ?g = "(rb_nodes t4)(y := (rb_nodes t4 y)\<lparr>rb_left := Some x\<rparr>)"
  let ?h1 = "?h(x := (?h x)\<lparr>rb_right := rb_left (?h y)\<rparr>)" and ?t' = "t4\<lparr>rb_nodes := ?g(x := (?g x)\<lparr>rb_parent := Some y\<rparr>)\<rparr>"
  have p1: "rd rb_right (Some x) t = Some (Some y)" "rd rb_left (Some y) t = Some (rb_left (?h y))"
    "set_right (Some x) (rb_left (?h y)) t = Some (t\<lparr>rb_nodes := ?h1\<rparr>)" using t(4) by (simp_all add: rd_def wr_def)
  have p2: "(if rb_left (?h y) \<noteq> rb_sentinel (t\<lparr>rb_nodes := ?h1\<rparr>) then set_parent (rb_left (?h y)) (Some x) (t\<lparr>rb_nodes := ?h1\<rparr>)
      else Some (t\<lparr>rb_nodes := ?h1\<rparr>)) = Some (t\<lparr>rb_nodes := h2\<rparr>)"
    using t(2) by (cases B) (simp_all add: h2_def moved_def wr_def Let_def)
  have p3: "rd rb_parent (Some x) (t\<lparr>rb_nodes := h2\<rparr>) = Some ?par"
    "set_parent (Some y) ?par (t\<lparr>rb_nodes := h2\<rparr>) = Some (t\<lparr>rb_nodes := h3\<rparr>)"
    using off(2) by (simp_all add: rd_def wr_def h3_def raised_def h2_def)
  have run: "leftRotate (Some x) t = Some ?t'"
    by (simp only: leftRotate_def option.distinct if_False p1 Option.bind.simps p2 p3 t4(1)) (simp add: wr_def)
  have r: "rb_sentinel t4 = ?s" "ctx ?s (rb_nodes t4) (rb_root t4) fs ?par (Some y)" "same_content h3 (rb_nodes t4)"
    "\<And>a. a \<notin> faddr fs \<Longrightarrow> rb_nodes t4 a = h3 a" using t4(2) by (simp_all add: relinked_def)
  have "\<forall>z\<in>set (inorder A) \<union> set (inorder B) \<union> set (inorder C). z \<notin> faddr fs" using d by (auto simp: faddr_def)
  then have "is_tree ?s (rb_nodes t4) (Some x) (rb_left (?h x)) A" "is_tree ?s (rb_nodes t4) (Some x) (rb_left (?h y)) B"
    "is_tree ?s (rb_nodes t4) (Some y) (rb_right (?h y)) C"
    using is_tree_agree [of A "rb_nodes t4" h3] is_tree_agree [of B "rb_nodes t4" h3]
      is_tree_agree [of C "rb_nodes t4" h3] r(4) h3(2-4) by blast+
  moreover have "rb_nodes t4 x = h3 x" "rb_nodes t4 y = h3 y" using r(4) xy by simp_all
  ultimately have "rep ?t' (plug fs \<langle>\<langle>A, x, B\<rangle>, y, C\<rangle>)"
    unfolding rep_def using r(1,2) d xy f t(5,6) by (simp add: is_tree_plug_Node)
  moreover have "same_content ?h (rb_nodes ?t')"
    using raised_content [of ?h ?s x y] r(3) unfolding h3_def same_content_def by simp
  moreover have "rb_nodes ?t' z = ?h z" if "z \<notin> set (inorder (plug fs \<langle>A, x, \<langle>B, y, C\<rangle>\<rangle>))" for z
  proof -
    have "z \<notin> faddr fs" "z \<notin> set (inorder B)" "z \<noteq> x" "z \<noteq> y" using that by (auto simp: faddr_def)
    then show ?thesis using r(4) [of z] off(1) [of z] by (simp add: h3_def raised_def h2_def)
  qed
  moreover have "rb_sentinel ?t' = ?s" using r(1) by simp
  ultimately show ?thesis using run by blast
qed

section \<open>The mirror image\<close>

text \<open>Exchanging left and right exchanges the two rotations, and the two halves of a step.\<close>

definition flip :: "rbnode \<Rightarrow> rbnode" where
  "flip n = n\<lparr>rb_left := rb_right n, rb_right := rb_left n\<rparr>"

definition mir :: "rbtree \<Rightarrow> rbtree" where
  "mir t = t\<lparr>rb_nodes := (\<lambda>a. flip (rb_nodes t a))\<rparr>"

fun mframe :: "frame \<Rightarrow> frame" where
  "mframe (FL a r) = FR (mirror r) a"
| "mframe (FR l a) = FL a (mirror l)"

lemma flip_simps [simp]:
  "rb_left (flip n) = rb_right n" "rb_right (flip n) = rb_left n" "rb_parent (flip n) = rb_parent n"
  "rb_key (flip n) = rb_key n" "rb_data (flip n) = rb_data n" "rb_red (flip n) = rb_red n" "flip (flip n) = n"
  by (simp_all add: flip_def)

lemma mir_simps [simp]:
  "rb_root (mir t) = rb_root t" "rb_sentinel (mir t) = rb_sentinel t" "rb_nodes (mir t) a = flip (rb_nodes t a)"
  "mir (mir t) = t" "mir t\<lparr>rb_root := r\<rparr> = mir (t\<lparr>rb_root := r\<rparr>)"
  by (simp_all add: mir_def)

lemma rd_mir [simp]:
  "rd rb_left p (mir t) = rd rb_right p t" "rd rb_right p (mir t) = rd rb_left p t"
  "rd rb_parent p (mir t) = rd rb_parent p t" "rd rb_key p (mir t) = rd rb_key p t" "rd rb_red p (mir t) = rd rb_red p t"
  by (simp_all add: rd_def)

lemma wr_mirI:
  assumes "\<And>n. flip (f n) = g (flip n)"
  shows "wr g p (mir t) = map_option mir (wr f p t)"
proof (cases p)
  case (Some a)
  have "(rb_nodes (mir t))(a := g (flip (rb_nodes t a))) = (\<lambda>b. flip (((rb_nodes t)(a := f (rb_nodes t a))) b))"
    using assms by auto
  with Some show ?thesis by (simp add: wr_def) (simp add: mir_def)
qed (simp add: wr_def)

lemma wr_mir [simp]:
  "set_left p v (mir t) = map_option mir (set_right p v t)" "set_right p v (mir t) = map_option mir (set_left p v t)"
  "set_parent p v (mir t) = map_option mir (set_parent p v t)"
  "rbtree_red p (mir t) = map_option mir (rbtree_red p t)" "rbtree_black p (mir t) = map_option mir (rbtree_black p t)"
  unfolding rbtree_red_def rbtree_black_def by (rule wr_mirI, simp add: flip_def)+

lemma bind_map: "map_option f x \<bind> g = x \<bind> (\<lambda>y. g (f y))"
  "z \<bind> (\<lambda>y. map_option k (h y)) = map_option k (z \<bind> h)"
  by (cases x; simp) (cases z; simp)

lemma if_map:
  "(if b then map_option f x else map_option f y) = map_option f (if b then x else y)"
  "(if b then map_option f x else Some (f z)) = map_option f (if b then x else Some z)"
  "(if b then Some (f z) else map_option f x) = map_option f (if b then Some z else x)"
  by simp_all

lemmas lift_mir = bind_map if_map

lemma leftRotate_mir: "leftRotate p (mir t) = map_option mir (rightRotate p t)"
  by (simp add: leftRotate_def rightRotate_def lift_mir cong: if_cong)

lemma rightRotate_mir: "rightRotate p (mir t) = map_option mir (leftRotate p t)"
  by (simp add: leftRotate_def rightRotate_def lift_mir cong: if_cong)

lemma mirror_plug: "mirror (plug fs T) = plug (map mframe fs) (mirror T)"
  by (induction fs T rule: plug.induct) simp_all

lemma mframe_mframe [simp]: "mframe (mframe f) = f" "mframe \<circ> mframe = id"
proof -
  show "mframe (mframe f) = f" for f by (cases f) simp_all
  then show "mframe \<circ> mframe = id" by auto
qed

lemma is_tree_mir: "is_tree s (\<lambda>a. flip (h a)) par p T = is_tree s h par p (mirror T)"
  by (induction T arbitrary: par p) auto

lemma rep_mir: "rep (mir t) T = rep t (mirror T)"
  by (simp add: rep_def mir_def is_tree_mir inorder_mirror)

lemma rightRotate_rep:
  assumes "rep t (plug fs \<langle>\<langle>A, y, B\<rangle>, x, C\<rangle>)"
  shows "\<exists>t'. rightRotate (Some x) t = Some t' \<and> rep t' (plug fs \<langle>A, y, \<langle>B, x, C\<rangle>\<rangle>) \<and> rb_sentinel t' = rb_sentinel t
    \<and> same_content (rb_nodes t) (rb_nodes t')
    \<and> (\<forall>z. z \<notin> set (inorder (plug fs \<langle>\<langle>A, y, B\<rangle>, x, C\<rangle>)) \<longrightarrow> rb_nodes t' z = rb_nodes t z)"
proof -
  have "rep (mir t) (plug (map mframe fs) \<langle>mirror C, x, \<langle>mirror B, y, mirror A\<rangle>\<rangle>)"
    using assms by (simp add: rep_mir mirror_plug)
  from leftRotate_rep [OF this] obtain t' where t': "leftRotate (Some x) (mir t) = Some t'"
    "rep t' (plug (map mframe fs) \<langle>\<langle>mirror C, x, mirror B\<rangle>, y, mirror A\<rangle>)" "rb_sentinel t' = rb_sentinel t"
    "same_content (rb_nodes (mir t)) (rb_nodes t')"
    "\<And>z. z \<notin> set (inorder (mirror (plug fs \<langle>\<langle>A, y, B\<rangle>, x, C\<rangle>))) \<Longrightarrow> rb_nodes t' z = flip (rb_nodes t z)"
    by (auto simp: mirror_plug)
  have "rightRotate (Some x) t = Some (mir t')" using t'(1) leftRotate_mir [of "Some x" t] by (auto simp: map_option_eq_Some)
  moreover have "rep (mir t') (plug fs \<langle>A, y, \<langle>B, x, C\<rangle>\<rangle>)" using t'(2) by (simp add: rep_mir mirror_plug)
  moreover have "\<forall>z. z \<notin> set (inorder (plug fs \<langle>\<langle>A, y, B\<rangle>, x, C\<rangle>)) \<longrightarrow> rb_nodes (mir t') z = rb_nodes t z"
    using t'(5) unfolding inorder_mirror set_rev by simp
  ultimately show ?thesis using t'(3,4) by (auto simp: same_content_def)
qed

section \<open>Colours\<close>

definition reds :: "rbtree \<Rightarrow> nat \<Rightarrow> bool" where
  "reds t = (\<lambda>a. rb_red (rb_nodes t a))"

fun redt :: "(nat \<Rightarrow> bool) \<Rightarrow> nat tree \<Rightarrow> bool" where
  "redt c \<langle>\<rangle> = False"
| "redt c \<langle>l, a, r\<rangle> = c a"

text \<open>No red node has a red child; all paths down have the same number of black nodes.\<close>

fun cinv :: "(nat \<Rightarrow> bool) \<Rightarrow> nat tree \<Rightarrow> bool" where
  "cinv c \<langle>\<rangle> = True"
| "cinv c \<langle>l, a, r\<rangle> \<longleftrightarrow> cinv c l \<and> cinv c r \<and> (c a \<longrightarrow> \<not> redt c l \<and> \<not> redt c r)"

fun bh :: "(nat \<Rightarrow> bool) \<Rightarrow> nat tree \<Rightarrow> nat" where
  "bh c \<langle>\<rangle> = 0"
| "bh c \<langle>l, a, r\<rangle> = bh c l + (if c a then 0 else 1)"

fun hinv :: "(nat \<Rightarrow> bool) \<Rightarrow> nat tree \<Rightarrow> bool" where
  "hinv c \<langle>\<rangle> = True"
| "hinv c \<langle>l, a, r\<rangle> \<longleftrightarrow> hinv c l \<and> hinv c r \<and> bh c l = bh c r"

text \<open>What the frames ask of the tree that is plugged in: its black height is \<open>n\<close>.\<close>

fun sibling :: "frame \<Rightarrow> nat tree" where
  "sibling (FL a r) = r"
| "sibling (FR l a) = l"

definition topred :: "(nat \<Rightarrow> bool) \<Rightarrow> frame list \<Rightarrow> bool" where
  "topred c fs \<longleftrightarrow> (case fs of [] \<Rightarrow> False | f # _ \<Rightarrow> c (fnode f))"

fun cok :: "(nat \<Rightarrow> bool) \<Rightarrow> frame list \<Rightarrow> nat \<Rightarrow> bool" where
  "cok c [] n = True"
| "cok c (f # fs) n \<longleftrightarrow> cinv c (sibling f) \<and> hinv c (sibling f) \<and> bh c (sibling f) = n
     \<and> (c (fnode f) \<longrightarrow> \<not> redt c (sibling f) \<and> \<not> topred c fs) \<and> cok c fs (n + (if c (fnode f) then 0 else 1))"

lemma topred_simps [simp]: "\<not> topred c []" "topred c (f # fs) = c (fnode f)"
  by (simp_all add: topred_def)

lemma colour_upd [simp]:
  "a \<notin> set (inorder T) \<Longrightarrow> redt (c(a := v)) T = redt c T" "a \<notin> set (inorder T) \<Longrightarrow> cinv (c(a := v)) T = cinv c T"
  "a \<notin> set (inorder T) \<Longrightarrow> bh (c(a := v)) T = bh c T" "a \<notin> set (inorder T) \<Longrightarrow> hinv (c(a := v)) T = hinv c T"
proof -
  show r: "a \<notin> set (inorder T) \<Longrightarrow> redt (c(a := v)) T = redt c T" for T by (cases T) auto
  show b: "a \<notin> set (inorder T) \<Longrightarrow> bh (c(a := v)) T = bh c T" for T by (induction T) auto
  show "a \<notin> set (inorder T) \<Longrightarrow> cinv (c(a := v)) T = cinv c T" by (induction T) (auto simp: r)
  show "a \<notin> set (inorder T) \<Longrightarrow> hinv (c(a := v)) T = hinv c T" by (induction T) (auto simp: b)
qed

lemma topred_upd [simp]: "a \<notin> faddr fs \<Longrightarrow> topred (c(a := v)) fs = topred c fs"
  by (cases fs; cases "hd fs") auto

lemma cok_upd [simp]: "a \<notin> faddr fs \<Longrightarrow> cok (c(a := v)) fs n = cok c fs n"
proof (induction fs arbitrary: n)
  case (Cons f fs)
  then show ?case by (cases f) (simp_all del: fun_upd_apply add: fun_upd_other)
qed simp

lemma colour_plug:
  "cinv c (plug fs T) \<and> hinv c (plug fs T) \<longleftrightarrow>
   cinv c T \<and> hinv c T \<and> cok c fs (bh c T) \<and> (redt c T \<longrightarrow> \<not> topred c fs)"
  by (induction fs T rule: plug.induct) auto

lemma redt_plug: "redt c (plug fs T) = (if fs = [] then redt c T else c (fnode (last fs)))"
  by (induction fs T rule: plug.induct) auto

lemma mirror_colour:
  "redt c (mirror T) = redt c T" "hinv c T \<Longrightarrow> bh c (mirror T) = bh c T" "cinv c (mirror T) = cinv c T"
  "hinv c (mirror T) = hinv c T"
proof -
  show r: "redt c (mirror T) = redt c T" for T by (cases T) simp_all
  have b: "(hinv c T \<longrightarrow> hinv c (mirror T) \<and> bh c (mirror T) = bh c T)" for T by (induction T) auto
  then show "hinv c T \<Longrightarrow> bh c (mirror T) = bh c T" for T by blast
  show "cinv c (mirror T) = cinv c T" by (induction T) (auto simp: r)
  show "hinv c (mirror T) = hinv c T" using b [of T] b [of "mirror T"] by auto
qed

lemma mirror_frames:
  "fnode (mframe f) = fnode f" "sibling (mframe f) = mirror (sibling f)" "topred c (map mframe fs) = topred c fs"
proof -
  show n: "fnode (mframe f) = fnode f" "sibling (mframe f) = mirror (sibling f)" for f by (cases f; simp)+
  show "topred c (map mframe fs) = topred c fs" by (cases fs) (simp_all add: n)
qed

lemma cok_mirror: "cok c (map mframe fs) n = cok c fs n"
  by (induction fs arbitrary: n) (auto simp: mirror_frames mirror_colour)

section \<open>One step of the rebalancing\<close>

definition recol :: "nat \<Rightarrow> bool \<Rightarrow> rbtree \<Rightarrow> rbtree" where
  "recol a b t = t\<lparr>rb_nodes := (rb_nodes t)(a := (rb_nodes t a)\<lparr>rb_red := b\<rparr>)\<rparr>"

lemma recol_run: "rbtree_black (Some a) t = Some (recol a False t)" "rbtree_red (Some a) t = Some (recol a True t)"
  by (simp_all add: rbtree_black_def rbtree_red_def wr_def recol_def)

lemma recol_simps [simp]:
  "rb_root (recol a b t) = rb_root t" "rb_sentinel (recol a b t) = rb_sentinel t" "reds (recol a b t) = (reds t)(a := b)"
  "rd rb_left p (recol a b t) = rd rb_left p t" "rd rb_right p (recol a b t) = rd rb_right p t"
  "rd rb_parent p (recol a b t) = rd rb_parent p t" "rep (recol a b t) T = rep t T"
  "rb_key (rb_nodes (recol a b t) x) = rb_key (rb_nodes t x)" "rb_data (rb_nodes (recol a b t) x) = rb_data (rb_nodes t x)"
  by (cases p; simp add: recol_def reds_def rd_def rep_def fun_eq_iff)+

lemma red_of: "rbtree_is_red (Some a) t = Some (reds t a)"
  by (simp add: rbtree_is_red_def rd_def reds_def)

text \<open>The links around the node \<open>x\<close> below two frames.\<close>

definition kept :: "rbtree \<Rightarrow> rbtree \<Rightarrow> bool" where
  "kept t t' \<longleftrightarrow> rb_sentinel t' = rb_sentinel t
     \<and> (\<forall>a. rb_key (rb_nodes t' a) = rb_key (rb_nodes t a) \<and> rb_data (rb_nodes t' a) = rb_data (rb_nodes t a))"

lemma kept_trans: "kept t t' \<Longrightarrow> kept t' t'' \<Longrightarrow> kept t t''" by (simp add: kept_def)
lemma kept_refl [simp]: "kept t t" by (simp add: kept_def)
lemma kept_recol [simp]: "kept t (recol a b t') = kept t t'" "kept (recol a b t) t' = kept t t'"
  by (simp_all add: kept_def)

lemma rotated:
  "rb_sentinel t' = rb_sentinel t \<and> same_content (rb_nodes t) (rb_nodes t') \<Longrightarrow> kept t t' \<and> reds t' = reds t"
  by (simp add: kept_def reds_def same_content_def)

lemma rep_ptr:
  assumes "rep t (plug fs \<langle>l, a, r\<rangle>)"
  shows "rd rb_left (Some a) t = Some (rb_left (rb_nodes t a))" "rd rb_right (Some a) t = Some (rb_right (rb_nodes t a))"
    "is_tree (rb_sentinel t) (rb_nodes t) (Some a) (rb_left (rb_nodes t a)) l"
    "is_tree (rb_sentinel t) (rb_nodes t) (Some a) (rb_right (rb_nodes t a)) r" "rb_sentinel t \<noteq> Some a"
  using assms by (auto simp: rep_def is_tree_plug_Node rd_def)

lemma rep_child:
  "rep t (plug fs \<langle>\<langle>l, x, r\<rangle>, a, u\<rangle>) \<Longrightarrow> rd rb_left (Some a) t = Some (Some x) \<and> rd rb_parent (Some x) t = Some (Some a)"
  "rep t (plug fs \<langle>u, a, \<langle>l, x, r\<rangle>\<rangle>) \<Longrightarrow> rd rb_right (Some a) t = Some (Some x) \<and> rd rb_parent (Some x) t = Some (Some a)"
  by (auto simp: rep_def is_tree_plug_Node rd_def)

lemma rep_parent: "rep t (plug (f # fs) \<langle>l, x, r\<rangle>) \<Longrightarrow> rd rb_parent (Some x) t = Some (Some (fnode f))"
  by (cases f) (simp_all add: rep_child)

lemma is_tree_null: "is_tree s h par p T \<Longrightarrow> a \<in> set (inorder T) \<Longrightarrow> s \<noteq> Some a"
  by (induction s h par p T rule: is_tree.induct) auto

lemma rep_null: "rep t T \<Longrightarrow> rb_sentinel t = Some s \<Longrightarrow> s \<notin> set (inorder T)"
  using is_tree_null unfolding rep_def by metis

lemma last_addr: "fs \<noteq> [] \<Longrightarrow> fnode (last fs) \<in> faddr fs"
proof (induction fs)
  case (Cons f fs)
  then show ?case by (cases f) auto
qed simp

lemma last_upd [simp]: "a \<notin> faddr fs \<Longrightarrow> fs \<noteq> [] \<Longrightarrow> (c(a := v)) (fnode (last fs)) = c (fnode (last fs))"
  using last_addr by fastforce

lemma uncle_red:
  assumes "rb_sentinel t = Some s" "\<not> reds t s" "is_tree (Some s) (rb_nodes t) par p U"
  shows "rbtree_is_red p t = Some (redt (reds t) U)"
  using assms by (cases U) (auto simp: red_of)

text \<open>
  The red tree \<open>T\<close> may have a red parent; apart from that all is well.
\<close>

definition fixing :: "(nat \<Rightarrow> bool) \<Rightarrow> frame list \<Rightarrow> nat tree \<Rightarrow> bool" where
  "fixing c fs T \<longleftrightarrow> redt c T \<and> cinv c T \<and> hinv c T \<and> cok c fs (bh c T) \<and> (fs \<noteq> [] \<longrightarrow> \<not> c (fnode (last fs)))"

definition fixed_up :: "rbtree \<Rightarrow> nat \<Rightarrow> nat list \<Rightarrow> nat \<Rightarrow> (ptr \<times> rbtree) option \<Rightarrow> bool" where
  "fixed_up t s N k res \<longleftrightarrow> (\<exists>y t' fs l r. res = Some (Some y, t') \<and> rep t' (plug fs \<langle>l, y, r\<rangle>) \<and> kept t t'
     \<and> \<not> reds t' s \<and> inorder (plug fs \<langle>l, y, r\<rangle>) = N \<and> fixing (reds t') fs \<langle>l, y, r\<rangle> \<and> length fs < k)"

lemma fixed_upI:
  "rep t' (plug fs \<langle>l, y, r\<rangle>) \<Longrightarrow> kept t t' \<Longrightarrow> \<not> reds t' s \<Longrightarrow> inorder (plug fs \<langle>l, y, r\<rangle>) = N
   \<Longrightarrow> fixing (reds t') fs \<langle>l, y, r\<rangle> \<Longrightarrow> length fs < k \<Longrightarrow> fixed_up t s N k (Some (Some y, t'))"
  unfolding fixed_up_def by blast

lemma fixed_up_from: "fixed_up t' s N k res \<Longrightarrow> kept t t' \<Longrightarrow> fixed_up t s N k res"
  unfolding fixed_up_def using kept_trans by blast

lemmas upd_simps = fun_upd_other fun_upd_same

text \<open>The colours after each of the cases.\<close>

lemma colour_red:
  assumes "fixing c (f # FL g \<langle>ul, u, ur\<rangle> # fs) T" "c (fnode f)" "c u"
    and "distinct (inorder (plug (f # FL g \<langle>ul, u, ur\<rangle> # fs) T))"
  shows "fixing (c(fnode f := False, u := False, g := True)) fs (plug [f, FL g \<langle>ul, u, ur\<rangle>] T)"
proof -
  define p where "p = fnode f"
  have d: "p \<noteq> g" "p \<noteq> u" "u \<noteq> g" "p \<notin> faddr fs" "g \<notin> faddr fs" "u \<notin> faddr fs"
    "p \<notin> set (inorder T)" "g \<notin> set (inorder T)" "u \<notin> set (inorder T)"
    "p \<notin> set (inorder ul)" "g \<notin> set (inorder ul)" "u \<notin> set (inorder ul)"
    "p \<notin> set (inorder ur)" "g \<notin> set (inorder ur)" "u \<notin> set (inorder ur)"
    using assms(4) unfolding p_def by (cases f; auto simp: faddr_def)+
  have e: "p \<notin> set (inorder (sibling f))" "g \<notin> set (inorder (sibling f))" "u \<notin> set (inorder (sibling f))"
    using assms(4) unfolding p_def by (cases f; auto)+
  show ?thesis
  proof (cases f)
    case (FL a B)
    then show ?thesis
      using assms(1-3) d e unfolding fixing_def p_def by (simp del: fun_upd_apply add: upd_simps, simp split: if_splits)
  next
    case (FR B a)
    then show ?thesis
      using assms(1-3) d e unfolding fixing_def p_def by (simp del: fun_upd_apply add: upd_simps, simp split: if_splits)
  qed
qed

lemma colour_LL:
  assumes "fixing c (FL p B # FL g U # fs) T" "c p" "\<not> redt c U"
    and "distinct (inorder (plug (FL p B # FL g U # fs) T))"
  shows "fixing (c(p := False, g := True)) (FL p \<langle>B, g, U\<rangle> # fs) T"
proof -
  have "p \<noteq> g" "p \<notin> faddr fs" "g \<notin> faddr fs" "p \<notin> set (inorder T)" "g \<notin> set (inorder T)"
    "p \<notin> set (inorder B)" "g \<notin> set (inorder B)" "p \<notin> set (inorder U)" "g \<notin> set (inorder U)"
    using assms(4) by (auto simp: faddr_def)
  then show ?thesis using assms(1-3) unfolding fixing_def by (simp del: fun_upd_apply add: upd_simps, simp split: if_splits)
qed

lemma colour_LR:
  assumes "fixing c (FR A p # fs) \<langle>B, x, C\<rangle>" "c p"
  shows "fixing c (FL x C # fs) \<langle>A, p, B\<rangle>"
  using assms unfolding fixing_def by auto

text \<open>A red uncle: the colours change, and the next node is the grandparent.\<close>

lemma step_red:
  assumes "rep t (plug (f # FL g \<langle>ul, u, ur\<rangle> # fs) \<langle>l, x, r\<rangle>)" "rb_sentinel t = Some s" "\<not> reds t s"
    and "fixing (reds t) (f # FL g \<langle>ul, u, ur\<rangle> # fs) \<langle>l, x, r\<rangle>" "reds t (fnode f)" "reds t u"
  shows "fixed_up t s (inorder (plug (f # FL g \<langle>ul, u, ur\<rangle> # fs) \<langle>l, x, r\<rangle>)) (2 + length fs) (insert_fix_step (Some x) t)"
proof -
  let ?p = "fnode f" and ?U = "\<langle>ul, u, ur\<rangle>"
  obtain pl pr where P: "plug [f] \<langle>l, x, r\<rangle> = \<langle>pl, ?p, pr\<rangle>" by (cases f) auto
  then have P': "plug (f # fs') \<langle>l, x, r\<rangle> = plug fs' \<langle>pl, ?p, pr\<rangle>" for fs' by (cases f) auto
  have rep: "rep t (plug fs \<langle>\<langle>pl, ?p, pr\<rangle>, g, ?U\<rangle>)" using assms(1) unfolding P' by simp
  have "rd rb_parent (Some x) t = Some (Some ?p)" by (rule rep_parent [OF assms(1)])
  moreover note rep_child(1) [OF rep] rep_child(2) [OF rep]
  ultimately have run: "insert_fix_step (Some x) t = Some (Some g, recol g True (recol u False (recol ?p False t)))"
    by (simp add: insert_fix_step_def recol_run red_of assms(6))
  have d: "distinct (inorder (plug (f # FL g ?U # fs) \<langle>l, x, r\<rangle>))" using assms(1) by (simp add: rep_def)
  have s: "s \<noteq> ?p" "s \<noteq> g" "s \<noteq> u" using rep_null [OF rep assms(2)] by auto
  show ?thesis unfolding run
  proof (rule fixed_upI)
    show "fixing (reds (recol g True (recol u False (recol ?p False t)))) fs \<langle>\<langle>pl, ?p, pr\<rangle>, g, ?U\<rangle>"
      using colour_red [OF assms(4-6) d] unfolding P' by simp
    show "inorder (plug fs \<langle>\<langle>pl, ?p, pr\<rangle>, g, ?U\<rangle>) = inorder (plug (f # FL g ?U # fs) \<langle>l, x, r\<rangle>)"
      unfolding P' by simp
  qed (use rep s assms(3) in simp_all)
qed

text \<open>A black uncle: two changes of colour and a rotation, after another one if the node is an inner child.\<close>

definition insert_turn :: "ptr \<Rightarrow> rbtree \<Rightarrow> (ptr \<times> rbtree) option" where
  "insert_turn node t = do {
     p \<leftarrow> rd rb_parent node t;
     t \<leftarrow> rbtree_black p t;
     g \<leftarrow> rd rb_parent p t;
     t \<leftarrow> rbtree_red g t;
     t \<leftarrow> rightRotate g t;
     Some (node, t)
   }"

lemma step_LL:
  assumes "rep t (plug (FL p B # FL g U # fs) \<langle>l, x, r\<rangle>)" "rb_sentinel t = Some s" "\<not> reds t s"
    and "fixing (reds t) (FL p B # FL g U # fs) \<langle>l, x, r\<rangle>" "reds t p" "\<not> redt (reds t) U"
  shows "fixed_up t s (inorder (plug (FL p B # FL g U # fs) \<langle>l, x, r\<rangle>)) (2 + length fs) (insert_turn (Some x) t)"
proof -
  have rep: "rep t (plug fs \<langle>\<langle>\<langle>l, x, r\<rangle>, p, B\<rangle>, g, U\<rangle>)" using assms(1) by simp
  let ?t = "recol g True (recol p False t)"
  have "rep ?t (plug fs \<langle>\<langle>\<langle>l, x, r\<rangle>, p, B\<rangle>, g, U\<rangle>)" using rep by simp
  from rightRotate_rep [OF this] obtain t' where t': "rightRotate (Some g) ?t = Some t'"
    "rep t' (plug fs \<langle>\<langle>l, x, r\<rangle>, p, \<langle>B, g, U\<rangle>\<rangle>)" "rb_sentinel t' = rb_sentinel ?t \<and> same_content (rb_nodes ?t) (rb_nodes t')"
    by blast
  from rotated [OF t'(3)] have k: "kept t t'" "reds t' = (reds t)(p := False, g := True)" by simp_all
  have "rd rb_parent (Some x) t = Some (Some p)" using rep_parent [OF assms(1)] by simp
  moreover have "rd rb_parent (Some p) t = Some (Some g)" using rep_child(1) [OF rep] by simp
  ultimately have run: "insert_turn (Some x) t = Some (Some x, t')"
    by (simp add: insert_turn_def recol_run t'(1))
  have d: "distinct (inorder (plug (FL p B # FL g U # fs) \<langle>l, x, r\<rangle>))" using assms(1) by (simp add: rep_def)
  have s: "s \<noteq> p" "s \<noteq> g" using rep_null [OF rep assms(2)] by auto
  show ?thesis unfolding run
  proof (rule fixed_upI)
    show "fixing (reds t') (FL p \<langle>B, g, U\<rangle> # fs) \<langle>l, x, r\<rangle>"
      unfolding k using colour_LL [OF assms(4-6) d] .
  qed (use t'(2) k s assms(3) in simp_all)
qed

lemma step_left:
  assumes "rep t (plug (f # FL g U # fs) \<langle>l, x, r\<rangle>)" "rb_sentinel t = Some s" "\<not> reds t s"
    and "fixing (reds t) (f # FL g U # fs) \<langle>l, x, r\<rangle>" "reds t (fnode f)"
  shows "fixed_up t s (inorder (plug (f # FL g U # fs) \<langle>l, x, r\<rangle>)) (2 + length fs) (insert_fix_step (Some x) t)"
proof (cases "redt (reds t) U")
  case True
  then obtain ul u ur where U: "U = \<langle>ul, u, ur\<rangle>" "reds t u" by (cases U) auto
  show ?thesis using step_red [OF assms(1) [unfolded U(1)] assms(2,3) assms(4) [unfolded U(1)] assms(5) U(2)] U(1) by simp
next
  case black: False
  let ?p = "fnode f"
  have par: "rd rb_parent (Some x) t = Some (Some ?p)" by (rule rep_parent [OF assms(1)])
  obtain pl pr where P: "plug [f] \<langle>l, x, r\<rangle> = \<langle>pl, ?p, pr\<rangle>" by (cases f) auto
  then have rep: "rep t (plug fs \<langle>\<langle>pl, ?p, pr\<rangle>, g, U\<rangle>)" using assms(1) by (cases f) simp_all
  note g = rep_child(1) [OF rep] rep_ptr [OF rep]
  have red: "rbtree_is_red (rb_right (rb_nodes t g)) t = Some False"
    using uncle_red [OF assms(2,3)] g(5) assms(2) black by simp
  show ?thesis
  proof (cases f)
    case (FL p B)
    have "rep t (plug (FL g U # fs) \<langle>\<langle>l, x, r\<rangle>, p, B\<rangle>)" using assms(1) FL by simp
    note p = rep_ptr [OF this]
    have "x \<notin> set (inorder B)" "rb_sentinel t \<noteq> Some x"
      using assms(1) FL by (auto simp: rep_def is_tree_plug_Node)
    then have "rb_right (rb_nodes t p) \<noteq> Some x" using is_tree_not [OF p(4)] by simp
    then have "insert_fix_step (Some x) t = insert_turn (Some x) t"
      using par g p(2) red FL by (simp add: insert_fix_step_def insert_turn_def)
    then show ?thesis using step_LL [of t p B g U fs] assms FL black by simp
  next
    case (FR A p)
    have rep': "rep t (plug (FL g U # fs) \<langle>A, p, \<langle>l, x, r\<rangle>\<rangle>)" using assms(1) FR by simp
    from leftRotate_rep [OF this] obtain t' where t': "leftRotate (Some p) t = Some t'"
      "rep t' (plug (FL g U # fs) \<langle>\<langle>A, p, l\<rangle>, x, r\<rangle>)" "rb_sentinel t' = rb_sentinel t \<and> same_content (rb_nodes t) (rb_nodes t')"
      by blast
    from rotated [OF t'(3)] have k: "kept t t'" "reds t' = reds t" by simp_all
    have "insert_fix_step (Some x) t = insert_turn (Some p) t'"
      using par g rep_child(2) [OF rep'] red FR t'(1) by (simp add: insert_fix_step_def insert_turn_def)
    moreover have "fixing (reds t') (FL x r # FL g U # fs) \<langle>A, p, l\<rangle>" "reds t' x"
      using colour_LR [of "reds t" A p "FL g U # fs" l x r] assms(4) [unfolded FR] assms(5) FR
      unfolding k by (simp, simp add: fixing_def)
    ultimately have "fixed_up t' s (inorder (plug (FL x r # FL g U # fs) \<langle>A, p, l\<rangle>)) (2 + length fs) (insert_fix_step (Some x) t)"
      using step_LL [of t' x r g U fs A p l s] t' k assms(2,3) black by simp
    then show ?thesis using FR fixed_up_from [OF _ k(1)] by simp
  qed
qed

section \<open>The other side\<close>

lemma in_mir:
  "map_option f x \<bind> g = x \<bind> (\<lambda>y. g (f y))" "map_option k (z \<bind> h) = z \<bind> (\<lambda>y. map_option k (h y))"
  "Option.bind (if b then u else v) e = (if b then u \<bind> e else v \<bind> e)"
  "map_option m (if d then p else q) = (if d then map_option m p else map_option m q)"
  by (cases x, simp_all) (cases z, simp_all)

lemmas rotate_mir = leftRotate_mir rightRotate_mir

lemma step_mir:
  assumes "rd rb_parent node t = Some p" "rd rb_parent p t = Some g" "rd rb_left g t = Some gl" "rd rb_right g t = Some gr"
    and "(p = gl) \<noteq> (p = gr)"
  shows "insert_fix_step node (mir t) = map_option (apsnd mir) (insert_fix_step node t)"
  using assms by (auto simp: insert_fix_step_def rbtree_is_red_def in_mir rotate_mir cong: if_cong)

lemma kept_mir [simp]: "kept (mir t) (mir t') = kept t t'"
  by (simp add: kept_def)

lemma reds_mir [simp]: "reds (mir t) = reds t" by (simp add: reds_def)

lemma fnode_last_mframe: "fs \<noteq> [] \<Longrightarrow> fnode (last (map mframe fs)) = fnode (last fs)"
  by (simp add: last_map mirror_frames)

lemma fixing_mirror: "fixing c fs T \<Longrightarrow> fixing c (map mframe fs) (mirror T)"
  by (auto simp: fixing_def mirror_colour cok_mirror fnode_last_mframe)

lemma fixed_up_mir:
  assumes "fixed_up (mir t) s (rev N) k (map_option (apsnd mir) res)"
  shows "fixed_up t s N k res"
proof -
  obtain y t' fs l r where f: "map_option (apsnd mir) res = Some (Some y, t')" "rep t' (plug fs \<langle>l, y, r\<rangle>)" "kept (mir t) t'"
    "\<not> reds t' s" "inorder (plug fs \<langle>l, y, r\<rangle>) = rev N" "fixing (reds t') fs \<langle>l, y, r\<rangle>" "length fs < k"
    using assms unfolding fixed_up_def by blast
  have "res = Some (Some y, mir t')" using f(1) by (cases res) auto
  moreover have "fixed_up t s N k (Some (Some y, mir t'))"
  proof (rule fixed_upI)
    show "rep (mir t') (plug (map mframe fs) \<langle>mirror r, y, mirror l\<rangle>)"
      using f(2) by (simp add: rep_mir mirror_plug)
    show "kept t (mir t')" using f(3) kept_mir [of "mir t" t'] by simp
    have "inorder (mirror (plug fs \<langle>l, y, r\<rangle>)) = N" using f(5) by (simp only: inorder_mirror rev_rev_ident)
    then show "inorder (plug (map mframe fs) \<langle>mirror r, y, mirror l\<rangle>) = N" by (simp add: mirror_plug)
    show "fixing (reds (mir t')) (map mframe fs) \<langle>mirror r, y, mirror l\<rangle>"
      using fixing_mirror [OF f(6)] by simp
  qed (use f(4,7) in simp_all)
  ultimately show ?thesis by simp
qed

text \<open>One turn of the loop keeps the order and moves the red node towards the root.\<close>

lemma step_any:
  assumes "rep t (plug (f # f' # fs) \<langle>l, x, r\<rangle>)" "rb_sentinel t = Some s" "\<not> reds t s"
    and "fixing (reds t) (f # f' # fs) \<langle>l, x, r\<rangle>" "reds t (fnode f)"
  shows "fixed_up t s (inorder (plug (f # f' # fs) \<langle>l, x, r\<rangle>)) (2 + length fs) (insert_fix_step (Some x) t)"
proof (cases f')
  case (FL g U)
  with step_left assms show ?thesis by simp
next
  case (FR U g)
  obtain pl pr where P: "plug [f] \<langle>l, x, r\<rangle> = \<langle>pl, fnode f, pr\<rangle>" by (cases f) auto
  then have rep: "rep t (plug fs \<langle>U, g, \<langle>pl, fnode f, pr\<rangle>\<rangle>)" using assms(1) FR by (cases f) simp_all
  have "is_tree (Some s) (rb_nodes t) (Some g) (rb_left (rb_nodes t g)) U" "fnode f \<notin> set (inorder U)" "s \<noteq> fnode f"
    using rep assms(2) by (auto simp: rep_def is_tree_plug_Node)
  then have "rb_left (rb_nodes t g) \<noteq> Some (fnode f)" using is_tree_not by fastforce
  then have m: "insert_fix_step (Some x) (mir t) = map_option (apsnd mir) (insert_fix_step (Some x) t)"
    using rep_child(2) [OF rep] rep_ptr [OF rep]
    by (intro step_mir [OF rep_parent [OF assms(1)]]) (auto simp: rd_def)
  have "rep (mir t) (plug (mframe f # FL g (mirror U) # map mframe fs) \<langle>mirror r, x, mirror l\<rangle>)"
    using assms(1) FR mirror_plug [of "f # f' # fs" "\<langle>l, x, r\<rangle>"] unfolding rep_mir
    by (simp add: mirror_plug)
  from step_left [OF this, of s]
  have "fixed_up (mir t) s (inorder (mirror (plug (f # f' # fs) \<langle>l, x, r\<rangle>))) (2 + length fs) (insert_fix_step (Some x) (mir t))"
    using assms(2,3,5) fixing_mirror [OF assms(4)] FR by (simp add: mirror_frames mirror_plug)
  then show ?thesis unfolding m inorder_mirror by (rule fixed_up_mir)
qed

text \<open>The whole loop.\<close>

lemma insert_fix_rep:
  assumes "rep t (plug fs \<langle>l, x, r\<rangle>)" "rb_sentinel t = Some s" "\<not> reds t s" "fixing (reds t) fs \<langle>l, x, r\<rangle>"
  shows "\<exists>t' T. insert_fix (Some x) t = Some t' \<and> rep t' T \<and> kept t t' \<and> \<not> reds t' s
    \<and> inorder T = inorder (plug fs \<langle>l, x, r\<rangle>) \<and> cinv (reds t') T \<and> hinv (reds t') T \<and> \<not> redt (reds t') T"
  using assms
proof (induction "length fs" arbitrary: fs l x r t rule: less_induct)
  case less
  note rep = less.prems(1) and s = less.prems(2,3) and f = less.prems(4)
  show ?case
  proof (cases fs)
    case Nil
    with rep have root: "rb_root t = Some x" by (simp add: rep_def)
    then have "insert_fix (Some x) t = Some (recol x False t)" by (subst insert_fix.simps) (simp add: recol_run)
    moreover have "x \<notin> set (inorder l)" "x \<notin> set (inorder r)" "s \<noteq> x"
      using rep rep_null [OF rep s(1)] Nil by (auto simp: rep_def)
    ultimately show ?thesis using rep s f Nil
      by (intro exI [of _ "recol x False t"] exI [of _ "\<langle>l, x, r\<rangle>"])
        (simp add: fixing_def del: fun_upd_apply add: upd_simps)
  next
    case (Cons f' fs')
    let ?p = "fnode f'"
    have par: "rd rb_parent (Some x) t = Some (Some ?p)" using rep_parent rep Cons by blast
    have "x \<notin> faddr fs" using rep by (auto simp: rep_def faddr_def)
    moreover have "ctx (rb_sentinel t) (rb_nodes t) (rb_root t) fs (rb_parent (rb_nodes t x)) (Some x)"
      using rep by (simp add: rep_def is_tree_plug_Node)
    ultimately have "rb_root t \<noteq> Some x" using ctx_root Cons by fastforce
    then have run: "insert_fix (Some x) t = (if reds t ?p then do { (node, t) \<leftarrow> insert_fix_step (Some x) t; insert_fix node t }
        else rbtree_black (rb_root t) t)"
      by (subst insert_fix.simps) (use par in \<open>simp add: red_of\<close>)
    show ?thesis
    proof (cases "reds t ?p")
      case False
      obtain L a R where T: "plug fs \<langle>l, x, r\<rangle> = \<langle>L, a, R\<rangle>" by (cases "plug fs \<langle>l, x, r\<rangle>") (use plug_not_Leaf in auto)
      have "\<not> redt (reds t) (plug fs \<langle>l, x, r\<rangle>)" using f Cons by (simp add: redt_plug fixing_def)
      then have "\<not> reds t a" unfolding T by simp
      then have "reds (recol a False t) = reds t" by (simp add: fun_upd_idem)
      moreover have "cinv (reds t) (plug fs \<langle>l, x, r\<rangle>) \<and> hinv (reds t) (plug fs \<langle>l, x, r\<rangle>)"
        unfolding colour_plug using f False Cons unfolding fixing_def by auto
      moreover have "rb_root t = Some a" using rep unfolding T rep_def by simp
      moreover have "insert_fix (Some x) t = Some (recol a False t)" using run False calculation(3) by (simp add: recol_run)
      ultimately show ?thesis using rep s \<open>\<not> redt (reds t) (plug fs \<langle>l, x, r\<rangle>)\<close>
        by (intro exI [of _ "recol a False t"] exI [of _ "plug fs \<langle>l, x, r\<rangle>"]) (simp del: inorder_plug)
    next
      case True
      then have "fs' \<noteq> []" using f Cons by (auto simp: fixing_def)
      then obtain f'' gs where gs: "fs' = f'' # gs" by (cases fs') auto
      from step_any [of t f' f'' gs l x r s] rep s f True Cons gs
      have "fixed_up t s (inorder (plug fs \<langle>l, x, r\<rangle>)) (length fs) (insert_fix_step (Some x) t)" by simp
      then obtain y t1 hs l' r' where t1: "insert_fix_step (Some x) t = Some (Some y, t1)" "rep t1 (plug hs \<langle>l', y, r'\<rangle>)"
        "kept t t1" "\<not> reds t1 s" "inorder (plug hs \<langle>l', y, r'\<rangle>) = inorder (plug fs \<langle>l, x, r\<rangle>)"
        "fixing (reds t1) hs \<langle>l', y, r'\<rangle>" "length hs < length fs" unfolding fixed_up_def by blast
      have "rb_sentinel t1 = Some s" using t1(3) s(1) by (simp add: kept_def)
      from less.hyps [OF t1(7,2) this t1(4,6)] obtain t' T where T: "insert_fix (Some y) t1 = Some t'" "rep t' T" "kept t1 t'"
        "\<not> reds t' s" "inorder T = inorder (plug hs \<langle>l', y, r'\<rangle>)" "cinv (reds t') T" "hinv (reds t') T" "\<not> redt (reds t') T" by blast
      moreover have "kept t t'" using t1(3) T(3) by (rule kept_trans)
      moreover have "insert_fix (Some x) t = Some t'" using run True t1(1) T(1) by simp
      ultimately show ?thesis using t1(5) by metis
    qed
  qed
qed

section \<open>Insertion\<close>

definition is_FL :: "frame \<Rightarrow> bool" where
  "is_FL f \<longleftrightarrow> (case f of FL a r \<Rightarrow> True | FR l a \<Rightarrow> False)"

definition around :: "rbtree \<Rightarrow> int \<Rightarrow> frame list \<Rightarrow> bool" where
  "around t k fs \<longleftrightarrow> (\<forall>a\<in>set (pre fs). rb_key (rb_nodes t a) \<le> k) \<and> (\<forall>a\<in>set (post fs). k < rb_key (rb_nodes t a))"

lemma insert_descend_rep:
  assumes "rep t (plug fs T)" "sorted (keys t (plug fs T))" "around t k fs" "T \<noteq> \<langle>\<rangle>"
    and "is_tree (rb_sentinel t) (rb_nodes t) par p T"
  shows "\<exists>f fs'. insert_descend k p t = Some (Some (fnode f), is_FL f) \<and> plug (f # fs') \<langle>\<rangle> = plug fs T \<and> around t k (f # fs')"
  using assms
proof (induction T arbitrary: fs par p)
  case (Node l a r)
  have p: "p = Some a" "is_tree (rb_sentinel t) (rb_nodes t) (Some a) (rb_left (rb_nodes t a)) l"
    "is_tree (rb_sentinel t) (rb_nodes t) (Some a) (rb_right (rb_nodes t a)) r" using Node.prems(5) by auto
  have srt: "\<forall>b\<in>set (inorder l). rb_key (rb_nodes t b) \<le> rb_key (rb_nodes t a)"
    "\<forall>b\<in>set (inorder r). rb_key (rb_nodes t a) \<le> rb_key (rb_nodes t b)"
    using Node.prems(2) by (auto simp: keys_def sorted_append)
  show ?case
  proof (cases "k < rb_key (rb_nodes t a)")
    case True
    then have ar: "around t k (FL a r # fs)" using Node.prems(3) srt by (fastforce simp: around_def)
    show ?thesis
    proof (cases "l = \<langle>\<rangle>")
      case l: True
      then have "insert_descend k p t = Some (Some a, True)"
        using p True by (subst insert_descend.simps) (simp add: rd_def)
      then show ?thesis using ar l by (intro exI [of _ "FL a r"] exI [of _ fs]) (simp add: is_FL_def)
    next
      case False
      then have "rb_left (rb_nodes t a) \<noteq> rb_sentinel t" using is_tree_sentinel [OF p(2)] by simp
      then have "insert_descend k p t = insert_descend k (rb_left (rb_nodes t a)) t"
        using p True by (subst insert_descend.simps) (simp add: rd_def)
      then show ?thesis using Node.IH(1) [of "FL a r # fs"] Node.prems(1,2) ar False p(2) by simp
    qed
  next
    case nl: False
    then have ar: "around t k (FR l a # fs)" using Node.prems(3) srt by (fastforce simp: around_def)
    show ?thesis
    proof (cases "r = \<langle>\<rangle>")
      case r: True
      then have "insert_descend k p t = Some (Some a, False)"
        using p nl by (subst insert_descend.simps) (simp add: rd_def)
      then show ?thesis using ar r by (intro exI [of _ "FR l a"] exI [of _ fs]) (simp add: is_FL_def)
    next
      case False
      then have "rb_right (rb_nodes t a) \<noteq> rb_sentinel t" using is_tree_sentinel [OF p(3)] by simp
      then have "insert_descend k p t = insert_descend k (rb_right (rb_nodes t a)) t"
        using p nl by (subst insert_descend.simps) (simp add: rd_def)
      then show ?thesis using Node.IH(2) [of "FR l a # fs"] Node.prems(1,2) ar False p(3) by simp
    qed
  qed
qed simp

text \<open>A good tree: in order, with the colours right, over a black sentinel.\<close>

definition rb_ok :: "rbtree \<Rightarrow> nat tree \<Rightarrow> bool" where
  "rb_ok t T \<longleftrightarrow> rep t T \<and> sorted (keys t T) \<and> cinv (reds t) T \<and> hinv (reds t) T \<and> \<not> redt (reds t) T
     \<and> (case rb_sentinel t of None \<Rightarrow> False | Some s \<Rightarrow> \<not> reds t s)"

text \<open>Linking the new node below the frame \<open>f\<close>.\<close>

definition linked :: "nat \<Rightarrow> nat \<Rightarrow> bool \<Rightarrow> rbtree \<Rightarrow> rbtree" where
  "linked n q lft t = (let h = (rb_nodes t)(q := (if lft then (rb_nodes t q)\<lparr>rb_left := Some n\<rparr> else (rb_nodes t q)\<lparr>rb_right := Some n\<rparr>))
     in t\<lparr>rb_nodes := h(n := (h n)\<lparr>rb_parent := Some q, rb_left := rb_sentinel t, rb_right := rb_sentinel t, rb_red := True\<rparr>)\<rparr>)"

lemma rb_insert_run:
  assumes "rb_root t \<noteq> rb_sentinel t" "insert_descend (rb_key (rb_nodes t n)) (rb_root t) t = Some (Some q, b)" "n \<noteq> q"
  shows "rb_insert n t = insert_fix (Some n) (linked n q b t)"
  using assms by (cases b) (simp_all add: rb_insert_def rd_def wr_def rbtree_red_def linked_def Let_def)

lemma linked_rep:
  assumes "rep t (plug (f # fs) \<langle>\<rangle>)" "n \<notin> set (inorder (plug (f # fs) \<langle>\<rangle>))" "rb_sentinel t = Some s" "n \<noteq> s"
  shows "rep (linked n (fnode f) (is_FL f) t) (plug (f # fs) \<langle>\<langle>\<rangle>, n, \<langle>\<rangle>\<rangle>)"
proof -
  have n: "n \<notin> faddr (f # fs)" using assms(2) by (auto simp: faddr_def)
  have d: "distinct (inorder (plug (f # fs) \<langle>\<langle>\<rangle>, n, \<langle>\<rangle>\<rangle>))" using assms(1,2) by (auto simp: rep_def)
  have c: "\<exists>par. ctx (Some s) (rb_nodes t) (rb_root t) (f # fs) par (Some s)"
    using assms(1,3) by (auto simp: rep_def is_tree_plug)
  have "ctx (Some s) (rb_nodes (linked n (fnode f) (is_FL f) t)) (rb_root t) (f # fs) (Some (fnode f)) (Some n)"
  proof (cases f)
    case (FL q r)
    have "q \<notin> set (inorder r)" "q \<notin> faddr fs" using d FL by (auto simp: faddr_def)
    then show ?thesis using c n FL by (auto simp: linked_def is_FL_def Let_def simp del: fun_upd_apply simp: upd_simps)
  next
    case (FR l q)
    have "q \<notin> set (inorder l)" "q \<notin> faddr fs" using d FR by (auto simp: faddr_def)
    then show ?thesis using c n FR by (auto simp: linked_def is_FL_def Let_def simp del: fun_upd_apply simp: upd_simps)
  qed
  then show ?thesis using d assms(3,4) unfolding rep_def is_tree_plug_Node
    by (simp add: linked_def Let_def)
qed

lemma linked_simps:
  assumes "n \<noteq> q"
  shows "reds (linked n q b t) = (reds t)(n := True)" "kept t (linked n q b t)"
  using assms by (auto simp: reds_def linked_def kept_def fun_eq_iff Let_def)

lemma keys_kept: "kept t t' \<Longrightarrow> keys t' T = keys t T"
  by (simp add: kept_def keys_def)

lemma split_filter:
  assumes "\<forall>a\<in>set xs. P a" "\<forall>a\<in>set ys. \<not> P a"
  shows "filter P (xs @ ys) = xs" "filter (\<lambda>a. \<not> P a) (xs @ ys) = ys"
proof -
  show "filter P (xs @ ys) = xs" using assms by (simp add: filter_id_conv filter_False)
  show "filter (\<lambda>a. \<not> P a) (xs @ ys) = ys" using assms by (simp add: filter_id_conv filter_False)
qed

lemma rb_insert_empty:
  assumes "rb_ok t \<langle>\<rangle>" "rb_sentinel t = Some s" "s \<noteq> n"
  shows "\<exists>t'. rb_insert n t = Some t' \<and> rb_ok t' \<langle>\<langle>\<rangle>, n, \<langle>\<rangle>\<rangle> \<and> kept t t'"
proof -
  have "rb_root t = Some s" using assms(1,2) by (simp add: rb_ok_def rep_def)
  then show ?thesis using assms
    by (simp add: rb_insert_def rd_def wr_def rbtree_black_def rb_ok_def rep_def keys_def kept_def reds_def Let_def)
qed

lemma rb_insert_rep:
  assumes "rb_ok t T" "n \<notin> set (inorder T)" "rb_sentinel t \<noteq> Some n"
  shows "\<exists>t' T'. rb_insert n t = Some t' \<and> rb_ok t' T'
    \<and> inorder T' = filter (\<lambda>a. rb_key (rb_nodes t a) \<le> rb_key (rb_nodes t n)) (inorder T) @ n
        # filter (\<lambda>a. \<not> rb_key (rb_nodes t a) \<le> rb_key (rb_nodes t n)) (inorder T)
    \<and> kept t t'"
proof -
  let ?k = "\<lambda>a. rb_key (rb_nodes t a)"
  obtain s where s: "rb_sentinel t = Some s" "\<not> reds t s" "s \<noteq> n"
    using assms(1,3) by (cases "rb_sentinel t") (auto simp: rb_ok_def)
  show ?thesis
  proof (cases "T = \<langle>\<rangle>")
    case True
    with rb_insert_empty [OF _ s(1,3)] assms(1) obtain t' where "rb_insert n t = Some t'" "rb_ok t' \<langle>\<langle>\<rangle>, n, \<langle>\<rangle>\<rangle>" "kept t t'"
      by blast
    with True show ?thesis by (intro exI [of _ t'] exI [of _ "\<langle>\<langle>\<rangle>, n, \<langle>\<rangle>\<rangle>"]) simp
  next
    case False
    obtain par where t: "rep t T" "sorted (keys t T)" "cinv (reds t) T" "hinv (reds t) T" "\<not> redt (reds t) T"
      "is_tree (rb_sentinel t) (rb_nodes t) par (rb_root t) T"
      using assms(1) by (auto simp: rb_ok_def rep_def)
    from insert_descend_rep [of t "[]" T "?k n" par "rb_root t"] t False
    have "\<exists>f fs. insert_descend (?k n) (rb_root t) t = Some (Some (fnode f), is_FL f)
      \<and> plug (f # fs) \<langle>\<rangle> = T \<and> around t (?k n) (f # fs)" by (simp add: around_def)
    then obtain f fs where f: "insert_descend (?k n) (rb_root t) t = Some (Some (fnode f), is_FL f)"
      "plug (f # fs) \<langle>\<rangle> = T" "around t (?k n) (f # fs)" by blast
    let ?u = "linked n (fnode f) (is_FL f) t" and ?fs = "f # fs"
    have order: "inorder T = pre ?fs @ post ?fs" using f(2) inorder_plug [of ?fs "\<langle>\<rangle>"] by simp
    have "fnode f \<in> faddr ?fs" by (cases f) auto
    then have n: "n \<notin> faddr ?fs" "n \<noteq> fnode f" using assms(2) order by (auto simp: faddr_def)
    have "rb_root t \<noteq> rb_sentinel t" using is_tree_sentinel [OF t(6)] False by simp
    from rb_insert_run [OF this f(1) n(2)] have run: "rb_insert n t = insert_fix (Some n) ?u" .
    have rep: "rep ?u (plug ?fs \<langle>\<langle>\<rangle>, n, \<langle>\<rangle>\<rangle>)" using linked_rep [of t f fs n s] t(1) f(2) assms(2) s by simp
    note u = linked_simps [OF n(2), where b = "is_FL f" and t = t]
    have "cok (reds t) ?fs 0" "\<not> reds t (fnode (last ?fs))"
      using colour_plug [of "reds t" ?fs "\<langle>\<rangle>"] redt_plug [of "reds t" ?fs "\<langle>\<rangle>"] t(3-5) f(2) by auto
    then have "fixing (reds ?u) ?fs \<langle>\<langle>\<rangle>, n, \<langle>\<rangle>\<rangle>"
      unfolding fixing_def u(1) using n(1) by (simp del: fun_upd_apply cok.simps faddr_simps last.simps add: upd_simps)
    moreover have "rb_sentinel ?u = Some s" "\<not> reds ?u s" using u(2) s by (simp_all add: kept_def u(1))
    ultimately obtain t' T' where t': "insert_fix (Some n) ?u = Some t'" "rep t' T'" "kept ?u t'" "\<not> reds t' s"
      "inorder T' = inorder (plug ?fs \<langle>\<langle>\<rangle>, n, \<langle>\<rangle>\<rangle>)" "cinv (reds t') T'" "hinv (reds t') T'" "\<not> redt (reds t') T'"
      using insert_fix_rep [OF rep] by blast
    have k: "kept t t'" using u(2) t'(3) by (rule kept_trans)
    have o: "inorder T' = pre ?fs @ n # post ?fs" using t'(5) by simp
    have "sorted (keys t' T')"
      using t(2) f(3) unfolding keys_kept [OF k] unfolding keys_def o order around_def
      by (auto simp: sorted_append intro: less_imp_le)
    moreover have "rb_sentinel t' = Some s" using k s(1) by (simp add: kept_def)
    ultimately have "rb_ok t' T'" using t'(2,4,6-8) by (simp add: rb_ok_def)
    moreover have "filter (\<lambda>a. ?k a \<le> ?k n) (inorder T) = pre ?fs" "filter (\<lambda>a. \<not> ?k a \<le> ?k n) (inorder T) = post ?fs"
      unfolding order using f(3) split_filter [of "pre ?fs" "\<lambda>a. ?k a \<le> ?k n" "post ?fs"] by (auto simp: around_def not_le)
    ultimately show ?thesis using run t'(1) o k by auto
  qed
qed

text \<open>A good tree is balanced.\<close>

lemma height_bh: "cinv c T \<Longrightarrow> hinv c T \<Longrightarrow> height T \<le> 2 * bh c T + (if redt c T then 1 else 0)"
  by (induction T) (auto split: if_splits)

lemma size_bh: "hinv c T \<Longrightarrow> 2 ^ bh c T \<le> size1 T"
  by (induction T) auto

lemma colours_balanced:
  assumes "cinv c T" "hinv c T" "\<not> redt c T"
  shows "2 ^ height T \<le> (length (inorder T) + 1) ^ 2"
proof -
  have h: "height T \<le> 2 * bh c T" and z: "(2::nat) ^ bh c T \<le> length (inorder T) + 1"
    using height_bh [of c T] size_bh [of c T] assms by (auto simp: size1_size)
  have "(2::nat) ^ height T \<le> 2 ^ (2 * bh c T)" using h by (intro power_increasing) simp_all
  also have "\<dots> = (2 ^ bh c T) ^ 2" by (rule power_even_eq)
  also have "\<dots> \<le> (length (inorder T) + 1) ^ 2" using z by (rule power_mono) simp
  finally show ?thesis .
qed

lemma balanced: "rb_ok t T \<Longrightarrow> 2 ^ height T \<le> (length (inorder T) + 1) ^ 2"
  using colours_balanced by (auto simp: rb_ok_def)

section \<open>Properties\<close>

text \<open>C28. Inserting a new node into a good tree (in order, red nodes with black children, as many
  black nodes on every path, over a black sentinel) follows no null pointer and ends; the result
  is again such a tree, with the new node behind the nodes whose keys are not greater and before
  the others, all keys and data unchanged, and a height of at most twice the logarithm of its size.\<close>
theorem insert_correct:
  assumes "rb_ok t T" "n \<notin> set (inorder T)" "rb_sentinel t \<noteq> Some n"
  shows "\<exists>t' T'. rb_insert n t = Some t' \<and> rb_ok t' T' \<and> kept t t' \<and> 2 ^ height T' \<le> (length (inorder T) + 2) ^ 2
    \<and> inorder T' = filter (\<lambda>a. rb_key (rb_nodes t a) \<le> rb_key (rb_nodes t n)) (inorder T) @ n
        # filter (\<lambda>a. \<not> rb_key (rb_nodes t a) \<le> rb_key (rb_nodes t n)) (inorder T)"
proof -
  obtain t' T' where t': "rb_insert n t = Some t'" "rb_ok t' T'" "kept t t'"
    "inorder T' = filter (\<lambda>a. rb_key (rb_nodes t a) \<le> rb_key (rb_nodes t n)) (inorder T) @ n
        # filter (\<lambda>a. \<not> rb_key (rb_nodes t a) \<le> rb_key (rb_nodes t n)) (inorder T)"
    using rb_insert_rep [OF assms] by blast
  have "length (inorder T') = length (inorder T) + 1" unfolding t'(4)
    using sum_length_filter_compl [of "\<lambda>a. rb_key (rb_nodes t a) \<le> rb_key (rb_nodes t n)" "inorder T"] by simp
  with balanced [OF t'(2)] t' show ?thesis by auto
qed

text \<open>The node 7 has the key 0 in the heap of the example.\<close>

theorem insert_correct_witness:
  "\<exists>t' T'. rb_insert 7 demo_tree = Some t' \<and> rb_ok t' T' \<and> inorder T' = [7, 1, 2, 3, 5, 4, 6]"
proof -
  let ?T = "\<langle>\<langle>\<langle>\<langle>\<rangle>, 1, \<langle>\<rangle>\<rangle>, 2, \<langle>\<rangle>\<rangle>, 3, \<langle>\<langle>\<langle>\<rangle>, 5, \<langle>\<rangle>\<rangle>, 4, \<langle>\<langle>\<rangle>, 6, \<langle>\<rangle>\<rangle>\<rangle>\<rangle> :: nat tree"
  have "rb_ok demo_tree ?T"
    unfolding rb_ok_def by (intro conjI, rule demo_tree_rep, simp_all add: keys_def reds_def demo_tree_def rbnode_new_def)
  moreover have "7 \<notin> set (inorder ?T)" "rb_sentinel demo_tree \<noteq> Some 7" by (simp_all add: demo_tree_def)
  ultimately obtain t' T' where t': "rb_insert 7 demo_tree = Some t'" "rb_ok t' T'"
    "inorder T' = filter (\<lambda>a. rb_key (rb_nodes demo_tree a) \<le> rb_key (rb_nodes demo_tree 7)) (inorder ?T) @ 7
        # filter (\<lambda>a. \<not> rb_key (rb_nodes demo_tree a) \<le> rb_key (rb_nodes demo_tree 7)) (inorder ?T)"
    using insert_correct [of demo_tree ?T 7] by blast
  have "inorder T' = [7, 1, 2, 3, 5, 4, 6]" unfolding t'(3) by (simp add: demo_tree_def rbnode_new_def)
  with t'(1,2) show ?thesis by blast
qed

text \<open>Insertions in a row.\<close>

fun rb_inserts :: "nat list \<Rightarrow> rbtree \<Rightarrow> rbtree option" where
  "rb_inserts [] t = Some t"
| "rb_inserts (n # ns) t = do { t \<leftarrow> rb_insert n t; rb_inserts ns t }"

lemma keys_insert:
  assumes "inorder T' = filter P (inorder T) @ n # filter (\<lambda>a. \<not> P a) (inorder T)"
  shows "set (inorder T') = insert n (set (inorder T))" "mset (keys t T') = add_mset (rb_key (rb_nodes t n)) (mset (keys t T))"
proof -
  show "set (inorder T') = insert n (set (inorder T))" unfolding assms by auto
  have "mset (inorder T') = add_mset n (mset (inorder T))"
    unfolding assms using multiset_partition [of "mset (inorder T)" P] by simp
  then show "mset (keys t T') = add_mset (rb_key (rb_nodes t n)) (mset (keys t T))" by (simp add: keys_def)
qed

lemma rb_inserts_rep:
  assumes "rb_ok t T" "distinct ns" "set ns \<inter> set (inorder T) = {}" "rb_sentinel t = Some s" "s \<notin> set ns"
  shows "\<exists>t' T'. rb_inserts ns t = Some t' \<and> rb_ok t' T' \<and> kept t t' \<and> set (inorder T') = set (inorder T) \<union> set ns
    \<and> mset (keys t T') = mset (keys t T) + mset (map (\<lambda>a. rb_key (rb_nodes t a)) ns)"
  using assms
proof (induction ns arbitrary: t T)
  case (Cons n ns)
  have "n \<notin> set (inorder T)" "rb_sentinel t \<noteq> Some n" using Cons.prems by auto
  from rb_insert_rep [OF Cons.prems(1) this] obtain t1 T1 where t1: "rb_insert n t = Some t1" "rb_ok t1 T1" "kept t t1"
    "inorder T1 = filter (\<lambda>a. rb_key (rb_nodes t a) \<le> rb_key (rb_nodes t n)) (inorder T) @ n
        # filter (\<lambda>a. \<not> rb_key (rb_nodes t a) \<le> rb_key (rb_nodes t n)) (inorder T)" by blast
  note k = keys_insert [OF t1(4)]
  have key: "rb_key (rb_nodes t1 a) = rb_key (rb_nodes t a)" and "rb_sentinel t1 = Some s" for a
    using t1(3) Cons.prems(4) by (simp_all add: kept_def)
  moreover have "set ns \<inter> set (inorder T1) = {}" using k(1) Cons.prems(1-3) by (auto simp: rb_ok_def)
  ultimately obtain t' T' where t': "rb_inserts ns t1 = Some t'" "rb_ok t' T'" "kept t1 t'"
    "set (inorder T') = set (inorder T1) \<union> set ns"
    "mset (keys t1 T') = mset (keys t1 T1) + mset (map (\<lambda>a. rb_key (rb_nodes t1 a)) ns)"
    using Cons.IH [OF t1(2)] Cons.prems(2,5) by auto
  moreover have "set (inorder T') = set (inorder T) \<union> set (n # ns)" unfolding t'(4) k(1) by simp
  moreover have "mset (keys t T') = mset (keys t T) + mset (map (\<lambda>a. rb_key (rb_nodes t a)) (n # ns))"
    using t'(5) by (simp add: k(2) keys_kept [OF t1(3)] key)
  ultimately show ?case using t1(1) t'(1,2) kept_trans [OF t1(3) t'(3)] by auto
qed auto

text \<open>C31. A tree that the constructor with a sentinel makes sorts: inserting any different nodes in
  any order never crashes and ends with a balanced tree whose keys are those of the nodes in
  order, whatever the nodes held before, and its smallest and largest node are found.\<close>
theorem insertions_sort:
  assumes "rbtree_with s h = Some t" "distinct ns" "s \<notin> set ns"
  shows "\<exists>t' T. rb_inserts ns t = Some t' \<and> rb_ok t' T \<and> set (inorder T) = set ns \<and> keys t' T = sort (map (\<lambda>a. rb_key (h a)) ns)
    \<and> 2 ^ height T \<le> (length ns + 1) ^ 2 \<and> (ns \<noteq> [] \<longrightarrow> rb_min t' = Some (Some (hd (inorder T))) \<and> rb_max t' = Some (Some (last (inorder T))))"
proof -
  have t: "rb_ok t \<langle>\<rangle>" "rb_sentinel t = Some s" "\<And>a. rb_key (rb_nodes t a) = rb_key (h a)"
    using assms(1) by (auto simp: rbtree_with_def rbtree_black_def wr_def rb_ok_def rep_def keys_def reds_def)
  obtain t' T where t': "rb_inserts ns t = Some t'" "rb_ok t' T" "kept t t'" "set (inorder T) = set ns"
    "mset (keys t T) = mset (map (\<lambda>a. rb_key (h a)) ns)"
    using rb_inserts_rep [OF t(1) assms(2) _ t(2) assms(3)] by (auto simp: keys_def t(3))
  have rep: "rep t' T" "sorted (keys t' T)" "distinct (inorder T)" using t'(2) by (simp_all add: rb_ok_def rep_def)
  have "keys t' T = sort (map (\<lambda>a. rb_key (h a)) ns)"
    using t'(5) rep(2) by (simp add: keys_kept [OF t'(3)] properties_for_sort)
  moreover have "length (inorder T) = length ns"
    using distinct_card [OF rep(3)] distinct_card [OF assms(2)] t'(4) by simp
  moreover have "T \<noteq> \<langle>\<rangle>" if "ns \<noteq> []" using that t'(4) by auto
  ultimately show ?thesis using t' balanced [OF t'(2)] rb_min_rep [OF rep(1)] rb_max_rep [OF rep(1)] by auto
qed

theorem insertions_sort_witness:
  "\<exists>t t' T. rbtree_with 0 (\<lambda>a. rbnode_new\<lparr>rb_key := 10 - int a\<rparr>) = Some t \<and> rb_inserts [1, 2, 4, 3] t = Some t'
   \<and> rb_ok t' T \<and> keys t' T = [6, 7, 8, 9]"
proof -
  let ?h = "\<lambda>a. rbnode_new\<lparr>rb_key := 10 - int a\<rparr>"
  obtain t where t: "rbtree_with 0 ?h = Some t" by (simp add: rbtree_with_def rbtree_black_def wr_def)
  have "sort (map (\<lambda>a. rb_key (?h a)) [1, 2, 4, 3]) = [6, 7, 8, 9]" by simp
  with insertions_sort [OF t, of "[1, 2, 4, 3]"] t show ?thesis by auto
qed

text \<open>
  In a default tree, whose sentinel is null, the third insertion crashes if the first two went
  to the same side: the colour of the uncle is read through the null pointer.
\<close>

lemma default_tree_crashes:
  "rb_inserts [1, 2, 3] (rbtree_default (\<lambda>a. rbnode_new\<lparr>rb_key := int a\<rparr>)) = None"
proof -
  let ?t = "rbtree_default (\<lambda>a. rbnode_new\<lparr>rb_key := int a\<rparr>)"
  show ?thesis
    by (simp add: rb_insert_def rbtree_default_def rbnode_new_def rd_def wr_def rbtree_red_def rbtree_black_def Let_def
      insert_descend.simps insert_fix.simps rbtree_is_red_def insert_fix_step_def)
qed

end
