(* ===== verification/NcRbFix.thy ===== *)
theory NcRbFix
  imports NcRbInsert
begin

text \<open>
  The loop that repairs the red-black tree of \<^verbatim>\<open>nc_rbtree.h\<close> after a black node went: while it
  runs, the subtree at a position lacks one black node. Each turn keeps the order of the nodes
  and moves the position up or ends; the other half of the code is the mirror image.
\<close>

section \<open>One turn of the loop in two halves\<close>

text \<open>The sibling of the node \<open>temp\<close>, which is a left child, made black; and what follows.\<close>

definition lift_sibling :: "ptr \<Rightarrow> rbtree \<Rightarrow> (ptr \<times> rbtree) option" where
  "lift_sibling temp t = do {
     p \<leftarrow> rd rb_parent temp t;
     w \<leftarrow> rd rb_right p t;
     red \<leftarrow> rbtree_is_red w t;
     if red then do {
       t \<leftarrow> rbtree_black w t;
       t \<leftarrow> rbtree_red p t;
       t \<leftarrow> leftRotate p t;
       p \<leftarrow> rd rb_parent temp t;
       w \<leftarrow> rd rb_right p t;
       Some (w, t)
     } else Some (w, t)
   }"

definition turn_outer :: "ptr \<Rightarrow> ptr \<Rightarrow> rbtree \<Rightarrow> (ptr \<times> rbtree) option" where
  "turn_outer temp w t = do {
     p \<leftarrow> rd rb_parent temp t;
     t \<leftarrow> rbtree_copy_color w p t;
     t \<leftarrow> rbtree_black p t;
     wr' \<leftarrow> rd rb_right w t;
     t \<leftarrow> rbtree_black wr' t;
     t \<leftarrow> leftRotate p t;
     Some (rb_root t, t)
   }"

definition settle :: "ptr \<Rightarrow> ptr \<Rightarrow> rbtree \<Rightarrow> (ptr \<times> rbtree) option" where
  "settle temp w t = do {
     wl \<leftarrow> rd rb_left w t;
     wr' \<leftarrow> rd rb_right w t;
     bl \<leftarrow> rbtree_is_black wl t;
     br \<leftarrow> rbtree_is_black wr' t;
     if bl \<and> br then do {
       t \<leftarrow> rbtree_red w t;
       p \<leftarrow> rd rb_parent temp t;
       Some (p, t)
     } else if br then do {
       t \<leftarrow> rbtree_black wl t;
       t \<leftarrow> rbtree_red w t;
       t \<leftarrow> rightRotate w t;
       p \<leftarrow> rd rb_parent temp t;
       w \<leftarrow> rd rb_right p t;
       turn_outer temp w t
     } else turn_outer temp w t
   }"

text \<open>The code reads the second child only if the first is black; the result is the same.\<close>

definition settle_code :: "ptr \<Rightarrow> ptr \<Rightarrow> rbtree \<Rightarrow> (ptr \<times> rbtree) option" where
  "settle_code temp w t = do {
     wl \<leftarrow> rd rb_left w t;
     bl \<leftarrow> rbtree_is_black wl t;
     wr' \<leftarrow> rd rb_right w t;
     br \<leftarrow> (if bl then rbtree_is_black wr' t else Some False);
     if bl \<and> br then do {
       t \<leftarrow> rbtree_red w t;
       p \<leftarrow> rd rb_parent temp t;
       Some (p, t)
     } else do {
       br \<leftarrow> rbtree_is_black wr' t;
       (w, t) \<leftarrow> (if br then do {
           t \<leftarrow> rbtree_black wl t;
           t \<leftarrow> rbtree_red w t;
           t \<leftarrow> rightRotate w t;
           p \<leftarrow> rd rb_parent temp t;
           w \<leftarrow> rd rb_right p t;
           Some (w, t)
         } else Some (w, t));
       turn_outer temp w t
     }
   }"

lemma settle_lazy:
  assumes "settle temp w t = Some r"
  shows "settle_code temp w t = Some r"
proof -
  obtain wl wr' bl br where "rd rb_left w t = Some wl" "rd rb_right w t = Some wr'"
    "rbtree_is_black wl t = Some bl" "rbtree_is_black wr' t = Some br"
    using assms by (auto simp: settle_def bind_eq_Some_conv)
  with assms show ?thesis by (cases bl; cases br) (simp_all add: settle_def settle_code_def)
qed

lemma step_left_run:
  assumes "rd rb_parent temp t = Some p" "rd rb_left p t = Some temp"
    and "lift_sibling temp t = Some (w, t1)" "settle temp w t1 = Some r"
  shows "remove_fix_step temp t = Some r"
proof -
  have "remove_fix_step temp t = lift_sibling temp t \<bind> (\<lambda>(w, t). settle_code temp w t)"
    using assms(1,2) by (simp add: remove_fix_step_def lift_sibling_def settle_code_def turn_outer_def cong: if_cong)
  with assms(3) settle_lazy [OF assms(4)] show ?thesis by simp
qed

text \<open>The other side, as the code has it.\<close>

definition lift_other :: "ptr \<Rightarrow> rbtree \<Rightarrow> (ptr \<times> rbtree) option" where
  "lift_other temp t = do {
     p \<leftarrow> rd rb_parent temp t;
     w \<leftarrow> rd rb_left p t;
     red \<leftarrow> rbtree_is_red w t;
     if red then do {
       t \<leftarrow> rbtree_black w t;
       t \<leftarrow> rbtree_red p t;
       t \<leftarrow> rightRotate p t;
       p \<leftarrow> rd rb_parent temp t;
       w \<leftarrow> rd rb_left p t;
       Some (w, t)
     } else Some (w, t)
   }"

definition turn_other :: "ptr \<Rightarrow> ptr \<Rightarrow> rbtree \<Rightarrow> (ptr \<times> rbtree) option" where
  "turn_other temp w t = do {
     p \<leftarrow> rd rb_parent temp t;
     t \<leftarrow> rbtree_copy_color w p t;
     t \<leftarrow> rbtree_black p t;
     wl \<leftarrow> rd rb_left w t;
     t \<leftarrow> rbtree_black wl t;
     t \<leftarrow> rightRotate p t;
     Some (rb_root t, t)
   }"

definition settle_other :: "ptr \<Rightarrow> ptr \<Rightarrow> rbtree \<Rightarrow> (ptr \<times> rbtree) option" where
  "settle_other temp w t = do {
     wl \<leftarrow> rd rb_left w t;
     bl \<leftarrow> rbtree_is_black wl t;
     wr' \<leftarrow> rd rb_right w t;
     br \<leftarrow> (if bl then rbtree_is_black wr' t else Some False);
     if bl \<and> br then do {
       t \<leftarrow> rbtree_red w t;
       p \<leftarrow> rd rb_parent temp t;
       Some (p, t)
     } else do {
       bl \<leftarrow> rbtree_is_black wl t;
       (w, t) \<leftarrow> (if bl then do {
           t \<leftarrow> rbtree_black wr' t;
           t \<leftarrow> rbtree_red w t;
           t \<leftarrow> leftRotate w t;
           p \<leftarrow> rd rb_parent temp t;
           w \<leftarrow> rd rb_left p t;
           Some (w, t)
         } else Some (w, t));
       turn_other temp w t
     }
   }"

lemma copy_mir [simp]: "rbtree_copy_color p q (mir t) = map_option mir (rbtree_copy_color p q t)"
proof (cases q)
  case (Some a)
  then show ?thesis
    by (simp add: rbtree_copy_color_def rd_def, subst wr_mirI [where f = "rb_red_update (\<lambda>_. rb_red (rb_nodes t a))"])
      (simp_all add: flip_def)
qed (simp add: rbtree_copy_color_def rd_def)

lemma is_black_mir [simp]: "rbtree_is_black p (mir t) = rbtree_is_black p t" "rbtree_is_red p (mir t) = rbtree_is_red p t"
  by (simp_all add: rbtree_is_black_def rbtree_is_red_def)

lemma turn_mir: "turn_outer temp w (mir t) = map_option (apsnd mir) (turn_other temp w t)"
  by (simp add: turn_outer_def turn_other_def in_mir rotate_mir)

lemma lift_mir': "lift_sibling temp (mir t) = map_option (apsnd mir) (lift_other temp t)"
  by (simp add: lift_sibling_def lift_other_def in_mir rotate_mir cong: if_cong)

lemma settle_mir:
  assumes "settle temp w (mir t) = Some (y, t2)"
  shows "settle_other temp w t = Some (y, mir t2)"
proof -
  obtain wl wr' bl br where r: "rd rb_left w t = Some wl" "rd rb_right w t = Some wr'"
    "rbtree_is_black wl t = Some bl" "rbtree_is_black wr' t = Some br"
    using assms by (auto simp: settle_def bind_eq_Some_conv)
  then have "settle temp w (mir t) = map_option (apsnd mir) (settle_other temp w t)"
    by (cases bl; cases br) (simp_all add: settle_def settle_other_def in_mir rotate_mir turn_mir)
  with assms show ?thesis by auto
qed

lemma step_right_run:
  assumes "rd rb_parent temp t = Some p" "rd rb_left p t = Some q" "q \<noteq> temp"
    and "lift_sibling temp (mir t) = Some (w, t1)" "settle temp w t1 = Some (y, t2)"
  shows "remove_fix_step temp t = Some (y, mir t2)"
proof -
  have "remove_fix_step temp t = lift_other temp t \<bind> (\<lambda>(w, t). settle_other temp w t)"
    using assms(1-3) by (simp add: remove_fix_step_def lift_other_def settle_other_def turn_other_def cong: if_cong)
  moreover obtain t0 where "lift_other temp t = Some (w, t0)" "t1 = mir t0"
    using assms(4) lift_mir' [of temp t] by auto
  ultimately show ?thesis using settle_mir assms(5) by simp
qed

section \<open>The colours during the loop\<close>

text \<open>The subtree \<open>T\<close> lacks one black node; its top may be red below a red node.\<close>

definition wcinv :: "(nat \<Rightarrow> bool) \<Rightarrow> nat tree \<Rightarrow> bool" where
  "wcinv c T \<longleftrightarrow> (case T of \<langle>\<rangle> \<Rightarrow> True | \<langle>l, a, r\<rangle> \<Rightarrow> cinv c l \<and> cinv c r)"

definition deficit :: "(nat \<Rightarrow> bool) \<Rightarrow> frame list \<Rightarrow> nat tree \<Rightarrow> bool" where
  "deficit c fs T \<longleftrightarrow> wcinv c T \<and> hinv c T \<and> cok c fs (bh c T + 1) \<and> (fs \<noteq> [] \<longrightarrow> \<not> c (fnode (last fs)))"

lemma wcinv_simps [simp]: "wcinv c \<langle>\<rangle>" "wcinv c \<langle>l, a, r\<rangle> \<longleftrightarrow> cinv c l \<and> cinv c r"
  by (simp_all add: wcinv_def)

lemma wcinv_black: "\<not> redt c T \<Longrightarrow> wcinv c T = cinv c T"
  by (cases T) auto

lemma wcinv_upd [simp]: "a \<notin> set (inorder T) \<Longrightarrow> wcinv (c(a := v)) T = wcinv c T"
  by (cases T) simp_all

text \<open>A pointer to the subtree in the hole.\<close>

definition hole :: "rbtree \<Rightarrow> frame list \<Rightarrow> nat tree \<Rightarrow> ptr \<Rightarrow> bool" where
  "hole t fs T p \<longleftrightarrow> (case T of \<langle>\<rangle> \<Rightarrow> p = rb_sentinel t \<and> (fs \<noteq> [] \<longrightarrow> rd rb_parent p t = Some (Some (fnode (hd fs))))
     | \<langle>l, a, r\<rangle> \<Rightarrow> p = Some a)"

lemma hole_simps [simp]:
  "hole t fs \<langle>l, a, r\<rangle> p \<longleftrightarrow> p = Some a"
  "hole t fs \<langle>\<rangle> p \<longleftrightarrow> p = rb_sentinel t \<and> (fs \<noteq> [] \<longrightarrow> rd rb_parent p t = Some (Some (fnode (hd fs))))"
  by (simp_all add: hole_def)

lemma hole_recol [simp]: "hole (recol a b t) fs T p = hole t fs T p"
  by (cases T) simp_all

lemma hole_parent: "hole t (f # fs) T p \<Longrightarrow> rep t (plug (f # fs) T) \<Longrightarrow> rd rb_parent p t = Some (Some (fnode f))"
  by (cases T) (auto simp: rep_parent)

lemma hole_child:
  "hole t (FL q W # fs) T p \<Longrightarrow> rep t (plug (FL q W # fs) T) \<Longrightarrow> rd rb_left (Some q) t = Some p"
  "hole t (FR W q # fs) T p \<Longrightarrow> rep t (plug (FR W q # fs) T) \<Longrightarrow> rd rb_right (Some q) t = Some p"
  by (cases T; auto simp: rep_def is_tree_plug_Node rd_def)+

text \<open>Nodes outside of the tree, the sentinel among them, are left alone by a rotation.\<close>

lemma hole_moved:
  assumes "hole t fs T p" "rb_sentinel t' = rb_sentinel t" "rb_sentinel t = Some s" "rb_nodes t' s = rb_nodes t s"
    and "fnode (hd fs') = fnode (hd fs)" "fs \<noteq> []"
  shows "hole t' fs' T p"
  using assms by (cases T) (auto simp: rd_def)

lemma black_of:
  assumes "rb_sentinel t = Some s" "\<not> reds t s" "is_tree (Some s) (rb_nodes t) par p U"
  shows "rbtree_is_black p t = Some (\<not> redt (reds t) U)"
  using uncle_red [OF assms] by (simp add: rbtree_is_black_def)

lemma recol_black: "rbtree_black (Some a) t = Some (recol a False t)" "rbtree_red (Some a) t = Some (recol a True t)"
  "rbtree_copy_color (Some a) (Some b) t = Some (recol a (reds t b) t)"
  by (simp_all add: recol_run) (simp add: rbtree_copy_color_def rd_def wr_def recol_def reds_def)

text \<open>The colours after each of the cases.\<close>

lemma deficit_lift:
  assumes "deficit c (FL q \<langle>wl, w, wz\<rangle> # fs) T" "c w" "\<not> redt c T"
    and "distinct (inorder (plug (FL q \<langle>wl, w, wz\<rangle> # fs) T))"
  shows "deficit (c(w := False, q := True)) (FL q wl # FL w wz # fs) T" "\<not> redt c wl" "wl \<noteq> \<langle>\<rangle>"
proof -
  have "q \<noteq> w" "q \<notin> faddr fs" "w \<notin> faddr fs" "q \<notin> set (inorder T)" "w \<notin> set (inorder T)"
    "q \<notin> set (inorder wl)" "w \<notin> set (inorder wl)" "q \<notin> set (inorder wz)" "w \<notin> set (inorder wz)"
    using assms(4) by (auto simp: faddr_def)
  then show "deficit (c(w := False, q := True)) (FL q wl # FL w wz # fs) T" using assms(1-3)
    unfolding deficit_def by (simp del: fun_upd_apply add: upd_simps, simp split: if_splits)
  show "\<not> redt c wl" "wl \<noteq> \<langle>\<rangle>" using assms(1,2) by (auto simp: deficit_def)
qed

lemma deficit_red:
  assumes "deficit c (FL q \<langle>wl, w, wz\<rangle> # fs) T" "\<not> c w" "\<not> redt c wl" "\<not> redt c wz" "\<not> redt c T"
    and "distinct (inorder (plug (FL q \<langle>wl, w, wz\<rangle> # fs) T))"
  shows "deficit (c(w := True)) fs \<langle>T, q, \<langle>wl, w, wz\<rangle>\<rangle>"
proof -
  have "q \<noteq> w" "w \<notin> faddr fs" "w \<notin> set (inorder T)" "w \<notin> set (inorder wl)" "w \<notin> set (inorder wz)"
    using assms(6) by (auto simp: faddr_def)
  then show ?thesis using assms(1-5) unfolding deficit_def
    by (simp del: fun_upd_apply add: upd_simps wcinv_black, simp split: if_splits)
qed

lemma deficit_inner:
  assumes "deficit c (FL q \<langle>\<langle>a, x, b\<rangle>, w, wz\<rangle> # fs) T" "\<not> c w" "c x" "\<not> redt c wz"
    and "distinct (inorder (plug (FL q \<langle>\<langle>a, x, b\<rangle>, w, wz\<rangle> # fs) T))"
  shows "deficit (c(x := False, w := True)) (FL q \<langle>a, x, \<langle>b, w, wz\<rangle>\<rangle> # fs) T"
proof -
  have "x \<noteq> w" "q \<noteq> w" "q \<noteq> x" "w \<notin> faddr fs" "w \<notin> set (inorder T)" "w \<notin> set (inorder a)" "w \<notin> set (inorder b)" "w \<notin> set (inorder wz)"
    "x \<notin> faddr fs" "x \<notin> set (inorder T)" "x \<notin> set (inorder a)" "x \<notin> set (inorder b)" "x \<notin> set (inorder wz)"
    using assms(5) by (auto simp: faddr_def)
  then show ?thesis using assms(1-4) unfolding deficit_def
    by (simp del: fun_upd_apply add: upd_simps, auto split: if_splits)
qed

lemma deficit_outer:
  assumes "deficit c (FL q \<langle>a, w, \<langle>b, x, d\<rangle>\<rangle> # fs) T" "\<not> c w" "c x" "\<not> redt c T"
    and "distinct (inorder (plug (FL q \<langle>a, w, \<langle>b, x, d\<rangle>\<rangle> # fs) T))"
  shows "deficit (c(w := c q, q := False, x := False)) [] (plug fs \<langle>\<langle>T, q, a\<rangle>, w, \<langle>b, x, d\<rangle>\<rangle>)"
proof -
  let ?c = "c(w := c q, q := False, x := False)"
  have d: "q \<noteq> w" "q \<noteq> x" "w \<noteq> x" "q \<notin> faddr fs" "w \<notin> faddr fs" "x \<notin> faddr fs"
    "q \<notin> set (inorder T)" "w \<notin> set (inorder T)" "x \<notin> set (inorder T)"
    "q \<notin> set (inorder a)" "w \<notin> set (inorder a)" "x \<notin> set (inorder a)"
    "q \<notin> set (inorder b)" "w \<notin> set (inorder b)" "x \<notin> set (inorder b)"
    "q \<notin> set (inorder d)" "w \<notin> set (inorder d)" "x \<notin> set (inorder d)"
    using assms(5) by (auto simp: faddr_def)
  have "cinv ?c \<langle>\<langle>T, q, a\<rangle>, w, \<langle>b, x, d\<rangle>\<rangle>" "hinv ?c \<langle>\<langle>T, q, a\<rangle>, w, \<langle>b, x, d\<rangle>\<rangle>"
    "cok ?c fs (bh ?c \<langle>\<langle>T, q, a\<rangle>, w, \<langle>b, x, d\<rangle>\<rangle>)" "redt ?c \<langle>\<langle>T, q, a\<rangle>, w, \<langle>b, x, d\<rangle>\<rangle> \<longrightarrow> \<not> topred ?c fs"
    using assms(1-4) d unfolding deficit_def
    by (simp_all del: fun_upd_apply add: upd_simps wcinv_black split: if_splits)
  then have "cinv ?c (plug fs \<langle>\<langle>T, q, a\<rangle>, w, \<langle>b, x, d\<rangle>\<rangle>) \<and> hinv ?c (plug fs \<langle>\<langle>T, q, a\<rangle>, w, \<langle>b, x, d\<rangle>\<rangle>)"
    unfolding colour_plug by blast
  then show ?thesis unfolding deficit_def
    by (cases "plug fs \<langle>\<langle>T, q, a\<rangle>, w, \<langle>b, x, d\<rangle>\<rangle>") auto
qed

section \<open>The two halves of a turn\<close>

text \<open>The state in the loop: the tree \<open>T\<close> in the hole, to which \<open>p\<close> points, lacks a black node.\<close>

definition lacking :: "rbtree \<Rightarrow> nat \<Rightarrow> frame list \<Rightarrow> nat tree \<Rightarrow> ptr \<Rightarrow> bool" where
  "lacking t s fs T p \<longleftrightarrow> rep t (plug fs T) \<and> rb_sentinel t = Some s \<and> \<not> reds t s \<and> hole t fs T p \<and> deficit (reds t) fs T"

lemma lackingD:
  assumes "lacking t s fs T p"
  shows "rep t (plug fs T)" "rb_sentinel t = Some s" "\<not> reds t s" "hole t fs T p" "deficit (reds t) fs T"
    "distinct (inorder (plug fs T))" "s \<notin> set (inorder (plug fs T))"
proof -
  show "rep t (plug fs T)" "rb_sentinel t = Some s" "\<not> reds t s" "hole t fs T p" "deficit (reds t) fs T"
    using assms by (simp_all add: lacking_def)
  then show "distinct (inorder (plug fs T))" "s \<notin> set (inorder (plug fs T))"
    using rep_null unfolding rep_def by blast+
qed

lemma lift_sibling_rep:
  assumes "lacking t s (FL q W # fs) T p" "\<not> redt (reds t) T"
  shows "\<exists>wl w wz gs t1. lift_sibling p t = Some (Some w, t1) \<and> lacking t1 s (FL q \<langle>wl, w, wz\<rangle> # gs) T p \<and> kept t t1
    \<and> \<not> reds t1 w \<and> \<not> redt (reds t1) T \<and> inorder (plug (FL q \<langle>wl, w, wz\<rangle> # gs) T) = inorder (plug (FL q W # fs) T)
    \<and> (gs = fs \<or> reds t1 q \<and> length gs = Suc (length fs))"
proof -
  note l = lackingD [OF assms(1)]
  obtain wl w wz where W: "W = \<langle>wl, w, wz\<rangle>" using l(5) by (cases W) (auto simp: deficit_def)
  have rep: "rep t (plug fs \<langle>T, q, \<langle>wl, w, wz\<rangle>\<rangle>)" using l(1) W by simp
  note par = hole_parent [OF l(4,1)] and w = rep_child(2) [OF rep]
  show ?thesis
  proof (cases "reds t w")
    case False
    then have "lift_sibling p t = Some (Some w, t)" using par w by (simp add: lift_sibling_def red_of)
    then show ?thesis using assms False W by (intro exI [of _ wl] exI [of _ w] exI [of _ wz] exI [of _ fs] exI [of _ t]) simp
  next
    case True
    let ?t = "recol q True (recol w False t)"
    have "rep ?t (plug fs \<langle>T, q, \<langle>wl, w, wz\<rangle>\<rangle>)" using rep by simp
    from leftRotate_rep [OF this] obtain t1 where t1: "leftRotate (Some q) ?t = Some t1"
      "rep t1 (plug fs \<langle>\<langle>T, q, wl\<rangle>, w, wz\<rangle>)" "rb_sentinel t1 = rb_sentinel ?t \<and> same_content (rb_nodes ?t) (rb_nodes t1)"
      "\<And>z. z \<notin> set (inorder (plug fs \<langle>T, q, \<langle>wl, w, wz\<rangle>\<rangle>)) \<Longrightarrow> rb_nodes t1 z = rb_nodes ?t z" by blast
    from rotated [OF t1(3)] have k: "kept t t1" "reds t1 = (reds t)(w := False, q := True)" by simp_all
    have d: "deficit (reds t1) (FL q wl # FL w wz # fs) T" "\<not> redt (reds t) wl" "wl \<noteq> \<langle>\<rangle>"
      unfolding k using deficit_lift [of "reds t" q wl w wz fs T] l(5,6) True assms(2) W by simp_all
    then obtain a x b where wl: "wl = \<langle>a, x, b\<rangle>" "\<not> reds t x" by (cases wl) auto
    have s: "rb_nodes t1 s = rb_nodes ?t s" by (rule t1(4)) (use l(7) W in simp)
    have hole: "hole t1 (FL q wl # FL w wz # fs) T p"
      by (rule hole_moved [of ?t "FL q W # fs" _ _ _ s]) (use l(2,4) s t1(3) in simp_all)
    have rep1: "rep t1 (plug (FL q wl # FL w wz # fs) T)" using t1(2) by simp
    have rep2: "rep t1 (plug (FL w wz # fs) \<langle>T, q, \<langle>a, x, b\<rangle>\<rangle>)" using t1(2) wl(1) by simp
    note par1 = hole_parent [OF hole rep1] and x = rep_child(2) [OF rep2]
    have run: "lift_sibling p t = Some (Some x, t1)"
      using par w True t1(1) par1 x by (simp add: lift_sibling_def red_of recol_run)
    have n: "s \<noteq> w" "s \<noteq> q" "x \<noteq> w" "x \<noteq> q" "w \<noteq> q" "q \<notin> set (inorder T)" "w \<notin> set (inorder T)" using l(6,7) W wl(1) by auto
    have "lacking t1 s (FL q \<langle>a, x, b\<rangle> # FL w wz # fs) T p"
      unfolding lacking_def using rep1 l(2,3) t1(3) hole d(1) wl(1) n(1,2) k(2) by simp
    moreover have "inorder (plug (FL q \<langle>a, x, b\<rangle> # FL w wz # fs) T) = inorder (plug (FL q W # fs) T)" using W wl(1) by simp
    moreover have "\<not> reds t1 x" "\<not> redt (reds t1) T" "reds t1 q"
      using wl(2) n assms(2) unfolding k(2) by simp_all
    ultimately show ?thesis using run k(1)
      by (intro exI [of _ a] exI [of _ x] exI [of _ b] exI [of _ "FL w wz # fs"] exI [of _ t1]) simp
  qed
qed

text \<open>What a turn leads to, with the number of turns that are left.\<close>

definition turns :: "(nat \<Rightarrow> bool) \<Rightarrow> frame list \<Rightarrow> nat tree \<Rightarrow> nat" where
  "turns c fs T = 2 * length fs + (if redt c T then 0 else 1)"

definition turned :: "rbtree \<Rightarrow> nat \<Rightarrow> nat list \<Rightarrow> nat \<Rightarrow> ptr \<Rightarrow> rbtree \<Rightarrow> bool" where
  "turned t s N k p t' \<longleftrightarrow> (\<exists>fs T. lacking t' s fs T p \<and> T \<noteq> \<langle>\<rangle> \<and> kept t t' \<and> inorder (plug fs T) = N \<and> turns (reds t') fs T < k)"

lemma turnedI:
  "lacking t' s fs T p \<Longrightarrow> T \<noteq> \<langle>\<rangle> \<Longrightarrow> kept t t' \<Longrightarrow> inorder (plug fs T) = N \<Longrightarrow> turns (reds t') fs T < k \<Longrightarrow> turned t s N k p t'"
  unfolding turned_def by blast

lemma turn_outer_rep:
  assumes "lacking t s (FL q \<langle>a, w, \<langle>b, x, d\<rangle>\<rangle> # fs) T p" "\<not> reds t w" "reds t x" "\<not> redt (reds t) T"
  shows "\<exists>y t'. turn_outer p (Some w) t = Some (Some y, t')
    \<and> turned t s (inorder (plug (FL q \<langle>a, w, \<langle>b, x, d\<rangle>\<rangle> # fs) T)) 2 (Some y) t'"
proof -
  note l = lackingD [OF assms(1)]
  let ?T = "\<langle>\<langle>T, q, a\<rangle>, w, \<langle>b, x, d\<rangle>\<rangle>" let ?t = "recol x False (recol q False (recol w (reds t q) t))"
  have rep: "rep t (plug fs \<langle>T, q, \<langle>a, w, \<langle>b, x, d\<rangle>\<rangle>\<rangle>)" using l(1) by simp
  then have rep': "rep ?t (plug fs \<langle>T, q, \<langle>a, w, \<langle>b, x, d\<rangle>\<rangle>\<rangle>)" by simp
  from leftRotate_rep [OF rep'] obtain t' where t': "leftRotate (Some q) ?t = Some t'"
    "rep t' (plug fs ?T)" "rb_sentinel t' = rb_sentinel ?t \<and> same_content (rb_nodes ?t) (rb_nodes t')" by blast
  from rotated [OF t'(3)] have k: "kept t t'" "reds t' = (reds t)(w := reds t q, q := False, x := False)" by simp_all
  have "rep t (plug (FR T q # fs) \<langle>a, w, \<langle>b, x, d\<rangle>\<rangle>)" using rep by simp
  note wx = rep_child(2) [OF this]
  obtain L y R where Y: "plug fs ?T = \<langle>L, y, R\<rangle>" by (cases "plug fs ?T") (use plug_not_Leaf in auto)
  have root: "rb_root t' = Some y" using t'(2) unfolding Y rep_def by auto
  have run: "turn_outer p (Some w) t = Some (Some y, t')"
    using hole_parent [OF l(4,1)] wx t'(1) root by (simp add: turn_outer_def recol_black)
  have s: "s \<noteq> w" "s \<noteq> q" "s \<noteq> x" using l(7) by auto
  have "deficit (reds t') [] (plug fs ?T)" unfolding k(2) by (rule deficit_outer [OF l(5) assms(2-4) l(6)])
  then have "lacking t' s [] (plug fs ?T) (Some y)"
    unfolding lacking_def Y using t'(2,3) l(2,3) s k(2) Y by simp
  moreover have "plug fs ?T \<noteq> \<langle>\<rangle>" unfolding Y by simp
  moreover have "inorder (plug [] (plug fs ?T)) = inorder (plug (FL q \<langle>a, w, \<langle>b, x, d\<rangle>\<rangle> # fs) T)" by simp
  ultimately have "turned t s (inorder (plug (FL q \<langle>a, w, \<langle>b, x, d\<rangle>\<rangle> # fs) T)) 2 (Some y) t'"
    by (rule turnedI [OF _ _ k(1)]) (simp add: turns_def)
  with run show ?thesis by blast
qed

lemma settle_rep:
  assumes "lacking t s (FL q \<langle>wl, w, wz\<rangle> # fs) T p" "\<not> reds t w" "\<not> redt (reds t) T"
    and "reds t q \<and> 2 * length fs < k \<or> 2 * length fs + 1 < k" "2 \<le> k"
  shows "\<exists>y t'. settle p (Some w) t = Some (Some y, t') \<and> turned t s (inorder (plug (FL q \<langle>wl, w, wz\<rangle> # fs) T)) k (Some y) t'"
proof -
  note l = lackingD [OF assms(1)]
  let ?N = "inorder (plug (FL q \<langle>wl, w, wz\<rangle> # fs) T)"
  have rep: "rep t (plug fs \<langle>T, q, \<langle>wl, w, wz\<rangle>\<rangle>)" and rep': "rep t (plug (FR T q # fs) \<langle>wl, w, wz\<rangle>)" using l(1) by simp_all
  note w = rep_ptr [OF rep']
  have c: "rbtree_is_black (rb_left (rb_nodes t w)) t = Some (\<not> redt (reds t) wl)"
    "rbtree_is_black (rb_right (rb_nodes t w)) t = Some (\<not> redt (reds t) wz)"
    using black_of [OF l(2,3)] w(3,4) l(2) by simp_all
  note par = hole_parent [OF l(4,1)]
  have out: "\<exists>y t'. res = Some (Some y, t') \<and> turned t s ?N k (Some y) t'"
    if "\<exists>y t'. res = Some (Some y, t') \<and> turned t1 s ?N 2 (Some y) t'" "kept t t1" for res t1
    using that assms(5) kept_trans unfolding turned_def by (metis order_less_le_trans)
  show ?thesis
  proof (cases "redt (reds t) wz")
    case True
    then obtain b x d where wz: "wz = \<langle>b, x, d\<rangle>" "reds t x" by (cases wz) auto
    have "settle p (Some w) t = turn_outer p (Some w) t" using w(1,2) c True by (simp add: settle_def)
    then show ?thesis using out [of "turn_outer p (Some w) t" t] turn_outer_rep [OF assms(1) [unfolded wz(1)]] wz assms(2,3) by simp
  next
    case black: False
    show ?thesis
    proof (cases "redt (reds t) wl")
      case False
      have run: "settle p (Some w) t = Some (Some q, recol w True t)"
        using w(1,2) c black False par by (simp add: settle_def recol_run)
      have n: "s \<noteq> w" "q \<noteq> w" using l(6,7) by auto
      have "lacking (recol w True t) s fs \<langle>T, q, \<langle>wl, w, wz\<rangle>\<rangle> (Some q)"
        unfolding lacking_def using rep l(2,3) n(1) deficit_red [OF l(5) assms(2) False black assms(3) l(6)] by simp
      then have "turned t s ?N k (Some q) (recol w True t)"
        by (rule turnedI) (use assms(4) n(2) in \<open>auto simp: turns_def\<close>)
      with run show ?thesis by blast
    next
      case True
      then obtain a x b where wl: "wl = \<langle>a, x, b\<rangle>" "reds t x" by (cases wl) auto
      let ?t = "recol w True (recol x False t)"
      have "rep ?t (plug (FR T q # fs) \<langle>\<langle>a, x, b\<rangle>, w, wz\<rangle>)" using rep wl(1) by simp
      from rightRotate_rep [OF this] obtain t1 where t1: "rightRotate (Some w) ?t = Some t1"
        "rep t1 (plug (FR T q # fs) \<langle>a, x, \<langle>b, w, wz\<rangle>\<rangle>)" "rb_sentinel t1 = rb_sentinel ?t \<and> same_content (rb_nodes ?t) (rb_nodes t1)"
        "\<And>z. z \<notin> set (inorder (plug (FR T q # fs) \<langle>\<langle>a, x, b\<rangle>, w, wz\<rangle>)) \<Longrightarrow> rb_nodes t1 z = rb_nodes ?t z" by blast
      from rotated [OF t1(3)] have k: "kept t t1" "reds t1 = (reds t)(x := False, w := True)" by simp_all
      have s: "rb_nodes t1 s = rb_nodes ?t s" by (rule t1(4)) (use l(7) wl(1) in simp)
      have hole: "hole t1 (FL q \<langle>a, x, \<langle>b, w, wz\<rangle>\<rangle> # fs) T p"
        by (rule hole_moved [of ?t "FL q \<langle>wl, w, wz\<rangle> # fs" _ _ _ s]) (use l(2,4) s t1(3) in simp_all)
      have rep1: "rep t1 (plug (FL q \<langle>a, x, \<langle>b, w, wz\<rangle>\<rangle> # fs) T)" "rep t1 (plug fs \<langle>T, q, \<langle>a, x, \<langle>b, w, wz\<rangle>\<rangle>\<rangle>)" using t1(2) by simp_all
      have "rb_left (rb_nodes t w) = Some x" using rep_child(1) [of t "FR T q # fs" a x b w wz] rep wl(1) by (simp add: rd_def)
      then have run: "settle p (Some w) t = turn_outer p (Some x) t1"
        using w(1,2) c black True t1(1) hole_parent [OF hole rep1(1)] rep_child(2) [OF rep1(2)]
        by (simp add: settle_def recol_run)
      have n: "s \<noteq> w" "s \<noteq> x" "x \<noteq> w" "x \<notin> set (inorder T)" "w \<notin> set (inorder T)" using l(6,7) wl(1) by auto
      have d: "deficit (reds t1) (FL q \<langle>a, x, \<langle>b, w, wz\<rangle>\<rangle> # fs) T"
        unfolding k(2) using deficit_inner [of "reds t" q a x b w wz fs T] l(5,6) assms(2) wl black by simp
      have "lacking t1 s (FL q \<langle>a, x, \<langle>b, w, wz\<rangle>\<rangle> # fs) T p"
        unfolding lacking_def using rep1(1) l(2,3) t1(3) hole d n(1,2) k(2) by simp
      moreover have "\<not> reds t1 x" "reds t1 w" "\<not> redt (reds t1) T" unfolding k(2) using n(3-5) assms(3) by simp_all
      ultimately have "\<exists>y t'. turn_outer p (Some x) t1 = Some (Some y, t') \<and> turned t1 s ?N 2 (Some y) t'"
        using turn_outer_rep [of t1 s q a x b w wz fs T p] wl(1) by simp
      then show ?thesis unfolding run by (rule out [OF _ k(1)])
    qed
  qed
qed

section \<open>The loop\<close>

lemma deficit_mirror: "deficit c fs T \<Longrightarrow> deficit c (map mframe fs) (mirror T)"
  by (cases T) (auto simp: deficit_def mirror_colour cok_mirror fnode_last_mframe)

lemma lacking_mirror:
  assumes "lacking t s fs T p"
  shows "lacking (mir t) s (map mframe fs) (mirror T) p"
proof -
  note l = lackingD [OF assms]
  have "hole (mir t) (map mframe fs) (mirror T) p"
    using l(4) by (cases T; cases fs) (simp_all add: mirror_frames)
  then show ?thesis using l(1-3) deficit_mirror [OF l(5)] by (simp add: lacking_def rep_mir mirror_plug)
qed

lemma turned_mir:
  assumes "turned (mir t) s (rev N) k p t'"
  shows "turned t s N k p (mir t')"
proof -
  obtain fs T where f: "lacking t' s fs T p" "T \<noteq> \<langle>\<rangle>" "kept (mir t) t'" "inorder (plug fs T) = rev N" "turns (reds t') fs T < k"
    using assms unfolding turned_def by blast
  have "inorder (mirror (plug fs T)) = N" unfolding inorder_mirror f(4) by simp
  then show ?thesis
    by (intro turnedI [OF lacking_mirror [OF f(1)]])
      (use f(2,3,5) kept_mir [of "mir t" t'] in \<open>simp_all add: mirror_plug turns_def mirror_colour\<close>)
qed

lemma remove_step_left:
  assumes "lacking t s (FL q W # fs) T p" "\<not> redt (reds t) T"
  shows "\<exists>w t1 y t'. lift_sibling p t = Some (w, t1) \<and> settle p w t1 = Some (Some y, t')
    \<and> turned t s (inorder (plug (FL q W # fs) T)) (turns (reds t) (FL q W # fs) T) (Some y) t'"
proof -
  let ?k = "turns (reds t) (FL q W # fs) T"
  obtain wl w wz gs t1 where t1: "lift_sibling p t = Some (Some w, t1)" "lacking t1 s (FL q \<langle>wl, w, wz\<rangle> # gs) T p" "kept t t1"
    "\<not> reds t1 w" "\<not> redt (reds t1) T" "inorder (plug (FL q \<langle>wl, w, wz\<rangle> # gs) T) = inorder (plug (FL q W # fs) T)"
    "gs = fs \<or> reds t1 q \<and> length gs = Suc (length fs)" using lift_sibling_rep [OF assms] by blast
  have k: "?k = 2 * length fs + 3" using assms(2) by (simp add: turns_def)
  then have "reds t1 q \<and> 2 * length gs < ?k \<or> 2 * length gs + 1 < ?k" "2 \<le> ?k" using t1(7) by auto
  from settle_rep [OF t1(2,4,5) this] obtain y t' where
    t': "settle p (Some w) t1 = Some (Some y, t')" "turned t1 s (inorder (plug (FL q W # fs) T)) ?k (Some y) t'"
    unfolding t1(6) by blast
  have "turned t s (inorder (plug (FL q W # fs) T)) ?k (Some y) t'"
    using t'(2) kept_trans [OF t1(3)] unfolding turned_def by blast
  with t1(1) t'(1) show ?thesis by blast
qed

lemma remove_step_rep:
  assumes "lacking t s (f # fs) T p" "\<not> redt (reds t) T"
  shows "\<exists>y t'. remove_fix_step p t = Some (Some y, t')
    \<and> turned t s (inorder (plug (f # fs) T)) (turns (reds t) (f # fs) T) (Some y) t'"
proof (cases f)
  case (FL q W)
  note l = lackingD [OF assms(1) [unfolded FL]]
  from remove_step_left [OF assms(1) [unfolded FL] assms(2)] show ?thesis
    using step_left_run hole_parent [OF l(4,1)] hole_child(1) [OF l(4,1)] FL by fastforce
next
  case (FR W q)
  note l = lackingD [OF assms(1) [unfolded FR]]
  have "lacking (mir t) s (FL q (mirror W) # map mframe fs) (mirror T) p"
    using lacking_mirror [OF assms(1)] FR by simp
  from remove_step_left [OF this] obtain w t1 y t' where t': "lift_sibling p (mir t) = Some (w, t1)"
    "settle p w t1 = Some (Some y, t')"
    "turned (mir t) s (inorder (plug (FL q (mirror W) # map mframe fs) (mirror T)))
       (turns (reds t) (FL q (mirror W) # map mframe fs) (mirror T)) (Some y) t'"
    using assms(2) by (auto simp: mirror_colour)
  have "plug (FL q (mirror W) # map mframe fs) (mirror T) = mirror (plug (f # fs) T)" using FR by (simp add: mirror_plug)
  moreover have "turns (reds t) (FL q (mirror W) # map mframe fs) (mirror T) = turns (reds t) (f # fs) T"
    by (simp add: turns_def mirror_colour)
  ultimately have turned: "turned t s (inorder (plug (f # fs) T)) (turns (reds t) (f # fs) T) (Some y) (mir t')"
    using t'(3) by (intro turned_mir) (simp only: inorder_mirror)
  have "bh (reds t) W = bh (reds t) T + 1" using l(5) by (simp add: deficit_def)
  then obtain wl w' wz where W: "W = \<langle>wl, w', wz\<rangle>" by (cases W) auto
  have "rep t (plug fs \<langle>\<langle>wl, w', wz\<rangle>, q, T\<rangle>)" using l(1) W by simp
  then have q: "rd rb_left (Some q) t = Some (Some w')" using rep_child(1) by blast
  have "Some w' \<noteq> p"
  proof (cases T)
    case Leaf
    then show ?thesis using l(2,4,7) W by auto
  next
    case (Node lt a rt)
    then show ?thesis using l(4,6) W by auto
  qed
  from step_right_run [OF _ q this t'(1,2)] hole_parent [OF l(4,1)] turned show ?thesis by auto
qed

lemma remove_fix_rep:
  assumes "lacking t s fs T p"
  shows "\<exists>t' T'. remove_fix p t = Some t' \<and> rep t' T' \<and> kept t t' \<and> \<not> reds t' s \<and> inorder T' = inorder (plug fs T)
    \<and> cinv (reds t') T' \<and> hinv (reds t') T' \<and> \<not> redt (reds t') T'"
  using assms
proof (induction "turns (reds t) fs T" arbitrary: t fs T p rule: less_induct)
  case less
  note l = lackingD [OF less.prems]
  show ?case
  proof (cases fs)
    case Nil
    then have root: "rb_root t = p" using l(1,2,4) by (cases T) (auto simp: rep_def)
    then have run: "remove_fix p t = rbtree_black p t" by (subst remove_fix.simps) simp
    show ?thesis
    proof (cases T)
      case Leaf
      have "reds (recol s False t) = reds t" using l(3) by (simp add: fun_upd_idem)
      then show ?thesis using l run Leaf Nil
        by (intro exI [of _ "recol s False t"] exI [of _ "\<langle>\<rangle>"]) (simp add: recol_run)
    next
      case (Node a x b)
      have "x \<notin> set (inorder a)" "x \<notin> set (inorder b)" "s \<noteq> x" using l(6,7) Nil Node by auto
      then show ?thesis using l run Node Nil
        by (intro exI [of _ "recol x False t"] exI [of _ T])
          (simp add: recol_run deficit_def del: fun_upd_apply add: upd_simps)
    qed
  next
    case (Cons f gs)
    have "rb_root t \<noteq> p"
    proof -
      obtain L y R where Y: "plug fs T = \<langle>L, y, R\<rangle>" by (cases "plug fs T") (use plug_not_Leaf Cons in auto)
      then have y: "rb_root t = Some y" using l(1) by (auto simp: rep_def)
      show ?thesis
      proof (cases T)
        case Leaf
        have "y \<noteq> s" using l(7) unfolding Y by auto
        then show ?thesis using y Leaf l(2,4) by auto
      next
        case (Node a x b)
        then have "ctx (rb_sentinel t) (rb_nodes t) (rb_root t) fs (rb_parent (rb_nodes t x)) (Some x)" "x \<notin> faddr fs"
          using l(1,6) by (auto simp: rep_def is_tree_plug_Node faddr_def)
        then show ?thesis using ctx_root Cons Node l(4) by fastforce
      qed
    qed
    moreover have black: "rbtree_is_black p t = Some (\<not> redt (reds t) T)"
    proof (cases T)
      case Leaf
      then show ?thesis using l(2-4) by (simp add: rbtree_is_black_def red_of)
    next
      case (Node a x b)
      then show ?thesis using l(4) by (simp add: rbtree_is_black_def red_of)
    qed
    ultimately have run: "remove_fix p t = (if redt (reds t) T then rbtree_black p t
        else do { (temp, t) \<leftarrow> remove_fix_step p t; remove_fix temp t })"
      by (subst remove_fix.simps) simp
    show ?thesis
    proof (cases "redt (reds t) T")
      case True
      then obtain a x b where T: "T = \<langle>a, x, b\<rangle>" "reds t x" by (cases T) auto
      have x: "x \<notin> faddr fs" "x \<notin> set (inorder a)" "x \<notin> set (inorder b)" "s \<noteq> x" using l(6,7) T(1) by (auto simp: faddr_def)
      let ?t = "recol x False t"
      have d: "cinv (reds t) a" "cinv (reds t) b" "hinv (reds t) T" "cok (reds t) fs (bh (reds t) a + 1)"
        "\<not> reds t (fnode (last fs))" using l(5) T \<open>fs = f # gs\<close> [THEN arg_cong, of "\<lambda>x. x = []"] by (auto simp: deficit_def)
      have "cinv (reds ?t) (plug fs T) \<and> hinv (reds ?t) (plug fs T)"
        unfolding colour_plug recol_simps(3) T(1) using d x T by (simp del: fun_upd_apply add: upd_simps)
      moreover have "\<not> redt (reds ?t) (plug fs T)"
        using d(5) last_upd [OF x(1), of "reds t" False] Cons unfolding redt_plug recol_simps(3) by (simp del: fun_upd_apply last.simps)
      moreover have "remove_fix p t = Some ?t" using run True l(4) T(1) by (simp add: recol_run)
      moreover have "rep ?t (plug fs T)" "kept t ?t" "\<not> reds ?t s" using l(1,3) x(4) by simp_all
      ultimately show ?thesis by blast
    next
      case False
      from remove_step_rep [OF less.prems [unfolded Cons] False] obtain y t1 fs1 T1 where t1: "remove_fix_step p t = Some (Some y, t1)"
        "lacking t1 s fs1 T1 (Some y)" "kept t t1" "inorder (plug fs1 T1) = inorder (plug fs T)" "turns (reds t1) fs1 T1 < turns (reds t) fs T"
        unfolding turned_def Cons by blast
      from less.hyps [OF t1(5,2)] obtain t' T' where T': "remove_fix (Some y) t1 = Some t'" "rep t' T'" "kept t1 t'" "\<not> reds t' s"
        "inorder T' = inorder (plug fs1 T1)" "cinv (reds t') T'" "hinv (reds t') T'" "\<not> redt (reds t') T'" by blast
      have "remove_fix p t = Some t'" using run False t1(1) T'(1) by simp
      then show ?thesis using T' t1(4) kept_trans [OF t1(3) T'(3)] by metis
    qed
  qed
qed

end
