(* ===== verification/NcRbRemove.thy ===== *)
theory NcRbRemove
  imports NcRbFix
begin

text \<open>
  Removal from the red-black tree of \<^verbatim>\<open>nc_rbtree.h\<close>: it follows no null pointer, ends, and keeps
  the tree balanced. A node with at most one child is taken out and the order stays; for a node
  with two children the smallest node of the whole tree takes its place. Since the smallest
  node has at most one child, the tree is a correct queue of timeouts.
\<close>

section \<open>Taking a node out\<close>

lemma find_node: "a \<in> set (inorder T) \<Longrightarrow> \<exists>fs l r. T = plug fs \<langle>l, a, r\<rangle>"
proof (induction T)
  case (Node l x r)
  then consider "a = x" | "a \<in> set (inorder l)" | "a \<in> set (inorder r)" by auto
  then show ?case
  proof cases
    case 1
    then show ?thesis by (intro exI [of _ "[]"]) auto
  next
    case 2
    then obtain fs l' r' where "l = plug fs \<langle>l', a, r'\<rangle>" using Node.IH by blast
    then show ?thesis by (intro exI [of _ "fs @ [FL x r]"] exI) (simp add: plug_append)
  next
    case 3
    then obtain fs l' r' where "r = plug fs \<langle>l', a, r'\<rangle>" using Node.IH by blast
    then show ?thesis by (intro exI [of _ "fs @ [FR l x]"] exI) (simp add: plug_append)
  qed
qed simp

text \<open>The smallest node is at the end of the left branch.\<close>

lemma find_least: "T \<noteq> \<langle>\<rangle> \<Longrightarrow> \<exists>gs m C. T = plug gs \<langle>\<langle>\<rangle>, m, C\<rangle> \<and> pre gs = []"
proof (induction T)
  case (Node l x r)
  show ?case
  proof (cases "l = \<langle>\<rangle>")
    case False
    then obtain gs m C where "l = plug gs \<langle>\<langle>\<rangle>, m, C\<rangle>" "pre gs = []" using Node.IH by blast
    then show ?thesis by (intro exI [of _ "gs @ [FL x r]"] exI) (simp add: plug_append)
  qed (intro exI [of _ "[]"], auto)
qed simp

text \<open>The child \<open>C\<close> of the node \<open>x\<close> takes the place of \<open>x\<close> under its parent.\<close>

definition unlink :: "nat \<Rightarrow> ptr \<Rightarrow> ptr \<Rightarrow> rbtree \<Rightarrow> rbtree option" where
  "unlink x sp c t = do { spl \<leftarrow> rd rb_left sp t; if Some x = spl then set_left sp c t else set_right sp c t }"

definition only_child :: "nat tree \<Rightarrow> nat \<Rightarrow> nat tree \<Rightarrow> bool" where
  "only_child T x C \<longleftrightarrow> T = \<langle>\<langle>\<rangle>, x, C\<rangle> \<or> T = \<langle>C, x, \<langle>\<rangle>\<rangle>"

lemma is_tree_top:
  "is_tree s h par p T \<Longrightarrow> p = Some c \<Longrightarrow> distinct (inorder T) \<Longrightarrow> is_tree s (h(c := (h c)\<lparr>rb_parent := q\<rparr>)) q p T"
  by (cases T) auto

lemma set_parent_content:
  "set_parent p q t = Some t' \<Longrightarrow> rb_sentinel t' = rb_sentinel t \<and> same_content (rb_nodes t) (rb_nodes t')"
  by (auto simp: wr_def)

lemma unlink_rep:
  assumes "rep t (plug (f # fs) \<langle>A, x, B\<rangle>)" "only_child \<langle>A, x, B\<rangle> x C" "rb_sentinel t = Some s"
    and "is_tree (Some s) (rb_nodes t) (Some x) p C"
  shows "\<exists>t1 c. unlink x (Some (fnode f)) p t = Some t1 \<and> p = Some c \<and> c \<noteq> x \<and> c \<notin> faddr (f # fs) \<and> (C = \<langle>\<rangle> \<longrightarrow> c = s)
     \<and> (C \<noteq> \<langle>\<rangle> \<longrightarrow> c \<noteq> s) \<and> rb_sentinel t1 = Some s \<and> rb_root t1 = rb_root t \<and> same_content (rb_nodes t) (rb_nodes t1)
     \<and> (\<forall>a. a \<noteq> fnode f \<longrightarrow> rb_nodes t1 a = rb_nodes t a)
     \<and> (\<forall>t2. set_parent p (Some (fnode f)) t1 = Some t2 \<longrightarrow> rep t2 (plug (f # fs) C) \<and> hole t2 (f # fs) C p)"
proof -
  let ?h = "rb_nodes t" let ?q = "fnode f"
  have c: "ctx (Some s) ?h (rb_root t) (f # fs) (rb_parent (?h x)) (Some x)" and n: "s \<noteq> x"
    and d: "distinct (inorder (plug (f # fs) \<langle>A, x, B\<rangle>))"
    using assms(1,3) by (auto simp: rep_def is_tree_plug_Node)
  have d': "distinct (inorder (plug (f # fs) C))" "x \<notin> faddr (f # fs)" "x \<notin> set (inorder C)"
    using d assms(2) by (auto simp: only_child_def faddr_def)
  obtain c where p: "p = Some c" "(C = \<langle>\<rangle> \<longrightarrow> c = s) \<and> (C \<noteq> \<langle>\<rangle> \<longrightarrow> c \<noteq> s \<and> c \<in> set (inorder C))"
    using assms(4) by (cases C) auto
  have sn: "s \<notin> faddr (f # fs)" using rep_null [OF assms(1,3)] by (auto simp: faddr_def)
  then have c0: "c \<notin> faddr (f # fs)" "c \<noteq> x" using p(2) d' n by (auto simp: faddr_def)
  have q: "?q \<in> faddr (f # fs)" by (cases f) auto
  then have q': "?q \<noteq> c" "?q \<noteq> x" "?q \<notin> set (inorder C)" using c0 d' by (auto simp: faddr_def)
  define h1 where "h1 = ?h(?q := (case f of FL a r \<Rightarrow> (?h ?q)\<lparr>rb_left := p\<rparr> | FR l a \<Rightarrow> (?h ?q)\<lparr>rb_right := p\<rparr>))"
  have run: "unlink x (Some ?q) p t = Some (t\<lparr>rb_nodes := h1\<rparr>)"
  proof (cases f)
    case (FL a r)
    then show ?thesis using c by (simp add: unlink_def rd_def wr_def h1_def)
  next
    case (FR l a)
    then have "rb_left (?h a) \<noteq> Some x" using c d' n is_tree_not [of "Some s" ?h "Some a" _ l x] by auto
    then show ?thesis using FR by (simp add: unlink_def rd_def wr_def h1_def)
  qed
  have h1: "h1 a = ?h a" if "a \<noteq> ?q" for a using that by (simp add: h1_def)
  have ctx1: "ctx (Some s) h1 (rb_root t) (f # fs) (Some ?q) p"
  proof (cases f)
    case (FL a r)
    then have "\<forall>z\<in>set (inorder r) \<union> faddr fs. h1 z = ?h z" "h1 a = (?h a)\<lparr>rb_left := p\<rparr>"
      using d h1 by (auto simp: faddr_def h1_def)
    then show ?thesis using c FL is_tree_agree [of r h1 ?h] ctx_agree [of fs h1 ?h] by (auto simp: ball_Un)
  next
    case (FR l a)
    then have "\<forall>z\<in>set (inorder l) \<union> faddr fs. h1 z = ?h z" "h1 a = (?h a)\<lparr>rb_right := p\<rparr>"
      using d h1 by (auto simp: faddr_def h1_def)
    then show ?thesis using c FR is_tree_agree [of l h1 ?h] ctx_agree [of fs h1 ?h] by (auto simp: ball_Un)
  qed
  have tree1: "is_tree (Some s) h1 (Some x) p C" using assms(4) is_tree_agree [of C h1 ?h] h1 q' by metis
  let ?h2 = "h1(c := (h1 c)\<lparr>rb_parent := Some ?q\<rparr>)"
  have "is_tree (Some s) ?h2 (Some ?q) p C"
    using is_tree_top [OF tree1 p(1), of "Some ?q"] d'(1) p by (cases "C = \<langle>\<rangle>") simp_all
  moreover have "ctx (Some s) ?h2 (rb_root t) (f # fs) (Some ?q) p" using ctx1 c0(1) by simp
  ultimately have "rep (t\<lparr>rb_nodes := ?h2\<rparr>) (plug (f # fs) C)" using d'(1) assms(3) by (auto simp: rep_def is_tree_plug)
  moreover have "hole (t\<lparr>rb_nodes := ?h2\<rparr>) (f # fs) C p"
    using p tree1 assms(3) by (cases C) (auto simp: rd_def)
  moreover have "same_content ?h h1" by (cases f) (auto simp: h1_def same_content_def)
  ultimately show ?thesis using run p c0 h1 assms(3) by (simp add: wr_def del: plug.simps)
qed

section \<open>Another node takes a place\<close>

definition replace_at :: "ptr \<Rightarrow> ptr \<Rightarrow> rbtree \<Rightarrow> rbtree option" where
  "replace_at node subst t = do {
     nl \<leftarrow> rd rb_left node t;
     t \<leftarrow> set_left subst nl t;
     nr \<leftarrow> rd rb_right node t;
     t \<leftarrow> set_right subst nr t;
     np \<leftarrow> rd rb_parent node t;
     t \<leftarrow> set_parent subst np t;
     t \<leftarrow> rbtree_copy_color subst node t;
     t \<leftarrow> (if node = rb_root t then Some (t\<lparr>rb_root := subst\<rparr>)
          else do {
            np \<leftarrow> rd rb_parent node t;
            npl \<leftarrow> rd rb_left np t;
            if node = npl then set_left np subst t else set_right np subst t
          });
     sl \<leftarrow> rd rb_left subst t;
     t \<leftarrow> (if sl \<noteq> rb_sentinel t then set_parent sl subst t else Some t);
     sr \<leftarrow> rd rb_right subst t;
     (if sr \<noteq> rb_sentinel t then set_parent sr subst t else Some t)
   }"

lemma remove_replace_split:
  "rd rb_parent subst t = Some sp \<Longrightarrow> set_parent temp (if sp = node then subst else sp) t = Some t'
   \<Longrightarrow> remove_replace node subst temp t = replace_at node subst t'"
  by (simp add: remove_replace_def replace_at_def)

text \<open>The parent link of the top of a subtree, if there is one.\<close>

definition adopt :: "ptr \<Rightarrow> nat tree \<Rightarrow> nat \<Rightarrow> (nat \<Rightarrow> rbnode) \<Rightarrow> nat \<Rightarrow> rbnode" where
  "adopt p T m h = (if T = \<langle>\<rangle> then h else h(the p := (h (the p))\<lparr>rb_parent := Some m\<rparr>))"

lemma adopt_simps:
  assumes "is_tree (Some s) h par p T" "distinct (inorder T)"
  shows "is_tree (Some s) (adopt p T m h) (Some m) p T" "a \<notin> set (inorder T) \<Longrightarrow> adopt p T m h a = h a"
    "(if p \<noteq> Some s then set_parent p (Some m) (t\<lparr>rb_nodes := h\<rparr>) else Some (t\<lparr>rb_nodes := h\<rparr>)) = Some (t\<lparr>rb_nodes := adopt p T m h\<rparr>)"
    "same_content h (adopt p T m h)"
  using assms by (cases T; auto simp: adopt_def wr_def same_content_def)+

lemma replace_at_rep:
  assumes "rb_sentinel t = Some s" "ctx (Some s) (rb_nodes t) (rb_root t) fs (rb_parent (rb_nodes t n)) (Some n)"
    and "is_tree (Some s) (rb_nodes t) pl (rb_left (rb_nodes t n)) L" "is_tree (Some s) (rb_nodes t) pr (rb_right (rb_nodes t n)) R"
    and "distinct (inorder (plug fs \<langle>L, n, R\<rangle>))" "m \<notin> set (inorder (plug fs \<langle>L, n, R\<rangle>))"
    and "s \<noteq> m" "s \<notin> set (inorder (plug fs \<langle>L, n, R\<rangle>))"
  shows "\<exists>t'. replace_at (Some n) (Some m) t = Some t' \<and> rep t' (plug fs \<langle>L, m, R\<rangle>) \<and> kept t t' \<and> reds t' = (reds t)(m := reds t n)
    \<and> rb_nodes t' s = rb_nodes t s"
proof -
  let ?h = "rb_nodes t"
  let ?pl = "rb_left (?h n)" and ?pr = "rb_right (?h n)" and ?par = "rb_parent (?h n)"
  define h1 where "h1 = ?h(m := (?h m)\<lparr>rb_left := ?pl, rb_right := ?pr, rb_parent := ?par, rb_red := rb_red (?h n)\<rparr>)"
  let ?t1 = "t\<lparr>rb_nodes := h1\<rparr>"
  have d: "m \<noteq> n" "m \<notin> faddr fs" "m \<notin> set (inorder L)" "m \<notin> set (inorder R)" "n \<notin> faddr fs" "n \<notin> set (inorder L)" "n \<notin> set (inorder R)"
    "s \<noteq> n" "s \<notin> faddr fs" "s \<notin> set (inorder L)" "s \<notin> set (inorder R)" "distinct (pre fs @ post fs)" "distinct (inorder L)" "distinct (inorder R)"
    "\<forall>a\<in>set (inorder L) \<union> set (inorder R). a \<notin> faddr fs" "set (inorder L) \<inter> set (inorder R) = {}"
    using assms(5,6,8) by (auto simp: faddr_def)
  have "ctx (Some s) h1 (rb_root t) fs ?par (Some n)" using assms(2) d(2) by (simp add: h1_def)
  from relinked_left [of ?t1 fs ?par n m] this assms(1) d(5,8,12) obtain t2 where
    t2: "(if Some n = rb_root ?t1 then Some (?t1\<lparr>rb_root := Some m\<rparr>)
       else do { q \<leftarrow> rd rb_left ?par ?t1; if Some n = q then set_left ?par (Some m) ?t1 else set_right ?par (Some m) ?t1 }) = Some t2"
    "relinked fs ?par m ?t1 t2" by auto
  have r: "rb_sentinel t2 = Some s" "ctx (Some s) (rb_nodes t2) (rb_root t2) fs ?par (Some m)" "same_content h1 (rb_nodes t2)"
    "\<And>a. a \<notin> faddr fs \<Longrightarrow> rb_nodes t2 a = h1 a" using t2(2) assms(1) by (simp_all add: relinked_def)
  have at: "rb_left (rb_nodes t2 m) = ?pl" "rb_right (rb_nodes t2 m) = ?pr" "rb_parent (rb_nodes t2 m) = ?par"
    using r(4) d(2) by (simp_all add: h1_def)
  have off: "rb_nodes t2 a = ?h a" if "a \<in> set (inorder L) \<union> set (inorder R) \<union> {s}" for a
  proof -
    have "a \<noteq> m" "a \<notin> faddr fs" using that d assms(7) by auto
    then show ?thesis using r(4) by (simp add: h1_def)
  qed
  have LR: "is_tree (Some s) (rb_nodes t2) pl ?pl L" "is_tree (Some s) (rb_nodes t2) pr ?pr R"
    using assms(3,4) is_tree_agree [of L "rb_nodes t2" ?h] is_tree_agree [of R "rb_nodes t2" ?h] off by (metis UnI1 UnI2)+
  let ?h3 = "adopt ?pl L m (rb_nodes t2)" let ?h4 = "adopt ?pr R m ?h3"
  note a3 = adopt_simps [OF LR(1) d(13)]
  have R3: "is_tree (Some s) ?h3 pr ?pr R" using LR(2) a3(2) is_tree_agree [of R ?h3 "rb_nodes t2"] d(16) by blast
  note a4 = adopt_simps [OF R3 d(14)]
  have m4: "rb_right (?h3 m) = ?pr" using a3(2) at d(3) by simp
  have run: "replace_at (Some n) (Some m) t = Some (t2\<lparr>rb_nodes := ?h4\<rparr>)"
  proof -
    have 1: "do {
        nl \<leftarrow> rd rb_left (Some n) t;
        t \<leftarrow> set_left (Some m) nl t;
        nr \<leftarrow> rd rb_right (Some n) t;
        t \<leftarrow> set_right (Some m) nr t;
        np \<leftarrow> rd rb_parent (Some n) t;
        t \<leftarrow> set_parent (Some m) np t;
        rbtree_copy_color (Some m) (Some n) t } = Some ?t1"
      using d(1) by (simp add: rd_def wr_def rbtree_copy_color_def h1_def)
    have 2: "rd rb_parent (Some n) ?t1 = Some ?par" using d(1) by (simp add: rd_def h1_def)
    have "replace_at (Some n) (Some m) t = Some ?t1 \<bind> (\<lambda>t. do {
       t \<leftarrow> (if Some n = rb_root t then Some (t\<lparr>rb_root := Some m\<rparr>)
          else do {
            np \<leftarrow> rd rb_parent (Some n) t;
            npl \<leftarrow> rd rb_left np t;
            if Some n = npl then set_left np (Some m) t else set_right np (Some m) t
          });
       sl \<leftarrow> rd rb_left (Some m) t;
       t \<leftarrow> (if sl \<noteq> rb_sentinel t then set_parent sl (Some m) t else Some t);
       sr \<leftarrow> rd rb_right (Some m) t;
       (if sr \<noteq> rb_sentinel t then set_parent sr (Some m) t else Some t) })"
      unfolding 1 [symmetric] replace_at_def by simp
    also have "\<dots> = do {
       sl \<leftarrow> rd rb_left (Some m) t2;
       t \<leftarrow> (if sl \<noteq> rb_sentinel t2 then set_parent sl (Some m) t2 else Some t2);
       sr \<leftarrow> rd rb_right (Some m) t;
       (if sr \<noteq> rb_sentinel t then set_parent sr (Some m) t else Some t) }"
      using t2(1) by (simp only: Option.bind.simps 2)
    also have "\<dots> = Some (t2\<lparr>rb_nodes := ?h4\<rparr>)"
    proof -
      have s3: "rd rb_left (Some m) t2 = Some ?pl" "rd rb_right (Some m) (t2\<lparr>rb_nodes := ?h3\<rparr>) = Some ?pr"
        using at m4 by (simp_all add: rd_def)
      have s4: "(if ?pl \<noteq> rb_sentinel t2 then set_parent ?pl (Some m) t2 else Some t2) = Some (t2\<lparr>rb_nodes := ?h3\<rparr>)"
      proof -
        have id: "t2\<lparr>rb_nodes := rb_nodes t2\<rparr> = t2" by (cases t2) simp
        show ?thesis using a3(3) [of m t2] unfolding id r(1) .
      qed
      have s5: "(if ?pr \<noteq> rb_sentinel (t2\<lparr>rb_nodes := ?h3\<rparr>) then set_parent ?pr (Some m) (t2\<lparr>rb_nodes := ?h3\<rparr>)
          else Some (t2\<lparr>rb_nodes := ?h3\<rparr>)) = Some (t2\<lparr>rb_nodes := ?h4\<rparr>)"
        using a4(3) [of m t2] r(1) by simp
      show ?thesis by (simp only: s3 s4 s5 Option.bind.simps)
    qed
    finally show ?thesis .
  qed
  have in4: "rb_nodes t2 a = ?h4 a" if "a \<in> faddr fs \<union> {m, s}" for a
  proof -
    have "a \<notin> set (inorder L)" "a \<notin> set (inorder R)" using that d by auto
    then show ?thesis using a3(2) a4(2) by simp
  qed
  have "ctx (Some s) ?h4 (rb_root t2) fs ?par (Some m)" using r(2) in4 ctx_agree [of fs ?h4 "rb_nodes t2"] by simp
  moreover have "is_tree (Some s) ?h4 (Some m) ?pl L" using a3(1) a4(2) is_tree_agree [of L ?h4 ?h3] d(16) by blast
  moreover have "rb_left (?h4 m) = ?pl" "rb_right (?h4 m) = ?pr" "rb_parent (?h4 m) = ?par" using in4 at by (metis UnI2 insertI1)+
  moreover have "distinct (inorder (plug fs \<langle>L, m, R\<rangle>))" using assms(5,6) by auto
  ultimately have "rep (t2\<lparr>rb_nodes := ?h4\<rparr>) (plug fs \<langle>L, m, R\<rangle>)"
    unfolding rep_def using a4(1) r(1) assms(7) by (simp add: is_tree_plug_Node)
  moreover have "same_content h1 ?h4" using same_content_trans [OF r(3) same_content_trans [OF a3(4) a4(4)]] .
  then have "kept t (t2\<lparr>rb_nodes := ?h4\<rparr>)" "reds (t2\<lparr>rb_nodes := ?h4\<rparr>) = (reds t)(m := reds t n)"
    using r(1) assms(1) by (auto simp: kept_def reds_def same_content_def h1_def fun_eq_iff)
  moreover have "?h4 s = ?h s" using in4 off by (metis UnI2 insertCI)
  ultimately show ?thesis using run by auto
qed

section \<open>Removal\<close>

lemma removed_colours:
  assumes "cinv c (plug fs X)" "hinv c (plug fs X)" "\<not> redt c (plug fs X)" "only_child X x C"
  shows "c x \<Longrightarrow> cinv c (plug fs C) \<and> hinv c (plug fs C) \<and> \<not> redt c (plug fs C)" "\<not> c x \<Longrightarrow> deficit c fs C"
proof -
  have X: "cinv c X \<and> hinv c X \<and> cok c fs (bh c X) \<and> (redt c X \<longrightarrow> \<not> topred c fs)"
    using colour_plug [of c fs X] assms(1,2) by blast
  have C: "cinv c C" "hinv c C" "c x \<Longrightarrow> \<not> redt c C" "bh c X = bh c C + (if c x then 0 else 1)" "redt c X = c x"
    using X assms(4) by (auto simp: only_child_def)
  have r: "fs = [] \<and> \<not> c x \<or> fs \<noteq> [] \<and> \<not> c (fnode (last fs))"
    using assms(3) C(5) unfolding redt_plug by (auto split: if_splits)
  show "cinv c (plug fs C) \<and> hinv c (plug fs C) \<and> \<not> redt c (plug fs C)" if "c x"
    using X C that r colour_plug [of c fs C] unfolding redt_plug by auto
  have "wcinv c C" using C(1) by (cases C) auto
  then show "deficit c fs C" if "\<not> c x" using X C that r by (auto simp: deficit_def)
qed

text \<open>A tree with its shape and colours right, whatever its order.\<close>

definition shaped :: "rbtree \<Rightarrow> nat tree \<Rightarrow> bool" where
  "shaped t T \<longleftrightarrow> rep t T \<and> cinv (reds t) T \<and> hinv (reds t) T \<and> \<not> redt (reds t) T
     \<and> (case rb_sentinel t of None \<Rightarrow> False | Some s \<Rightarrow> \<not> reds t s)"

lemma rb_ok_shaped: "rb_ok t T \<longleftrightarrow> shaped t T \<and> sorted (keys t T)"
  by (auto simp: rb_ok_def shaped_def)

definition kept_but :: "nat \<Rightarrow> rbtree \<Rightarrow> rbtree \<Rightarrow> bool" where
  "kept_but n t t' \<longleftrightarrow> rb_sentinel t' = rb_sentinel t
     \<and> (\<forall>a. a \<noteq> n \<longrightarrow> rb_key (rb_nodes t' a) = rb_key (rb_nodes t a) \<and> rb_data (rb_nodes t' a) = rb_data (rb_nodes t a))"

definition cleared :: "nat \<Rightarrow> rbtree \<Rightarrow> rbtree" where
  "cleared n t = t\<lparr>rb_nodes := (rb_nodes t)(n := rbnode_reset (rb_nodes t n))\<rparr>"

lemma kept_kept_but: "kept t u \<Longrightarrow> kept_but n u t' \<Longrightarrow> kept_but n t t'"
  by (simp add: kept_but_def kept_def)

lemma cleared_run: "wr rbnode_reset (Some n) t = Some (cleared n t)"
  by (simp add: wr_def cleared_def)

lemma cleared_simps:
  "rb_sentinel (cleared n t) = rb_sentinel t" "rb_root (cleared n t) = rb_root t" "reds (cleared n t) = (reds t)(n := False)"
  "n \<notin> set (inorder T) \<Longrightarrow> rep (cleared n t) T = rep t T" "kept_but n t (cleared n t)"
  "a \<noteq> n \<Longrightarrow> rb_nodes (cleared n t) a = rb_nodes t a"
  by (auto simp: cleared_def reds_def rbnode_reset_def rep_def kept_but_def fun_eq_iff)

lemma deficit_upd [simp]: "a \<notin> set (inorder (plug fs T)) \<Longrightarrow> deficit (c(a := v)) fs T = deficit c fs T"
  unfolding deficit_def using last_upd [of a fs c v] by (simp add: faddr_def del: fun_upd_apply)

text \<open>The end of the removal: the node \<open>n\<close> is cleared, and the loop runs unless a red node went.\<close>

lemma remove_end:
  assumes "rep t (plug gs C)" "rb_sentinel t = Some s" "\<not> reds t s" "s \<noteq> n" "n \<notin> set (inorder (plug gs C))"
    and "red \<Longrightarrow> cinv (reds t) (plug gs C) \<and> hinv (reds t) (plug gs C) \<and> \<not> redt (reds t) (plug gs C)"
    and "\<not> red \<Longrightarrow> hole t gs C p \<and> deficit (reds t) gs C"
  shows "\<exists>t' T'. (if red then Some (cleared n t) else remove_fix p (cleared n t)) = Some t' \<and> shaped t' T' \<and> kept_but n t t'
    \<and> inorder T' = inorder (plug gs C)"
proof (cases red)
  case True
  have "shaped (cleared n t) (plug gs C)"
    using assms(1-6) True by (simp add: shaped_def cleared_simps del: inorder_plug fun_upd_apply) (simp add: fun_upd_other)
  then show ?thesis using True cleared_simps(5) by auto
next
  case False
  have "hole (cleared n t) gs C p" using assms(2,4,7) False by (cases C) (auto simp: cleared_simps rd_def)
  then have "lacking (cleared n t) s gs C p"
    using assms(1-5,7) False by (simp add: lacking_def cleared_simps del: inorder_plug fun_upd_apply) (simp add: fun_upd_other)
  from remove_fix_rep [OF this] obtain t' T' where t': "remove_fix p (cleared n t) = Some t'" "rep t' T'" "kept (cleared n t) t'"
    "\<not> reds t' s" "inorder T' = inorder (plug gs C)" "cinv (reds t') T'" "hinv (reds t') T'" "\<not> redt (reds t') T'" by blast
  moreover have "kept_but n t t'" using cleared_simps(5) [of n t] t'(3) by (simp add: kept_but_def kept_def)
  moreover have "rb_sentinel t' = Some s" using t'(3) assms(2) by (simp add: kept_def cleared_simps)
  ultimately show ?thesis using False by (auto simp: shaped_def)
qed

lemma remove_run:
  assumes "rd rb_left (Some n) t = Some l" "rd rb_right (Some n) t = Some r"
    and "(if l = rb_sentinel t then Some (Some n, r) else if r = rb_sentinel t then Some (Some n, l)
          else do { subst \<leftarrow> rb_min t; temp \<leftarrow> rd rb_right subst t; Some (subst, temp) }) = Some (Some x, p)"
    and "rb_root t \<noteq> Some x" "rd rb_parent (Some x) t = Some (Some q)" "unlink x (Some q) p t = Some t1"
    and "(if x = n then set_parent p (Some q) t1 else remove_replace (Some n) (Some x) p t1) = Some t2"
  shows "rb_remove (Some n) t = (if reds t x then Some (cleared n t2) else remove_fix p (cleared n t2))"
proof -
  have u: "do { spl \<leftarrow> rd rb_left (Some q) t; if Some x = spl then set_left (Some q) p t else set_right (Some q) p t } = Some t1"
    using assms(6) by (simp add: unlink_def)
  then obtain spl where spl: "rd rb_left (Some q) t = Some spl" "(if Some x = spl then set_left (Some q) p t else set_right (Some q) p t) = Some t1"
    by (auto simp: bind_eq_Some_conv)
  have "(if Some x = Some n then set_parent p (Some q) t1 else remove_replace (Some n) (Some x) p t1) = Some t2"
    using assms(7) by simp
  with assms(1-5) spl show ?thesis
    by (simp only: rb_remove_def option.distinct if_False Option.bind.simps prod.case not_False_eq_True red_of cleared_run)
      (simp cong: if_cong)
qed

lemma remove_single:
  assumes "shaped t (plug fs \<langle>A, n, B\<rangle>)" "A = \<langle>\<rangle> \<or> B = \<langle>\<rangle>"
  shows "\<exists>t' T'. rb_remove (Some n) t = Some t' \<and> shaped t' T' \<and> kept_but n t t'
    \<and> inorder T' = pre fs @ inorder A @ inorder B @ post fs"
proof -
  let ?X = "\<langle>A, n, B\<rangle>" let ?h = "rb_nodes t"
  obtain s where s: "rb_sentinel t = Some s" "\<not> reds t s" using assms(1) by (auto simp: shaped_def split: option.splits)
  have rep: "rep t (plug fs ?X)" and col: "cinv (reds t) (plug fs ?X)" "hinv (reds t) (plug fs ?X)" "\<not> redt (reds t) (plug fs ?X)"
    using assms(1) by (simp_all add: shaped_def)
  note n = rep_ptr [OF rep]
  define C where "C = (if A = \<langle>\<rangle> then B else A)"
  define p where "p = (if A = \<langle>\<rangle> then rb_right (?h n) else rb_left (?h n))"
  have only: "only_child ?X n C" "inorder A @ inorder B = inorder C" using assms(2) by (auto simp: C_def only_child_def)
  have C: "is_tree (Some s) ?h (Some n) p C" using n(3,4) s(1) by (simp add: C_def p_def)
  have out: "s \<noteq> n" "n \<notin> set (inorder (plug fs C))" "distinct (inorder (plug fs C))"
    using rep n(5) s(1) only(2) by (auto simp: rep_def C_def)
  have sel: "(if rb_left (?h n) = rb_sentinel t then Some (Some n, rb_right (?h n)) else if rb_right (?h n) = rb_sentinel t
      then Some (Some n, rb_left (?h n)) else do { subst \<leftarrow> rb_min t; temp \<leftarrow> rd rb_right subst t; Some (subst, temp) }) = Some (Some n, p)"
    using is_tree_sentinel [OF n(3)] is_tree_sentinel [OF n(4)] assms(2) by (auto simp: p_def)
  show ?thesis
  proof (cases fs)
    case Nil
    then have root: "rb_root t = Some n" using rep by (auto simp: rep_def)
    obtain c where c: "p = Some c" "C = \<langle>\<rangle> \<longrightarrow> c = s" "\<And>l a r. C = \<langle>l, a, r\<rangle> \<Longrightarrow> a = c" "c \<noteq> n"
      using C out Nil by (cases C) auto
    let ?t = "cleared n (recol c False (t\<lparr>rb_root := p\<rparr>))"
    have run: "rb_remove (Some n) t = Some ?t"
      using sel n(1,2) root c(1)
      by (simp only: rb_remove_def option.distinct if_False Option.bind.simps prod.case if_True Let_def recol_run(1) cleared_run simp_thms)
    have "rep (t\<lparr>rb_root := p\<rparr>) C" using C out(3) Nil s(1) by (auto simp: rep_def)
    moreover have "cinv ((reds t)(c := False)) C \<and> hinv ((reds t)(c := False)) C \<and> \<not> redt ((reds t)(c := False)) C"
    proof (cases C)
      case (Node l a r)
      then have "a = c" "c \<notin> set (inorder l)" "c \<notin> set (inorder r)" using c(3) out(3) Nil by auto
      moreover have "cinv (reds t) C" "hinv (reds t) C" using col only(1) Nil by (auto simp: only_child_def)
      ultimately show ?thesis using Node by (simp del: fun_upd_apply add: upd_simps)
    qed simp
    moreover have "reds (t\<lparr>rb_root := p\<rparr>) = reds t" by (simp add: reds_def)
    ultimately have "shaped ?t C"
      using out(1,2) s Nil by (simp add: shaped_def cleared_simps del: fun_upd_apply) (simp add: upd_simps)
    moreover have "kept_but n t ?t"
      using cleared_simps(5) [of n "recol c False (t\<lparr>rb_root := p\<rparr>)"] by (simp add: kept_but_def)
    ultimately show ?thesis using run only(2) Nil by auto
  next
    case (Cons f gs)
    let ?q = "fnode f"
    have par: "rd rb_parent (Some n) t = Some (Some ?q)" using rep_parent rep Cons by blast
    have "rb_root t \<noteq> Some n"
    proof -
      have "ctx (rb_sentinel t) ?h (rb_root t) fs (rb_parent (?h n)) (Some n)" "n \<notin> faddr fs"
        using rep by (auto simp: rep_def is_tree_plug_Node faddr_def)
      then show ?thesis using ctx_root Cons by fastforce
    qed
    from unlink_rep [OF rep [unfolded Cons] only(1) s(1) C] obtain t1 c where t1: "unlink n (Some ?q) p t = Some t1" "p = Some c"
      "rb_sentinel t1 = Some s" "same_content ?h (rb_nodes t1)"
      "\<And>t2. set_parent p (Some ?q) t1 = Some t2 \<Longrightarrow> rep t2 (plug (f # gs) C) \<and> hole t2 (f # gs) C p" by blast
    obtain t2 where t2: "set_parent p (Some ?q) t1 = Some t2" using t1(2) by (simp add: wr_def)
    have r: "rb_sentinel t2 = Some s" "reds t2 = reds t" "kept t t2"
      using set_parent_content [OF t2] t1(3,4) s(1) same_content_trans rotated by metis+
    have run: "rb_remove (Some n) t = (if reds t n then Some (cleared n t2) else remove_fix p (cleared n t2))"
      by (rule remove_run [OF n(1,2) sel \<open>rb_root t \<noteq> Some n\<close> par t1(1)]) (use t2 in simp)
    note colours = removed_colours [OF col only(1)]
    have "\<exists>t' T'. (if reds t n then Some (cleared n t2) else remove_fix p (cleared n t2)) = Some t' \<and> shaped t' T' \<and> kept_but n t2 t'
      \<and> inorder T' = inorder (plug fs C)"
    proof (rule remove_end)
      show "rep t2 (plug fs C)" using t1(5) [OF t2] Cons by blast
      show "rb_sentinel t2 = Some s" "\<not> reds t2 s" "s \<noteq> n" "n \<notin> set (inorder (plug fs C))" using r s out by simp_all
      show "cinv (reds t2) (plug fs C) \<and> hinv (reds t2) (plug fs C) \<and> \<not> redt (reds t2) (plug fs C)" if "reds t n"
        unfolding r(2) using colours(1) that .
      show "hole t2 fs C p \<and> deficit (reds t2) fs C" if "\<not> reds t n"
        unfolding r(2) using t1(5) [OF t2] colours(2) [OF that] Cons by blast
    qed
    moreover have "inorder (plug fs C) = pre fs @ inorder A @ inorder B @ post fs" using only(2) by (simp flip: append_assoc)
    ultimately show ?thesis using run r(3) kept_kept_but by metis
  qed
qed

section \<open>A node with two children\<close>

text \<open>The node \<open>m\<close> under the name of \<open>n\<close>.\<close>

definition ren :: "nat \<Rightarrow> nat \<Rightarrow> nat \<Rightarrow> nat" where
  "ren n m a = (if a = n then m else a)"

fun map_frame :: "(nat \<Rightarrow> nat) \<Rightarrow> frame \<Rightarrow> frame" where
  "map_frame g (FL a r) = FL (g a) (map_tree g r)"
| "map_frame g (FR l a) = FR (map_tree g l) (g a)"

lemma map_plug: "map_tree g (plug fs T) = plug (map (map_frame g) fs) (map_tree g T)"
  by (induction fs T rule: plug.induct) simp_all

lemma ren_other: "n \<notin> set (inorder T) \<Longrightarrow> map_tree (ren n m) T = T"
  by (induction T) (auto simp: ren_def)

lemma ren_frames: "n \<notin> faddr fs \<Longrightarrow> map (map_frame (ren n m)) fs = fs"
proof (induction fs)
  case (Cons f fs)
  then show ?case by (cases f) (simp_all add: ren_other, simp_all add: ren_def)
qed simp

lemma ren_plug:
  assumes "distinct (inorder (plug fs \<langle>L, n, R\<rangle>))"
  shows "map_tree (ren n m) (plug fs \<langle>L, n, R\<rangle>) = plug fs \<langle>L, m, R\<rangle>"
proof -
  have "n \<notin> faddr fs" "n \<notin> set (inorder L)" "n \<notin> set (inorder R)" using assms by (auto simp: faddr_def)
  then show ?thesis by (simp add: map_plug ren_frames ren_other) (simp add: ren_def)
qed

lemma fnode_map: "fnode (map_frame g f) = g (fnode f)" "sibling (map_frame g f) = map_tree g (sibling f)"
  by (cases f; simp)+

lemma map_colour:
  assumes "\<And>a. a \<in> set (inorder T) \<Longrightarrow> c' (g a) = c a"
  shows "redt c' (map_tree g T) = redt c T" "cinv c' (map_tree g T) = cinv c T" "bh c' (map_tree g T) = bh c T"
    "hinv c' (map_tree g T) = hinv c T"
proof -
  have r: "redt c' (map_tree g T) = redt c T" if "\<forall>a\<in>set (inorder T). c' (g a) = c a" for T
    using that by (cases T) simp_all
  then show "redt c' (map_tree g T) = redt c T" using assms by blast
  have b: "bh c' (map_tree g T) = bh c T" if "\<forall>a\<in>set (inorder T). c' (g a) = c a" for T
    using that by (induction T) simp_all
  then show "bh c' (map_tree g T) = bh c T" using assms by blast
  have i: "cinv c' (map_tree g T) = cinv c T \<and> hinv c' (map_tree g T) = hinv c T" if "\<forall>a\<in>set (inorder T). c' (g a) = c a" for T
    using that by (induction T) (simp_all add: r b)
  then show "cinv c' (map_tree g T) = cinv c T" "hinv c' (map_tree g T) = hinv c T" using assms by blast+
qed

lemma map_cok:
  "(\<And>a. a \<in> faddr fs \<Longrightarrow> c' (g a) = c a) \<Longrightarrow> cok c' (map (map_frame g) fs) k = cok c fs k"
proof (induction fs arbitrary: k)
  case (Cons f fs)
  have s: "\<And>a. a \<in> set (inorder (sibling f)) \<Longrightarrow> c' (g a) = c a" "c' (g (fnode f)) = c (fnode f)"
    "\<And>a. a \<in> faddr fs \<Longrightarrow> c' (g a) = c a"
    using Cons.prems by (cases f; simp)+
  have "topred c' (map (map_frame g) fs) = topred c fs"
    using s(3) by (cases fs; cases "hd fs") (auto simp: fnode_map)
  then show ?case using Cons.IH s map_colour [of "sibling f" c' g c] by (simp add: fnode_map)
qed simp

lemma map_deficit:
  assumes "\<And>a. a \<in> set (inorder (plug fs T)) \<Longrightarrow> c' (g a) = c a"
  shows "deficit c' (map (map_frame g) fs) (map_tree g T) = deficit c fs T"
proof -
  have T: "\<And>a. a \<in> set (inorder T) \<Longrightarrow> c' (g a) = c a" and f: "\<And>a. a \<in> faddr fs \<Longrightarrow> c' (g a) = c a"
    using assms by (auto simp: faddr_def)
  have "wcinv c' (map_tree g T) = wcinv c T"
    using T map_colour(2) [of _ c' g c] by (cases T) simp_all
  moreover have "fs \<noteq> [] \<Longrightarrow> c' (fnode (last (map (map_frame g) fs))) = c (fnode (last fs))"
    using f last_addr by (simp add: last_map fnode_map)
  ultimately show ?thesis using map_colour [of T c' g c] T map_cok [of fs c' g c] f by (simp add: deficit_def)
qed

text \<open>
  When the least node \<open>m\<close> has been unlinked, the parent link of its child is set to the node
  that will be there in the end; around the node \<open>n\<close> the heap holds the rest of the tree.
\<close>

lemma detached:
  assumes "unlink m (Some q) p t = Some t1" "p = Some c" "c \<notin> faddr (FL q R # gs)" "C = \<langle>\<rangle> \<longrightarrow> c = s" "C \<noteq> \<langle>\<rangle> \<longrightarrow> c \<noteq> s"
    and "rb_sentinel t1 = Some s"
    and "\<And>t2. set_parent p (Some q) t1 = Some t2 \<Longrightarrow> rep t2 (plug (FL q R # gs) C) \<and> hole t2 (FL q R # gs) C p"
    and "n \<in> set (inorder (plug (FL q R # gs) C))"
  shows "\<exists>u fs L R' pl pr. set_parent p (if q = n then Some m else Some q) t1 = Some u \<and> plug (FL q R # gs) C = plug fs \<langle>L, n, R'\<rangle>
    \<and> ctx (Some s) (rb_nodes u) (rb_root u) fs (rb_parent (rb_nodes u n)) (Some n)
    \<and> is_tree (Some s) (rb_nodes u) pl (rb_left (rb_nodes u n)) L \<and> is_tree (Some s) (rb_nodes u) pr (rb_right (rb_nodes u n)) R'
    \<and> (C = \<langle>\<rangle> \<longrightarrow> rb_parent (rb_nodes u s) = Some (ren n m q)) \<and> (C \<noteq> \<langle>\<rangle> \<longrightarrow> (\<exists>l r. C = \<langle>l, c, r\<rangle>))"
proof -
  let ?h = "rb_nodes t1"
  let ?t2 = "t1\<lparr>rb_nodes := ?h(c := (?h c)\<lparr>rb_parent := Some q\<rparr>)\<rparr>"
  have t2: "set_parent p (Some q) t1 = Some ?t2" using assms(2) by (simp add: wr_def)
  have rep: "rep ?t2 (plug (FL q R # gs) C)" and hole: "hole ?t2 (FL q R # gs) C p" using assms(7) [OF t2] by blast+
  have C: "C \<noteq> \<langle>\<rangle> \<longrightarrow> (\<exists>l r. C = \<langle>l, c, r\<rangle>)" using hole assms(2) by (cases C) auto
  show ?thesis
  proof (cases "q = n")
    case False
    obtain fs L R' where pos: "plug (FL q R # gs) C = plug fs \<langle>L, n, R'\<rangle>" using find_node [OF assms(8)] by blast
    then have "rep ?t2 (plug fs \<langle>L, n, R'\<rangle>)" using rep by simp
    then have at: "ctx (Some s) (rb_nodes ?t2) (rb_root ?t2) fs (rb_parent (rb_nodes ?t2 n)) (Some n)"
      "is_tree (Some s) (rb_nodes ?t2) (Some n) (rb_left (rb_nodes ?t2 n)) L"
      "is_tree (Some s) (rb_nodes ?t2) (Some n) (rb_right (rb_nodes ?t2 n)) R'"
      unfolding rep_def is_tree_plug_Node using assms(6) by simp_all
    have par: "C = \<langle>\<rangle> \<longrightarrow> rb_parent (rb_nodes ?t2 s) = Some (ren n m q)" using assms(4) False by (simp add: ren_def)
    show ?thesis
      by (rule exI [of _ ?t2], rule exI [of _ fs], rule exI [of _ L], rule exI [of _ R'], rule exI [of _ "Some n"], rule exI [of _ "Some n"])
        (use t2 False pos at par C in \<open>simp del: rbtree.simps plug.simps\<close>)
  next
    case True
    let ?u = "t1\<lparr>rb_nodes := ?h(c := (?h c)\<lparr>rb_parent := Some m\<rparr>)\<rparr>"
    have u: "set_parent p (if q = n then Some m else Some q) t1 = Some ?u" using assms(2) True by (simp add: wr_def)
    have "rep ?t2 (plug gs \<langle>C, n, R\<rangle>)" using rep True by simp
    then have at: "ctx (Some s) (rb_nodes ?t2) (rb_root ?t2) gs (rb_parent (rb_nodes ?t2 n)) (Some n)"
      "is_tree (Some s) (rb_nodes ?t2) (Some n) (rb_left (rb_nodes ?t2 n)) C"
      "is_tree (Some s) (rb_nodes ?t2) (Some n) (rb_right (rb_nodes ?t2 n)) R" "distinct (inorder C)"
      unfolding rep_def is_tree_plug_Node using assms(6) by simp_all
    have c: "c \<noteq> n" "c \<notin> faddr gs" "c \<notin> set (inorder R)" using assms(3) True by auto
    have top: "rb_left (rb_nodes ?t2 n) = p"
      using hole_child(1) [OF hole rep] True by (simp add: rd_def)
    have "rb_nodes ?u = (rb_nodes ?t2)(c := (rb_nodes ?t2 c)\<lparr>rb_parent := Some m\<rparr>)" by simp
    then have "is_tree (Some s) (rb_nodes ?u) (Some m) (rb_left (rb_nodes ?t2 n)) C"
      using is_tree_top [OF at(2) _ at(4), of c "Some m"] top assms(2) by simp
    moreover have "is_tree (Some s) (rb_nodes ?u) (Some n) (rb_right (rb_nodes ?t2 n)) R"
      "ctx (Some s) (rb_nodes ?u) (rb_root ?u) gs (rb_parent (rb_nodes ?t2 n)) (Some n)"
      using at(1,3) c by simp_all
    moreover have "rb_nodes ?u n = rb_nodes ?t2 n" using c(1) by simp
    moreover have "C = \<langle>\<rangle> \<longrightarrow> rb_parent (rb_nodes ?u s) = Some (ren n m q)" using assms(4) True by (simp add: ren_def)
    moreover have "plug (FL q R # gs) C = plug gs \<langle>C, n, R\<rangle>" using True by simp
    ultimately show ?thesis using u C by metis
  qed
qed

text \<open>Below the least node there is at most one red node.\<close>

lemma least_child:
  assumes "cinv c (plug gs \<langle>\<langle>\<rangle>, m, C\<rangle>)" "hinv c (plug gs \<langle>\<langle>\<rangle>, m, C\<rangle>)"
  shows "C = \<langle>\<rangle> \<or> (\<exists>a. C = \<langle>\<langle>\<rangle>, a, \<langle>\<rangle>\<rangle>)"
proof -
  have "cinv c C" "hinv c C" "bh c C = 0" using colour_plug [of c gs "\<langle>\<langle>\<rangle>, m, C\<rangle>"] assms by auto
  moreover have leaf: "T = \<langle>\<rangle>" if "bh c T = 0" "\<not> redt c T" for T using that by (cases T) auto
  ultimately show ?thesis by (cases C) (auto split: if_splits)
qed

lemma remove_double:
  assumes "shaped t T" "T = plug fs \<langle>A, n, B\<rangle>" "A \<noteq> \<langle>\<rangle>" "B \<noteq> \<langle>\<rangle>"
  shows "\<exists>t' T' m xs ys. rb_remove (Some n) t = Some t' \<and> shaped t' T' \<and> kept_but n t t'
    \<and> inorder T = m # xs @ n # ys \<and> inorder T' = xs @ m # ys"
proof -
  let ?h = "rb_nodes t"
  obtain s where s: "rb_sentinel t = Some s" "\<not> reds t s" using assms(1) by (auto simp: shaped_def split: option.splits)
  have rep: "rep t T" and col: "cinv (reds t) T" "hinv (reds t) T" "\<not> redt (reds t) T"
    using assms(1) by (simp_all add: shaped_def)
  note n = rep_ptr [OF rep [unfolded assms(2)]]
  have nl: "rb_left (?h n) \<noteq> rb_sentinel t" "rb_right (?h n) \<noteq> rb_sentinel t"
    using is_tree_sentinel [OF n(3)] is_tree_sentinel [OF n(4)] assms(3,4) by simp_all
  have "T \<noteq> \<langle>\<rangle>" unfolding assms(2) by (rule plug_not_Leaf) simp
  then obtain gs m C where m: "T = plug gs \<langle>\<langle>\<rangle>, m, C\<rangle>" "pre gs = []" using find_least by blast
  have repm: "rep t (plug gs \<langle>\<langle>\<rangle>, m, C\<rangle>)" using rep m(1) by simp
  note mp = rep_ptr [OF repm]
  define p where "p = rb_right (?h m)"
  have C: "is_tree (Some s) ?h (Some m) p C" using mp(4) s(1) by (simp add: p_def)
  have "rb_left (?h m) = Some s" using mp(3) s(1) by simp
  then have mn: "m \<noteq> n" using nl(1) s(1) by auto
  have nC: "n \<notin> set (inorder C)"
  proof
    assume "n \<in> set (inorder C)"
    then have "C = \<langle>\<langle>\<rangle>, n, \<langle>\<rangle>\<rangle>" using least_child [of "reds t" gs m C] col m(1) by auto
    then have "rb_left (?h n) = Some s" using C by simp
    then show False using nl(1) s(1) by simp
  qed
  have in_T: "n \<in> set (inorder T)" "inorder T = m # inorder (plug gs C)"
  proof -
    show "n \<in> set (inorder T)" unfolding assms(2) by simp
    show "inorder T = m # inorder (plug gs C)" unfolding m(1) by (simp add: m(2))
  qed
  then have in_gs: "n \<in> set (inorder (plug gs C))" using mn by simp
  then have "gs \<noteq> []" using nC by auto
  then obtain q R gs' where gs: "gs = FL q R # gs'" using m(2) by (cases gs; cases "hd gs") auto
  have dist: "distinct (m # inorder (plug gs C))" "s \<notin> set (inorder T)"
    using rep in_T(2) rep_null [OF rep s(1)] by (simp_all add: rep_def del: inorder_plug)
  have root: "rb_root t \<noteq> Some m"
  proof -
    have "ctx (rb_sentinel t) ?h (rb_root t) gs (rb_parent (?h m)) (Some m)" "m \<notin> faddr gs"
      using repm dist(1) by (auto simp: rep_def is_tree_plug_Node faddr_def)
    then show ?thesis using ctx_root gs by fastforce
  qed
  have par: "rd rb_parent (Some m) t = Some (Some q)" using rep_parent [of t "FL q R" gs' "\<langle>\<rangle>" m C] repm gs by simp
  have sel: "(if rb_left (?h n) = rb_sentinel t then Some (Some n, rb_right (?h n)) else if rb_right (?h n) = rb_sentinel t
      then Some (Some n, rb_left (?h n)) else do { subst \<leftarrow> rb_min t; temp \<leftarrow> rd rb_right subst t; Some (subst, temp) }) = Some (Some m, p)"
    using nl rb_min_rep [OF rep] \<open>T \<noteq> \<langle>\<rangle>\<close> in_T(2) mp(2) by (simp add: p_def)
  have "only_child \<langle>\<langle>\<rangle>, m, C\<rangle> m C" by (simp add: only_child_def)
  from unlink_rep [OF repm [unfolded gs] this s(1) C] obtain t1 c where t1: "unlink m (Some q) p t = Some t1" "p = Some c"
    "c \<notin> faddr (FL q R # gs')" "C = \<langle>\<rangle> \<longrightarrow> c = s" "C \<noteq> \<langle>\<rangle> \<longrightarrow> c \<noteq> s" "rb_sentinel t1 = Some s" "same_content ?h (rb_nodes t1)"
    "\<And>a. a \<noteq> q \<Longrightarrow> rb_nodes t1 a = ?h a"
    "\<And>t2. set_parent p (Some q) t1 = Some t2 \<Longrightarrow> rep t2 (plug (FL q R # gs') C) \<and> hole t2 (FL q R # gs') C p" by auto
  obtain u fs1 L R' pl pr where u: "set_parent p (if q = n then Some m else Some q) t1 = Some u"
    "plug (FL q R # gs') C = plug fs1 \<langle>L, n, R'\<rangle>" "ctx (Some s) (rb_nodes u) (rb_root u) fs1 (rb_parent (rb_nodes u n)) (Some n)"
    "is_tree (Some s) (rb_nodes u) pl (rb_left (rb_nodes u n)) L" "is_tree (Some s) (rb_nodes u) pr (rb_right (rb_nodes u n)) R'"
    "C = \<langle>\<rangle> \<longrightarrow> rb_parent (rb_nodes u s) = Some (ren n m q)" "C \<noteq> \<langle>\<rangle> \<longrightarrow> (\<exists>l r. C = \<langle>l, c, r\<rangle>)"
    using detached [OF t1(1-6,9)] in_gs [unfolded gs] by metis
  have pos: "plug gs C = plug fs1 \<langle>L, n, R'\<rangle>" using u(2) gs by simp
  have "rb_sentinel u = rb_sentinel t \<and> same_content ?h (rb_nodes u)"
    using set_parent_content [OF u(1)] t1(6,7) s(1) same_content_trans by metis
  note k = rotated [OF this]
  then have su: "rb_sentinel u = Some s" using s(1) by (simp add: kept_def)
  have d: "distinct (inorder (plug fs1 \<langle>L, n, R'\<rangle>))" "m \<notin> set (inorder (plug fs1 \<langle>L, n, R'\<rangle>))"
    "s \<noteq> m" "s \<notin> set (inorder (plug fs1 \<langle>L, n, R'\<rangle>))"
    using dist unfolding in_T(2) pos by (simp_all del: inorder_plug)
  from replace_at_rep [OF su u(3-5) d] obtain t3 where t3: "replace_at (Some n) (Some m) u = Some t3"
    "rep t3 (plug fs1 \<langle>L, m, R'\<rangle>)" "kept u t3" "reds t3 = (reds u)(m := reds u n)" "rb_nodes t3 s = rb_nodes u s" by blast
  have "q \<noteq> m" using dist(1) gs by auto
  then have "rd rb_parent (Some m) t1 = Some (Some q)" using t1(8) par by (simp add: rd_def)
  then have "remove_replace (Some n) (Some m) p t1 = Some t3"
    using remove_replace_split [where node = "Some n" and temp = p and t' = u] u(1) t3(1) by (simp split: if_splits)
  with mn have run: "rb_remove (Some n) t = (if reds t m then Some (cleared n t3) else remove_fix p (cleared n t3))"
    by (intro remove_run [OF n(1,2) sel root par t1(1)]) simp
  let ?gs = "map (map_frame (ren n m)) gs"
  have C': "map_tree (ren n m) C = C" by (rule ren_other [OF nC])
  have new: "plug ?gs C = plug fs1 \<langle>L, m, R'\<rangle>"
    using map_plug [of "ren n m" gs C] ren_plug [OF d(1), of m] pos C' by simp
  have s3: "rb_sentinel t3 = Some s" using t3(3) su by (simp add: kept_def)
  have c3: "reds t3 (ren n m a) = reds t a" if "a \<in> set (inorder (plug gs C))" for a
  proof -
    have "a \<noteq> m" using that dist(1) by auto
    then show ?thesis using t3(4) k by (simp add: ren_def)
  qed
  note colours = removed_colours [OF col(1-3) [unfolded m(1)] \<open>only_child \<langle>\<langle>\<rangle>, m, C\<rangle> m C\<close>]
  have "\<exists>t' T'. (if reds t m then Some (cleared n t3) else remove_fix p (cleared n t3)) = Some t' \<and> shaped t' T' \<and> kept_but n t3 t'
    \<and> inorder T' = inorder (plug ?gs C)"
  proof (rule remove_end)
    show "rep t3 (plug ?gs C)" using t3(2) unfolding new .
    show "rb_sentinel t3 = Some s" by (rule s3)
    show "\<not> reds t3 s" using t3(4) k s(2) d(3) by simp
    show "s \<noteq> n" using in_T(1) dist(2) by auto
    show "n \<notin> set (inorder (plug ?gs C))" unfolding new using d(1) mn by auto
    show "cinv (reds t3) (plug ?gs C) \<and> hinv (reds t3) (plug ?gs C) \<and> \<not> redt (reds t3) (plug ?gs C)" if "reds t m"
      using map_colour [of "plug gs C" "reds t3" "ren n m" "reds t"] c3 colours(1) [OF that] C'
      by (simp add: map_plug del: inorder_plug)
    show "hole t3 ?gs C p \<and> deficit (reds t3) ?gs C" if "\<not> reds t m"
    proof
      show "hole t3 ?gs C p"
      proof (cases "C = \<langle>\<rangle>")
        case True
        then have "p = Some s" "rb_parent (rb_nodes t3 s) = Some (ren n m q)" using t1(2,4) u(6) t3(5) by simp_all
        then show ?thesis using True s3 gs by (simp add: rd_def)
      next
        case False
        then show ?thesis using u(7) t1(2) by auto
      qed
      show "deficit (reds t3) ?gs C"
        using map_deficit [of gs C "reds t3" "ren n m" "reds t"] c3 colours(2) [OF that] C' by simp
    qed
  qed
  then obtain t' T' where t': "rb_remove (Some n) t = Some t'" "shaped t' T'" "kept_but n t3 t'"
    "inorder T' = inorder (plug fs1 \<langle>L, m, R'\<rangle>)" unfolding run new by blast
  have "kept_but n t t'" using kept_kept_but [OF kept_trans [OF _ t3(3)] t'(3)] k by blast
  moreover have "inorder T = m # (pre fs1 @ inorder L) @ n # (inorder R' @ post fs1)" using in_T(2) unfolding pos by simp
  moreover have "inorder T' = (pre fs1 @ inorder L) @ m # (inorder R' @ post fs1)" using t'(4) by simp
  ultimately show ?thesis using t'(1,2) by metis
qed

lemma shaped_balanced: "shaped t T \<Longrightarrow> 2 ^ height T \<le> (length (inorder T) + 1) ^ 2"
  using colours_balanced by (auto simp: shaped_def)

lemma remove_single_ok:
  assumes "rb_ok t T" "n \<in> set (inorder T)"
    and "rb_left (rb_nodes t n) = rb_sentinel t \<or> rb_right (rb_nodes t n) = rb_sentinel t"
  shows "\<exists>t' T'. rb_remove (Some n) t = Some t' \<and> rb_ok t' T' \<and> kept_but n t t' \<and> inorder T' = remove1 n (inorder T)"
proof -
  have ok: "shaped t T" "sorted (keys t T)" using assms(1) by (simp_all add: rb_ok_shaped)
  obtain fs A B where T: "T = plug fs \<langle>A, n, B\<rangle>" using find_node [OF assms(2)] by blast
  have d: "distinct (inorder T)" and rep: "rep t (plug fs \<langle>A, n, B\<rangle>)" using ok(1) T by (simp_all add: shaped_def rep_def)
  note n = rep_ptr [OF rep]
  have "A = \<langle>\<rangle> \<or> B = \<langle>\<rangle>" using assms(3) is_tree_sentinel [OF n(3)] is_tree_sentinel [OF n(4)] by blast
  from remove_single [OF ok(1) [unfolded T] this] obtain t' T' where t': "rb_remove (Some n) t = Some t'" "shaped t' T'" "kept_but n t t'"
    "inorder T' = pre fs @ inorder A @ inorder B @ post fs" by blast
  have "n \<notin> set (pre fs)" "n \<notin> set (inorder A)" using d unfolding T by auto
  then have o: "inorder T' = remove1 n (inorder T)" unfolding t'(4) T by (simp add: remove1_append)
  have "n \<notin> set (inorder T')" using d unfolding o by simp
  then have "keys t' T' = keys t T'" using t'(3) by (auto simp: keys_def kept_but_def)
  moreover have "sorted (keys t T')" using ok(2) unfolding keys_def o by (rule sorted_map_remove1)
  ultimately show ?thesis using t' o by (auto simp: rb_ok_shaped)
qed

section \<open>Properties\<close>

text \<open>C29. Removing a node of a good tree follows no null pointer and ends; the result is a tree of the
  other nodes with its colours right and a height of at most twice the logarithm of its size,
  keys and data unchanged. If the node has at most one child, the order stays; but for a node
  with two children the first node of the whole tree moves into its place.\<close>
theorem remove_correct:
  assumes "rb_ok t T" "n \<in> set (inorder T)"
  shows "\<exists>t' T'. rb_remove (Some n) t = Some t' \<and> shaped t' T' \<and> kept_but n t t' \<and> set (inorder T') = set (inorder T) - {n}
    \<and> 2 ^ height T' \<le> (length (inorder T)) ^ 2
    \<and> (if rb_left (rb_nodes t n) = rb_sentinel t \<or> rb_right (rb_nodes t n) = rb_sentinel t
       then rb_ok t' T' \<and> inorder T' = remove1 n (inorder T)
       else \<exists>m xs ys. inorder T = m # xs @ n # ys \<and> inorder T' = xs @ m # ys)"
proof -
  have ok: "shaped t T" "sorted (keys t T)" and d: "distinct (inorder T)"
    using assms(1) by (simp_all add: rb_ok_shaped shaped_def rep_def)
  have size: "2 ^ height T' \<le> (length (inorder T)) ^ 2" if "shaped t' T'" "length (inorder T') + 1 = length (inorder T)" for t' T'
    using shaped_balanced [OF that(1)] that(2) by simp
  show ?thesis
  proof (cases "rb_left (rb_nodes t n) = rb_sentinel t \<or> rb_right (rb_nodes t n) = rb_sentinel t")
    case True
    from remove_single_ok [OF assms this] obtain t' T' where t': "rb_remove (Some n) t = Some t'" "rb_ok t' T'" "kept_but n t t'"
      "inorder T' = remove1 n (inorder T)" by blast
    moreover have "length (inorder T') + 1 = length (inorder T)"
      unfolding t'(4) length_remove1 using assms(2) length_pos_if_in_set [of n "inorder T"] by simp
    moreover have "set (inorder T') = set (inorder T) - {n}" unfolding t'(4) using d by (rule set_remove1_eq)
    moreover have "shaped t' T'" using t'(2) by (simp add: rb_ok_shaped)
    ultimately show ?thesis using True size [of t' T'] by (intro exI [of _ t'] exI [of _ T']) simp
  next
    case False
    obtain fs A B where T: "T = plug fs \<langle>A, n, B\<rangle>" using find_node [OF assms(2)] by blast
    then have "rep t (plug fs \<langle>A, n, B\<rangle>)" using ok(1) by (simp add: shaped_def)
    note n = rep_ptr [OF this]
    have "A \<noteq> \<langle>\<rangle>" "B \<noteq> \<langle>\<rangle>" using False is_tree_sentinel [OF n(3)] is_tree_sentinel [OF n(4)] by auto
    from remove_double [OF ok(1) T this] obtain t' T' m xs ys where t': "rb_remove (Some n) t = Some t'" "shaped t' T'" "kept_but n t t'"
      "inorder T = m # xs @ n # ys" "inorder T' = xs @ m # ys" by blast
    moreover have "set (inorder T') = set (inorder T) - {n}" unfolding t'(4,5) using d unfolding t'(4) by auto
    moreover have "length (inorder T') + 1 = length (inorder T)" unfolding t'(4,5) by simp
    ultimately show ?thesis using False size [of t' T'] by (intro exI [of _ t'] exI [of _ T']) auto
  qed
qed

text \<open>In the example the node 4 has two children, the node 2 has one.\<close>

theorem remove_correct_witness:
  "(\<exists>t T. rb_remove (Some 4) demo_tree = Some t \<and> shaped t T \<and> inorder T = [2, 3, 5, 1, 6])
   \<and> (\<exists>t T. rb_remove (Some 2) demo_tree = Some t \<and> rb_ok t T \<and> inorder T = [1, 3, 5, 4, 6])"
proof -
  let ?T = "\<langle>\<langle>\<langle>\<langle>\<rangle>, 1, \<langle>\<rangle>\<rangle>, 2, \<langle>\<rangle>\<rangle>, 3, \<langle>\<langle>\<langle>\<rangle>, 5, \<langle>\<rangle>\<rangle>, 4, \<langle>\<langle>\<rangle>, 6, \<langle>\<rangle>\<rangle>\<rangle>\<rangle> :: nat tree"
  have ok: "rb_ok demo_tree ?T"
    unfolding rb_ok_def by (intro conjI, rule demo_tree_rep, simp_all add: keys_def reds_def demo_tree_def rbnode_new_def)
  have in_T: "4 \<in> set (inorder ?T)" "2 \<in> set (inorder ?T)" by simp_all
  have "\<not> (rb_left (rb_nodes demo_tree 4) = rb_sentinel demo_tree \<or> rb_right (rb_nodes demo_tree 4) = rb_sentinel demo_tree)"
    "rb_left (rb_nodes demo_tree 2) = rb_sentinel demo_tree \<or> rb_right (rb_nodes demo_tree 2) = rb_sentinel demo_tree"
    by (simp_all add: demo_tree_def)
  note two = this
  obtain t T m xs ys where 1: "rb_remove (Some 4) demo_tree = Some t" "shaped t T" "inorder ?T = m # xs @ 4 # ys" "inorder T = xs @ m # ys"
    using remove_correct [OF ok in_T(1)] two(1) by (simp only: if_False) blast
  obtain t' T' where 2: "rb_remove (Some 2) demo_tree = Some t'" "rb_ok t' T'" "inorder T' = remove1 2 (inorder ?T)"
    using remove_correct [OF ok in_T(2)] two(2) by (simp only: if_True) blast
  have "m = 1" "xs @ 4 # ys = [2, 3, 5] @ 4 # [6]" using 1(3) by simp_all
  then have "xs = [2, 3, 5] \<and> ys = [6]" by (auto simp: append_eq_Cons_conv Cons_eq_append_conv)
  then show ?thesis using 1 2 \<open>m = 1\<close> by auto
qed

section \<open>A queue of timeouts\<close>

text \<open>
  What the loop of the instance needs of its tree: the first element in the order of the keys,
  and its removal.
\<close>

locale timeouts =
  fixes add :: "'a \<Rightarrow> 'q \<Rightarrow> 'q option" and least :: "'q \<Rightarrow> 'a option option" and del :: "'a option \<Rightarrow> 'q \<Rightarrow> 'q option"
    and key :: "'q \<Rightarrow> 'a \<Rightarrow> int" and queued :: "'q \<Rightarrow> 'a list \<Rightarrow> bool" and usable :: "'q \<Rightarrow> 'a \<Rightarrow> bool"
  assumes queued_sorted: "queued q xs \<Longrightarrow> sorted (map (key q) xs)"
    and queued_distinct: "queued q xs \<Longrightarrow> distinct xs"
    and least_first: "queued q xs \<Longrightarrow> least q = Some (if xs = [] then None else Some (hd xs))"
    and del_first: "queued q (x # xs) \<Longrightarrow> \<exists>q'. del (Some x) q = Some q' \<and> queued q' xs"
    and add_new: "queued q xs \<Longrightarrow> usable q x \<Longrightarrow> x \<notin> set xs
      \<Longrightarrow> \<exists>q' xs'. add x q = Some q' \<and> queued q' xs' \<and> set xs' = insert x (set xs) \<and> key q' = key q"
begin

text \<open>The loop, while all timeouts are over.\<close>

fun takes :: "nat \<Rightarrow> 'q \<Rightarrow> ('a list \<times> 'q) option" where
  "takes 0 q = Some ([], q)"
| "takes (Suc k) q = do {
     p \<leftarrow> least q;
     case p of None \<Rightarrow> Some ([], q)
     | Some x \<Rightarrow> do { q \<leftarrow> del p q; (xs, q) \<leftarrow> takes k q; Some (x # xs, q) }
   }"

lemma takes_queued: "queued q xs \<Longrightarrow> \<exists>q'. takes (length xs) q = Some (xs, q') \<and> least q' = Some None"
proof (induction xs arbitrary: q)
  case Nil
  then show ?case using least_first by fastforce
next
  case (Cons x xs)
  from del_first [OF Cons.prems] obtain q1 where q1: "del (Some x) q = Some q1" "queued q1 xs" by blast
  from Cons.IH [OF q1(2)] obtain q' where "takes (length xs) q1 = Some (xs, q')" "least q' = Some None" by blast
  then show ?case using least_first [OF Cons.prems] q1(1) by simp
qed

lemma takes_in_order:
  assumes "queued q xs"
  shows "\<exists>ys q'. takes (length xs) q = Some (ys, q') \<and> distinct ys \<and> set ys = set xs \<and> sorted (map (key q) ys) \<and> least q' = Some None"
  using takes_queued [OF assms] queued_sorted [OF assms] queued_distinct [OF assms] by blast

lemma add_takes:
  assumes "queued q xs" "usable q x" "x \<notin> set xs"
  shows "\<exists>q1 ys q'. add x q = Some q1 \<and> takes (Suc (length xs)) q1 = Some (ys, q') \<and> set ys = insert x (set xs)
    \<and> sorted (map (key q) ys) \<and> least q' = Some None"
proof -
  from add_new [OF assms] obtain q1 xs' where q1: "add x q = Some q1" "queued q1 xs'" "set xs' = insert x (set xs)" "key q1 = key q"
    by blast
  have "length xs' = Suc (length xs)"
    using distinct_card [OF queued_distinct [OF q1(2)]] distinct_card [OF queued_distinct [OF assms(1)]] q1(3) assms(3) by simp
  then show ?thesis using takes_in_order [OF q1(2)] q1 by metis
qed

end

definition rb_queued :: "rbtree \<Rightarrow> nat list \<Rightarrow> bool" where
  "rb_queued t xs \<longleftrightarrow> (\<exists>T. rb_ok t T \<and> inorder T = xs)"

lemma remove_first:
  assumes "rb_ok t T" "inorder T = x # xs"
  shows "\<exists>t' T'. rb_remove (Some x) t = Some t' \<and> rb_ok t' T' \<and> inorder T' = xs"
proof -
  have rep: "rep t T" using assms(1) by (simp add: rb_ok_def)
  have "T \<noteq> \<langle>\<rangle>" using assms(2) by auto
  then obtain gs m C where m: "T = plug gs \<langle>\<langle>\<rangle>, m, C\<rangle>" "pre gs = []" using find_least by blast
  then have x: "m = x" using assms(2) by simp
  have "rb_left (rb_nodes t x) = rb_sentinel t" using rep_ptr(3) [OF rep [unfolded m(1)]] x by simp
  with remove_single_ok [OF assms(1), of x] assms(2) show ?thesis by auto
qed

interpretation timers: timeouts rb_insert rb_min rb_remove "\<lambda>t a. rb_key (rb_nodes t a)" rb_queued "\<lambda>t a. rb_sentinel t \<noteq> Some a"
proof
  show "sorted (map (\<lambda>a. rb_key (rb_nodes t a)) xs)" "distinct xs" if "rb_queued t xs" for t xs
    using that by (auto simp: rb_queued_def rb_ok_def keys_def rep_def)
  show "rb_min t = Some (if xs = [] then None else Some (hd xs))" if "rb_queued t xs" for t xs
    using that rb_min_rep unfolding rb_queued_def rb_ok_def by fastforce
  show "\<exists>t'. rb_remove (Some x) t = Some t' \<and> rb_queued t' xs" if "rb_queued t (x # xs)" for t x xs
    using that remove_first unfolding rb_queued_def by metis
  show "\<exists>t' xs'. rb_insert x t = Some t' \<and> rb_queued t' xs' \<and> set xs' = insert x (set xs)
      \<and> (\<lambda>a. rb_key (rb_nodes t' a)) = (\<lambda>a. rb_key (rb_nodes t a))"
    if "rb_queued t xs" "rb_sentinel t \<noteq> Some x" "x \<notin> set xs" for t xs x
  proof -
    from that(1) obtain T where T: "rb_ok t T" "inorder T = xs" unfolding rb_queued_def by blast
    from rb_insert_rep [OF T(1) _ that(2)] T(2) that(3) obtain t' T' where t': "rb_insert x t = Some t'" "rb_ok t' T'" "kept t t'"
      "inorder T' = filter (\<lambda>a. rb_key (rb_nodes t a) \<le> rb_key (rb_nodes t x)) (inorder T) @ x
        # filter (\<lambda>a. \<not> rb_key (rb_nodes t a) \<le> rb_key (rb_nodes t x)) (inorder T)" by blast
    then show ?thesis using keys_insert(1) [OF t'(4)] T(2) by (auto simp: rb_queued_def kept_def)
  qed
qed

text \<open>The first node is taken out again and again, as the loop of the instance does.\<close>

fun rb_takes :: "nat \<Rightarrow> rbtree \<Rightarrow> (nat list \<times> rbtree) option" where
  "rb_takes 0 t = Some ([], t)"
| "rb_takes (Suc k) t = do {
     p \<leftarrow> rb_min t;
     case p of None \<Rightarrow> Some ([], t)
     | Some x \<Rightarrow> do { t \<leftarrow> rb_remove p t; (xs, t) \<leftarrow> rb_takes k t; Some (x # xs, t) }
   }"

lemma rb_takes_timers: "timers.takes k t = rb_takes k t"
  by (induction k arbitrary: t) (simp_all cong: option.case_cong)



end
