(* ===== verification/Spec2Isabelle.thy ===== *)
theory Spec2Isabelle
  imports NcRecycle NcKqueue NcRbRemove
begin

text \<open>
  Verification development of nutcracker, a proxy between clients and a pool of servers.

  \<^bold>\<open>The program.\<close> \<open>main\<close> (\<^verbatim>\<open>nc.cpp\<close>) reads its options and the configuration (\<^verbatim>\<open>nc_conf.cpp\<close>,
  over the events of libyaml), makes a context from it (\<^verbatim>\<open>nc_core.cpp\<close>) and enters the loop of
  the instance. The event base (\<^verbatim>\<open>event/\<close>) calls \<open>NcConn::callback\<close> (\<^verbatim>\<open>nc_connection.cpp\<close>) for
  each connection that is ready: \<open>recvChain\<close> reads into the mbufs of a message, \<open>sendChain\<close>
  writes those of many messages. What happens to a message is up to the kind of the connection:
  \<open>NcProxyConn\<close> accepts clients, \<open>NcClientConn\<close> forwards requests, \<open>NcServerConn\<close> pairs
  responses with them. Messages, mbufs and connections live in object pools of the context. A
  request is in the outgoing queue of its client until its response is written, in the incoming
  queue of its server until it is sent, and in the outgoing queue of the server until the
  response is there.

  \<^bold>\<open>Theories and sources.\<close> Definitions keep the names of the sources, with the class as a prefix
  where it is needed (\<open>mbuf_split\<close> is \<open>NcMbuf::split\<close>).
  \<^item> \<open>NcPrelude\<close>: machine types, status codes, conversions of C, collections of rules.
  \<^item> \<open>NcUtil\<close>, \<open>NcSys\<close> (\<^verbatim>\<open>nc_util.h\<close>, \<^verbatim>\<open>nc_util.cpp\<close>): number parsing, counters, \<open>_nc_sendn\<close>,
    \<open>_nc_recvn\<close>; socket options, clocks, daemonizing and the pid file as sequences of calls.
  \<^item> \<open>NcString\<close> (\<^verbatim>\<open>nc_string.h\<close>), \<open>NcQueue\<close> (\<open>NcQueue\<close> of \<^verbatim>\<open>nc_queue.h\<close>, \<open>NcObjectPool\<close> of
    \<^verbatim>\<open>nc_core.h\<close>), \<open>NcMbuf\<close> (\<^verbatim>\<open>nc_mbuf.h\<close>), \<open>NcLog\<close> (\<^verbatim>\<open>nc_log.h\<close>, \<^verbatim>\<open>nc_log.cpp\<close>,
    \<^verbatim>\<open>nc_signal.h\<close>).
  \<^item> \<open>HashFnv\<close>, \<open>HashCrc\<close>, \<open>HashBlock\<close>, \<open>HashMd5\<close> (\<^verbatim>\<open>nc_hashkit.h\<close>): the hashes of keys;
    \<open>NcServerPool\<close> (\<^verbatim>\<open>nc_hashkit.cpp\<close>, \<^verbatim>\<open>nc_server.h\<close>): the choice of a server.
  \<^item> \<open>NcRbTree\<close>, \<open>NcRbInsert\<close>, \<open>NcRbFix\<close>, \<open>NcRbRemove\<close> (\<^verbatim>\<open>nc_rbtree.h\<close>): the tree of timeouts, over a
    heap of nodes, insertion and removal.
  \<^item> \<open>NcEvent\<close> (\<^verbatim>\<open>nc_event.h\<close>, \<^verbatim>\<open>nc_epoll.cpp\<close>) and \<open>NcKqueue\<close> (\<^verbatim>\<open>nc_kqueue.cpp\<close>).
  \<^item> \<open>NcStore\<close>: the record \<open>world\<close>, that is \<open>NcContext\<close> with its pools, the messages, mbufs and
    connections by number (fresh numbers for \<^verbatim>\<open>new\<close>), the kernel and the static counters.
  \<^item> \<open>NcMessage\<close>, \<open>NcClient\<close>, \<open>NcServerConn\<close>, \<open>NcProxy\<close>, \<open>NcConnection\<close> (the sources of these
    names): the handlers, as functions from \<open>world\<close> to \<open>world option\<close>.
  \<^item> \<open>NcConf\<close> (\<^verbatim>\<open>nc_conf.h\<close>, \<^verbatim>\<open>nc_conf.cpp\<close>), \<open>NcCore\<close> (\<^verbatim>\<open>nc_core.cpp\<close>, \<open>setConf\<close>), \<open>NcMain\<close>
    (\<^verbatim>\<open>nc.cpp\<close>).
  \<^item> \<open>NcConfSpec\<close>, \<open>NcCoreSpec\<close>, \<open>NcFlow\<close>, \<open>NcPipeline\<close>, \<open>NcService\<close>, \<open>NcRecycle\<close>:
    specifications and proofs about the above.

  \<^bold>\<open>How behaviour is written.\<close> State is passed explicitly. A crash or undefined behaviour (a null
  or dangling pointer, a write outside of a block, an overflow of \<^verbatim>\<open>int\<close>) is \<open>None\<close>; an error the
  code reports is a status or a flag of the state, as in the source. Integers keep their width as
  words where the code can reach the limits. The virtual functions are dispatched on the kind of
  the connection. Memory that a constructor does not initialise is a parameter.

  \<^bold>\<open>The kernel.\<close> Each descriptor has a list of answers to \<^verbatim>\<open>recv\<close> (\<open>os_read\<close>) and to \<^verbatim>\<open>send\<close>
  (\<open>os_write\<close>): data, partial counts and errors in any order; an empty list means nothing to
  read and, for writing, that everything is taken. \<open>os_sent\<close> records the bytes that were taken.
  Other calls return what the lists \<open>w_sys\<close> and \<open>os_ctl\<close> say, 0 at their end. All theorems hold for
  every script their hypotheses admit.

  \<^bold>\<open>Loops.\<close> A loop over data is a function with a measure. A loop that the code need not leave
  (\<open>send_loop\<close>, \<open>parse_loop\<close>, \<open>begin_loop\<close>, the walks through a tree) is a \<^verbatim>\<open>partial_function\<close> on
  options, \<open>None\<close> being no result; theorems about them state that there is one. The loop of the
  instance runs over a list of answers of the event base and leaves with its failure. There is
  no fuel. The bounds of the code are kept: \<open>NC_IOV_MAX\<close>, \<open>SSIZE_MAX\<close>, the chunk of an mbuf with
  its header, the line of the log, and the counter of the parser stub, which is why some
  theorems ask that it stay below \<^verbatim>\<open>2^31\<close>.

  \<^bold>\<open>What the lemmas show.\<close>
  \<^item> \<open>NcFlow\<close>: each callback on connections with any queues: reading and forwarding a request
    (\<open>request_read\<close>), writing it under partial writes (\<open>request_written\<close>), pairing a response
    (\<open>response_read\<close>), writing any number of responses (\<open>responses_written\<close>), and their
    composition (\<open>transaction_served\<close>).
  \<^item> \<open>NcPipeline\<close>: an abstract proxy (\<open>pipe\<close>, \<open>pipe_step\<close>) and the simulation: each event is a step
    of it (\<open>event_is_step\<close>), so orders hold for every run (\<open>pipeline_order\<close>) and no event fails
    (\<open>pipeline_events\<close>); last, what happens outside of its precondition, with two requests to
    be written at once.
  \<^item> \<open>NcConfSpec\<close>: addresses are parsed as they are printed; the machine over the events of
    a file builds the pools its entries describe, for every configuration. \<open>NcCoreSpec\<close>: what
    \<open>createContext\<close> links and copies. \<open>NcService\<close>: options, file, context, acceptance
    and one round trip in one theorem.
  \<^item> \<open>NcRecycle\<close>: a client that fails with requests under way leaves its queue to the next
    client, so the pipeline goes on with the wrong descriptor (\<open>client_replaced\<close>).
  \<^item> \<open>NcRbInsert\<close>: insertion keeps order and colours and follows no null pointer, with the tree
    and its context as a zipper. \<open>NcRbFix\<close>: the loop that restores the colours after a removal.
    \<open>NcRbRemove\<close>: removal keeps the colours, and the order unless the node has two children, when
    the first node of the tree takes its place; the tree is a queue of timeouts (locale
    \<open>timeouts\<close>). \<open>NcRbTree\<close>: minimum and maximum.
  \<^item> \<open>HashMd5\<close>: any split into updates gives the digest of the whole. \<open>HashCrc\<close>: the tables compute
    the bitwise division (locale \<open>crc_table\<close>). \<open>HashFnv\<close>, \<open>HashBlock\<close>: agreement with the
    published forms and between the alignments.
  \<^item> \<open>NcQueue\<close>: queues and pools are first-in-first-out (locale \<open>fifo\<close>) and a pool never hands
    out an object twice. \<open>NcKqueue\<close>: both event bases keep the interest of the kernel in step with
    the flags of the connection (locale \<open>event_base\<close>).
  \<^item> \<open>NcUtil\<close>, \<open>NcMbuf\<close>, \<open>NcString\<close>, \<open>NcLog\<close>, \<open>NcSys\<close>, \<open>NcServerPool\<close>: the functional
    behaviour of the operations, with their bounds and errors.

  \<^bold>\<open>Not modelled.\<close> The allocation wrappers and the BSD queue macros (the latter unused), printing
  (usage, version, \<open>dump\<close>; \<open>stacktrace\<close> is empty), the log calls inside the handlers, the Lua
  class (never used) and the tests. libyaml, \<^verbatim>\<open>getopt_long\<close>, \<^verbatim>\<open>getaddrinfo\<close> and the system are
  parameters; the other libraries under \<^verbatim>\<open>deps/\<close> are not called. The world holds one
  context, so \<open>main\<close> is modelled for a configuration of at most one pool.
\<close>

section \<open>A small world for the witnesses\<close>

definition demo_conn :: "connkind \<Rightarrow> int \<Rightarrow> nat list \<Rightarrow> nat list \<Rightarrow> conn" where
  "demo_conn k sd ins outs = (conn_new k)\<lparr>c_sd := sd, c_owner := Some 0, c_imsg_q := ins, c_omsg_q := outs\<rparr>"

text \<open>Connection 1 is a client on descriptor 7, connection 2 the one to the server, on 8.\<close>

definition demo_server :: server where
  "demo_server = (server_example 0)\<lparr>sv_conn_q := [Some 2], sv_ns_conn_q := 1\<rparr>"

definition demo_pool :: spool where
  "demo_pool = (spool_example [demo_server])\<lparr>sp_key_hash_type := 1, sp_dist_type := 0\<rparr>"

definition demo_world :: "conn \<Rightarrow> conn \<Rightarrow> (int \<Rightarrow> recv_reply list) \<Rightarrow> (int \<Rightarrow> send_reply list) \<Rightarrow> world" where
  "demo_world c s ins outs = \<lparr>w_os = os_new\<lparr>os_read := ins, os_write := outs\<rparr>, w_st = statics_init, w_testi = 0,
     w_mbufs = (\<lambda>_. \<lparr>b_data = [], b_pos = 0, b_last = 0, b_end = 0, b_chunk = 0\<rparr>), w_nmbuf = 0,
     w_msgs = (\<lambda>_. msg_new), w_nmsg = 0, w_conns = (\<lambda>i. if i = 1 then c else s), w_nconn = 3,
     w_mbuf_pool = pool_new, w_msg_pool = pool_new, w_c_pool = pool_new, w_s_pool = pool_new,
     w_p_pool = pool_new, w_rb = rbtree_default (\<lambda>_. rbnode_new), w_sp = demo_pool, w_max_nfd = 0, w_max_ncconn = 0,
     w_max_nsconn = 0, w_junk = (\<lambda>_. 0), w_rand = 0, w_gai = (\<lambda>_ _. (0, [(2, 16, [1, 2])])), w_sys = []\<rparr>"

lemmas demo_defs = demo_world_def demo_conn_def demo_pool_def demo_server_def spool_example_def server_example_def
  conn_new_def conn_reset_def connbase_reset_def os_new_def statics_init_def pool_new_def rbtree_default_def rbnode_new_def
  msg_new_def

lemma demo_routed: "routed 2 demo_pool"
  by (simp add: routed_def demo_pool_def demo_server_def spool_example_def server_example_def kDIST_RANDOM_def)

section \<open>The life of a request\<close>

text \<open>C1. The events of one round trip, dispatched by the event base, carry a request from the
  client to the server and its response back: the kernel is given exactly the bytes of the
  request on the descriptor of the server and then exactly those of the response on that of the
  client; all queues are empty again, and both messages and both mbufs are back in their pools.\<close>
theorem round_trip_served:
  assumes "at_rest c s w" "fresh_pools w"
    and "os_read (w_os w) (c_sd (w_conns w c)) = Data req # rs" "req \<noteq> []"
      "length req + MBUF_HSIZE < unat (st_chunk (w_st w))"
    and "os_read (w_os w) (c_sd (w_conns w s)) = Data rsp # rs'" "rsp \<noteq> []"
      "length rsp + MBUF_HSIZE < unat (st_chunk (w_st w))"
    and "os_write (w_os w) (c_sd (w_conns w c)) = []" "os_write (w_os w) (c_sd (w_conns w s)) = []"
    and "0 \<le> w_testi w" "w_testi w + 2 < 2 ^ 31"
  shows "\<exists>w'. ev_dispatch on_event (round_trip c s) w = Some w' \<and> at_rest c s w'
    \<and> os_sent (w_os w') = (os_sent (w_os w))
        (c_sd (w_conns w s) := os_sent (w_os w) (c_sd (w_conns w s)) @ req,
         c_sd (w_conns w c) := os_sent (w_os w) (c_sd (w_conns w c)) @ rsp)
    \<and> p_queue (w_msg_pool w') = [w_nmsg w + 1, w_nmsg w] \<and> p_queue (w_mbuf_pool w') = [w_nmbuf w + 1, w_nmbuf w]"
  using transaction_served [OF assms] .

definition demo_trip :: world where
  "demo_trip = demo_world (demo_conn CLIENT 7 [] []) (demo_conn SERVER 8 [] [])
     (\<lambda>sd. if sd = 7 then [Data [1, 2]] else [Data [3]]) (\<lambda>_. [])"

lemma demo_trip_rest: "at_rest 1 2 demo_trip" "fresh_pools demo_trip"
  using demo_routed by (simp_all add: at_rest_def fresh_pools_def demo_trip_def demo_defs idle_client_def idle_server_def
      empty_tree_def)

theorem round_trip_served_witness:
  "\<exists>w'. ev_dispatch on_event (round_trip 1 2) demo_trip = Some w' \<and> os_sent (w_os w') 8 = [1, 2] \<and> os_sent (w_os w') 7 = [3]"
  using round_trip_served [OF demo_trip_rest, of "[1, 2]" "[]" "[3]" "[]"]
  by (auto simp: demo_trip_def demo_defs MBUF_HSIZE_def)


text \<open>The client 1 sends two requests before the server 2 answers the first.\<close>

definition demo_pipeline :: world where
  "demo_pipeline = demo_world (demo_conn CLIENT 7 [] []) (demo_conn SERVER 8 [] [])
     (\<lambda>sd. if sd = 7 then [Data [1, 2], Data [5]] else [Data [3], Data [4]]) (\<lambda>_. [])"

lemma demo_pipeline_ready: "pipe_ready 2 {1} demo_pipeline"
  using demo_routed by (simp add: pipe_ready_def calm_def fresh_pools_def demo_pipeline_def demo_defs idle_client_def idle_server_def
      empty_tree_def)

lemma demo_pipeline_run: "\<exists>w. served 2 {1} demo_pipeline w \<and> os_read (w_os w) 7 = [] \<and> os_read (w_os w) 8 = []"
proof -
  have sd: "c_sd (w_conns demo_pipeline 1) = 7" "c_sd (w_conns demo_pipeline 2) = 8" "w_testi demo_pipeline = 0"
    "st_chunk (w_st demo_pipeline) = 10240" "os_write (w_os demo_pipeline) = (\<lambda>_. [])"
    "os_read (w_os demo_pipeline) = (\<lambda>sd. if sd = 7 then [Data [1, 2], Data [5]] else [Data [3], Data [4]])"
    by (simp_all add: demo_pipeline_def demo_defs)
  obtain f where "holds 2 {1} f demo_pipeline" "pipe_empty = pipe_of f (sent pipe_empty)"
    using pipe_ready_rel [OF demo_pipeline_ready] by (auto simp: pipe_rel_def)
  then have h: "holds 2 {1} ([], [], []) demo_pipeline" by (cases f) (auto simp: pipe_empty_def)
  obtain j1 w1 where w1: "served 2 {1} demo_pipeline w1" "holds 2 {1} ([], [j1], []) w1" "same_sds demo_pipeline w1" "w_testi w1 = 1"
    "os_read (w_os w1) = (os_read (w_os demo_pipeline))(7 := [Data [5]])" "os_write (w_os w1) = (\<lambda>_. [])"
    using run_request [OF h, of 1 "[1, 2]" "[Data [5]]"] sd by (auto simp: MBUF_HSIZE_def)
  then obtain j2 w2 where w2: "served 2 {1} w1 w2" "holds 2 {1} ([], [j1, j2], []) w2" "same_sds w1 w2" "w_testi w2 = 2"
    "os_read (w_os w2) = (os_read (w_os w1))(7 := [])"
    using run_request [OF w1(2), of 1 "[5]" "[]"] sd by (auto simp: MBUF_HSIZE_def same_sds_def)
  then obtain r1 w3 where w3: "served 2 {1} w2 w3" "holds 2 {1} ([(j1, r1)], [j2], []) w3" "same_sds w2 w3" "w_testi w3 = 3"
    "os_read (w_os w3) = (os_read (w_os w2))(8 := [Data [4]])"
    using run_response [OF w2(2), of "[3]" "[Data [4]]"] sd w1 by (auto simp: MBUF_HSIZE_def same_sds_def)
  then obtain r2 w4 where w4: "served 2 {1} w3 w4" "os_read (w_os w4) = (os_read (w_os w3))(8 := [])"
    using run_response [OF w3(2), of "[4]" "[]"] sd w1 w2 by (auto simp: MBUF_HSIZE_def same_sds_def)
  have "served 2 {1} demo_pipeline w4"
    using served_trans [OF w4(1) served_trans [OF w3(1) served_trans [OF w2(1) w1(1)]]] .
  moreover have "os_read (w_os w4) 7 = []" "os_read (w_os w4) 8 = []" using w2(5) w3(5) w4(2) by simp_all
  ultimately show ?thesis by blast
qed




text \<open>C5. A client with any number of answered requests, under any mixture of partial writes,
  interruptions and refusals: the responses go out in the order of the requests and byte by
  byte; what is left is a suffix of the requests with what is left of their responses, the
  others are released; and nothing is left when the kernel takes everything.\<close>
theorem responses_in_order:
  assumes "answered as qs c w" "\<forall>r\<in>set (os_write (w_os w) (c_sd (w_conns w c))). good_reply r"
  shows "\<exists>w' as'. conn_callback c EVENT_WRITE w = Some (NC_OK, w') \<and> answered as' qs c w' \<and> client_frame c w w'
     \<and> os_sent (w_os w') (c_sd (w_conns w c)) @ pending as' = os_sent (w_os w) (c_sd (w_conns w c)) @ pending as
     \<and> map request_of as' = drop (length as - length as') (map request_of as)
     \<and> released (take (length as - length as') as) w w'
     \<and> (os_write (w_os w) (c_sd (w_conns w c)) = [] \<longrightarrow> as' = [])"
  using responses_written [OF assms] by (auto simp: wrote_answers_def)

text \<open>Two answered requests (0 and 1 with the responses 2 and 3), a partial write and a refusal.\<close>

definition demo_answers :: world where
  "demo_answers = (demo_world (demo_conn CLIENT 7 [] [0, 1]) (demo_conn SERVER 8 [] []) (\<lambda>_. [])
     (\<lambda>sd. if sd = 7 then [Sent 1, SErr EINTR, Sent 9, SErr EAGAIN] else []))
     \<lparr>w_msgs := (\<lambda>i. msg_new\<lparr>m_peer := Some (if i < 2 then i + 2 else i - 2), m_mlen := 2,
        m_mbuf_q := (if i < 2 then [] else [i])\<rparr>),
      w_mbufs := (\<lambda>i. \<lparr>b_data = [of_nat i, 5] @ replicate MBUF_HSIZE 0, b_pos = 0, b_last = 2, b_end = 2,
        b_chunk = of_nat (2 + MBUF_HSIZE)\<rparr>)\<rparr>"

theorem responses_in_order_witness:
  "\<exists>w' as'. conn_callback 1 EVENT_WRITE demo_answers = Some (NC_OK, w')
    \<and> os_sent (w_os w') 7 @ pending as' = [2, 5, 3, 5]"
proof -
  let ?as = "[(0, 2, 2, [2, 5]), (1, 3, 3, [3, 5])]"
  have "answered ?as [] 1 demo_answers"
    by (simp add: answered_def waiting_def demo_answers_def demo_defs idle_client_def paired_def separate_def loaded_def
        carries_def answer_defs empty_tree_def mbuf_ok_def mbuf_bytes_def MBUF_HSIZE_def)
  from responses_in_order [OF this] show ?thesis
    by (auto simp: demo_answers_def demo_defs good_reply_def pending_def answer_defs)
qed

text \<open>C8. The request at the head of a server connection is written for any sequence of partial
  writes and interruptions: the kernel gets a prefix of it, byte by byte; a complete request
  moves to the queue of requests that wait for a response, an incomplete one stays at the head
  with the rest of its bytes. When the kernel takes everything, all of it is sent.\<close>
theorem request_sent:
  assumes "idle_server (w_conns w s)" "c_imsg_q (w_conns w s) = [m]" "os_ctl (w_os w) = []"
    and "carries (w_msgs w m) b req (w_mbufs w)" "req \<noteq> []" "\<not> m_noreply (w_msgs w m)"
    and "\<forall>r\<in>set (os_write (w_os w) (c_sd (w_conns w s))). good_reply r"
  shows "\<exists>n w'. conn_callback s EVENT_WRITE w = Some (NC_OK, w') \<and> n \<le> length req
    \<and> os_sent (w_os w') = (os_sent (w_os w))(c_sd (w_conns w s) := os_sent (w_os w) (c_sd (w_conns w s)) @ take n req)
    \<and> mbuf_bytes (w_mbufs w' b) = drop n req \<and> idle_server (w_conns w' s)
    \<and> (if n = length req then c_imsg_q (w_conns w' s) = [] \<and> c_omsg_q (w_conns w' s) = c_omsg_q (w_conns w s) @ [m]
       else c_imsg_q (w_conns w' s) = [m] \<and> c_omsg_q (w_conns w' s) = c_omsg_q (w_conns w s))
    \<and> (\<forall>x. x \<noteq> s \<longrightarrow> w_conns w' x = w_conns w x) \<and> w_msgs w' = w_msgs w
    \<and> (os_write (w_os w) (c_sd (w_conns w s)) = [] \<longrightarrow> n = length req)"
proof -
  obtain n cn x k where r: "conn_callback s EVENT_WRITE w
      = Some (NC_OK, w\<lparr>w_conns := (w_conns w)(s := cn), w_os := k, w_mbufs := (w_mbufs w)(b := x)\<rparr>)"
    "server_wrote m req (w_conns w s) (w_os w) n cn k x" "os_write (w_os w) (c_sd (w_conns w s)) = [] \<longrightarrow> n = length req"
    using request_written [OF assms] by blast
  show ?thesis
    by (rule exI [of _ n], rule exI, rule conjI, rule r(1)) (use r(2,3) in \<open>auto simp: server_wrote_def\<close>)
qed

definition demo_request :: world where
  "demo_request = (demo_world (demo_conn CLIENT 7 [] [0]) (demo_conn SERVER 8 [0] []) (\<lambda>_. [])
     (\<lambda>sd. if sd = 8 then [Sent 1, SErr EINTR] else []))
     \<lparr>w_msgs := (\<lambda>i. msg_new\<lparr>m_mlen := 2, m_mbuf_q := [i]\<rparr>),
      w_mbufs := (\<lambda>i. \<lparr>b_data = [4, 5] @ replicate MBUF_HSIZE 0, b_pos = 0, b_last = 2, b_end = 2,
        b_chunk = of_nat (2 + MBUF_HSIZE)\<rparr>)\<rparr>"

theorem request_sent_witness:
  "\<exists>n w'. conn_callback 2 EVENT_WRITE demo_request = Some (NC_OK, w') \<and> os_sent (w_os w') 8 = take n [4, 5]
    \<and> mbuf_bytes (w_mbufs w' 0) = drop n [4, 5]"
proof -
  have "idle_server (w_conns demo_request 2)" "c_imsg_q (w_conns demo_request 2) = [0]" "os_ctl (w_os demo_request) = []"
    "carries (w_msgs demo_request 0) 0 [4, 5] (w_mbufs demo_request)" "[4, 5] \<noteq> ([] :: bytes)" "\<not> m_noreply (w_msgs demo_request 0)"
    "\<forall>r\<in>set (os_write (w_os demo_request) (c_sd (w_conns demo_request 2))). good_reply r"
    by (simp_all add: demo_request_def demo_defs idle_server_def carries_def mbuf_ok_def mbuf_bytes_def MBUF_HSIZE_def good_reply_def)
  from request_sent [OF this] obtain n w' where
    "conn_callback 2 EVENT_WRITE demo_request = Some (NC_OK, w')" "mbuf_bytes (w_mbufs w' 0) = drop n [4, 5]"
    "os_sent (w_os w') = (os_sent (w_os demo_request))(c_sd (w_conns demo_request 2) :=
       os_sent (w_os demo_request) (c_sd (w_conns demo_request 2)) @ take n [4, 5])" by blast
  moreover have "os_sent (w_os demo_request) 8 = []" "c_sd (w_conns demo_request 2) = 8"
    by (simp_all add: demo_request_def demo_defs)
  ultimately show ?thesis by (intro exI [of _ n] exI [of _ w']) simp
qed

text \<open>C9. When two requests wait for the same server, writing them garbles both: \<open>sendChain\<close> fills
  its array of \<open>NC_IOV_MAX\<close> entries with the bytes of the first, once for each time the
  second is named again by \<open>sendNext\<close>, so the server gets the first request \<open>NC_IOV_MAX\<close> times and the second
  never; yet both are taken for sent and wait for a response.\<close>
theorem two_requests_garbled:
  assumes "idle_server (w_conns w s)" "c_imsg_q (w_conns w s) = [m, m']" "m \<noteq> m'" "b \<noteq> b'" "os_ctl (w_os w) = []"
    and "carries (w_msgs w m) b bs (w_mbufs w)" "bs \<noteq> []" "\<not> m_noreply (w_msgs w m)"
    and "carries (w_msgs w m') b' bs' (w_mbufs w)" "bs' \<noteq> []" "\<not> m_noreply (w_msgs w m')"
    and "os_write (w_os w) (c_sd (w_conns w s)) = []" "length bs' \<le> (NC_IOV_MAX - 1) * length bs"
  shows "\<exists>w'. conn_callback s EVENT_WRITE w = Some (NC_OK, w')
    \<and> os_sent (w_os w') = (os_sent (w_os w))
        (c_sd (w_conns w s) := os_sent (w_os w) (c_sd (w_conns w s)) @ concat (replicate NC_IOV_MAX bs))
    \<and> c_imsg_q (w_conns w' s) = [] \<and> c_omsg_q (w_conns w' s) = c_omsg_q (w_conns w s) @ [m, m']"
  by (rule two_requests_sent [OF assms])

definition demo_two :: world where
  "demo_two = demo_request\<lparr>w_conns := (w_conns demo_request)(2 := demo_conn SERVER 8 [0, 1] []),
     w_os := (w_os demo_request)\<lparr>os_write := (\<lambda>_. [])\<rparr>\<rparr>"

theorem two_requests_garbled_witness:
  "\<exists>w'. conn_callback 2 EVENT_WRITE demo_two = Some (NC_OK, w') \<and> os_sent (w_os w') 8 = concat (replicate 128 [4, 5])
    \<and> c_imsg_q (w_conns w' 2) = [] \<and> c_omsg_q (w_conns w' 2) = [0, 1]"
proof -
  have "os_sent (w_os demo_two) 8 = []" "c_sd (w_conns demo_two 2) = 8" "c_omsg_q (w_conns demo_two 2) = []" "(128::nat) = NC_IOV_MAX"
    by (simp_all add: demo_two_def demo_request_def demo_defs NC_IOV_MAX_def)
  moreover have "\<exists>w'. conn_callback 2 EVENT_WRITE demo_two = Some (NC_OK, w')
    \<and> os_sent (w_os w') = (os_sent (w_os demo_two))(c_sd (w_conns demo_two 2) :=
        os_sent (w_os demo_two) (c_sd (w_conns demo_two 2)) @ concat (replicate NC_IOV_MAX [4, 5]))
    \<and> c_imsg_q (w_conns w' 2) = [] \<and> c_omsg_q (w_conns w' 2) = c_omsg_q (w_conns demo_two 2) @ [0, 1]"
    by (rule two_requests_garbled [where b = 0 and b' = 1 and bs' = "[4, 5]"])
      (simp_all add: demo_two_def demo_request_def demo_defs idle_server_def carries_def mbuf_ok_def mbuf_bytes_def
        MBUF_HSIZE_def NC_IOV_MAX_def)
  ultimately show ?thesis by auto
qed


text \<open>The client on 7 asks and fails with the error 104, the next one comes on 9 at the connection 3.\<close>

definition demo_lost :: world where
  "demo_lost = demo_trip\<lparr>w_conns := (w_conns demo_trip)(3 := demo_conn PROXY 5 [] []), w_nconn := 4, w_max_ncconn := 1,
     w_sys := [0, 104, 0, 9]\<rparr>"


text \<open>C6. A request read from a client becomes a message that carries exactly the bytes read and
  knows its client; it is the last of the requests the client waits for and the last of those
  to be sent to the server the pool routes to, and if nothing was to be sent there before, the
  event base now watches that descriptor for output.\<close>
theorem request_forwarded:
  assumes "idle_client (w_conns w c)" "idle_server (w_conns w s)" "routed s (w_sp w)"
    and "p_queue (w_mbuf_pool w) = []" "p_queue (w_msg_pool w) = []"
    and "os_read (w_os w) (c_sd (w_conns w c)) = Data req # rs" "req \<noteq> []" "os_ctl (w_os w) = []"
    and "length req + MBUF_HSIZE < unat (st_chunk (w_st w))"
    and "0 \<le> w_testi w" "w_testi w + 1 < 2 ^ 31"
  shows "\<exists>w'. conn_callback c EVENT_READ w = Some (NC_OK, w')
    \<and> carries (w_msgs w' (w_nmsg w)) (w_nmbuf w) req (w_mbufs w') \<and> m_peer (w_msgs w' (w_nmsg w)) = None
    \<and> rb_data (rb_nodes (w_rb w') (w_nmsg w)) = Some c
    \<and> c_omsg_q (w_conns w' c) = c_omsg_q (w_conns w c) @ [w_nmsg w]
    \<and> c_imsg_q (w_conns w' s) = c_imsg_q (w_conns w s) @ [w_nmsg w] \<and> c_omsg_q (w_conns w' s) = c_omsg_q (w_conns w s)
    \<and> os_read (w_os w') = (os_read (w_os w))(c_sd (w_conns w c) := rs) \<and> os_sent (w_os w') = os_sent (w_os w)
    \<and> (\<forall>x. x \<noteq> c \<and> x \<noteq> s \<longrightarrow> w_conns w' x = w_conns w x) \<and> (\<forall>x. x \<noteq> w_nmsg w \<longrightarrow> w_msgs w' x = w_msgs w x)
    \<and> (out_synced (w_conns w s) (w_os w) \<and> c_imsg_q (w_conns w s) = [] \<longrightarrow> out_armed (c_sd (w_conns w' s)) (w_os w'))"
proof -
  have "c \<noteq> s" using idle_clientD [OF assms(1)] idle_serverD [OF assms(2)] by auto
  then show ?thesis
    using request_read [OF assms] by (elim exE conjE) (auto simp: quiet_os_def)
qed

theorem request_forwarded_witness:
  "\<exists>w'. conn_callback 1 EVENT_READ demo_trip = Some (NC_OK, w') \<and> mbuf_bytes (w_mbufs w' 0) = [1, 2]
    \<and> c_imsg_q (w_conns w' 2) = [0]"
  using request_forwarded [of demo_trip 1 2 "[1, 2]" "[]"] demo_routed
  by (auto simp: demo_trip_def demo_defs idle_client_def idle_server_def MBUF_HSIZE_def carries_def)


definition demo_response :: world where
  "demo_response = (demo_world (demo_conn CLIENT 7 [] [0]) (demo_conn SERVER 8 [] [0]) (\<lambda>_. [Data [9]]) (\<lambda>_. []))
     \<lparr>w_nmsg := 1, w_rb := rbtree_default (\<lambda>_. rbnode_new\<lparr>rb_data := Some 1\<rparr>)\<rparr>"


text \<open>C17. An mbuf that comes back from its pool is full (its write mark is at the end), so the
  next request for which it is taken cannot be read: the read of no bytes is taken for the end
  of the stream and the connection of the client is closed, its request unread.\<close>
theorem recycled_mbuf_closes_client:
  assumes "idle_client (w_conns w c)" "c_omsg_q (w_conns w c) = []" "0 \<le> c_sd (w_conns w c)"
    and "p_queue (w_mbuf_pool w) = b # bs" "w_mbufs w b = mbuf_reset x" "mbuf_ok x"
    and "p_queue (w_msg_pool w) = m # ms" "m_mbuf_q (w_msgs w m) = []" "m_peer (w_msgs w m) = None"
      "rb_left (rb_nodes (w_rb w) m) = None" "rb_parent (rb_nodes (w_rb w) m) = None" "empty_tree (w_rb w)"
  shows "\<exists>w'. conn_callback c EVENT_READ w = Some (NC_ERROR, w') \<and> c_sd (w_conns w' c) = - 1
    \<and> c_owner (w_conns w' c) = None \<and> os_sent (w_os w') = os_sent (w_os w) \<and> os_read (w_os w') = os_read (w_os w)"
  by (rule recycled_request_closed [OF assms])

definition demo_recycled :: world where
  "demo_recycled = (demo_world (demo_conn CLIENT 7 [] []) (demo_conn SERVER 8 [] []) (\<lambda>_. [Data [1, 2]]) (\<lambda>_. []))
     \<lparr>w_mbuf_pool := pool_free (Some 0) pool_new, w_msg_pool := pool_free (Some 0) pool_new,
      w_mbufs := (\<lambda>_. mbuf_reset \<lparr>b_data = [4, 5] @ replicate MBUF_HSIZE 0, b_pos = 2, b_last = 2, b_end = 2,
        b_chunk = of_nat (2 + MBUF_HSIZE)\<rparr>)\<rparr>"

theorem recycled_mbuf_closes_client_witness:
  "\<exists>w'. conn_callback 1 EVENT_READ demo_recycled = Some (NC_ERROR, w') \<and> c_sd (w_conns w' 1) = - 1
    \<and> os_read (w_os w') 7 = [Data [1, 2]]"
proof -
  have "mbuf_ok \<lparr>b_data = [4, 5] @ replicate MBUF_HSIZE 0, b_pos = 2, b_last = 2, b_end = 2, b_chunk = of_nat (2 + MBUF_HSIZE)\<rparr>"
    by (simp add: mbuf_ok_def MBUF_HSIZE_def)
  from recycled_mbuf_closes_client [of demo_recycled 1 0 "[]", OF _ _ _ _ _ this, of 0 "[]"] show ?thesis
    by (auto simp: demo_recycled_def demo_defs idle_client_def pool_free_def empty_tree_def)
qed

section \<open>From the configuration to the context\<close>

definition demo_gai :: "bytes \<Rightarrow> int \<Rightarrow> int \<times> (int \<times> nat \<times> bytes) list" where
  "demo_gai name port = (0, [(2, 16, [1, 2])])"

definition demo_listen :: conf_listen where
  "demo_listen = \<lparr>cl_pname = str_new, cl_name = str_of [0x61], cl_port = 80, cl_perm = 0,
     cl_info = \<lparr>si_family = 2, si_addrlen = 16, si_addr = No_addr\<rparr>, cl_valid = 1\<rparr>"

definition demo_cserver :: conf_server where
  "demo_cserver = conf_listen.extend demo_listen \<lparr>cs_weight = 1, cs_addrstr = str_new\<rparr>"

definition demo_junk_pool :: conf_pool where
  "demo_junk_pool = \<lparr>cp_name = str_new, cp_listen = demo_listen, cp_hash_tag = str_new, cp_distribution = 7,
     cp_timeout = 7, cp_backlog = 7, cp_client_connections = 7, cp_tcpkeepalive = 7, cp_preconnect = 7,
     cp_auto_eject_hosts = 7, cp_server_connections = 7, cp_server_retry_timeout = 7, cp_server_failure_limit = 7,
     cp_server = [], cp_valid = 7\<rparr>"

definition demo_env :: env where
  "demo_env = \<lparr>e_gai = demo_gai, e_pool = (\<lambda>_. demo_junk_pool), e_server = (\<lambda>_. demo_cserver)\<rparr>"

lemmas demo_conf_defs = demo_gai_def demo_listen_def demo_cserver_def conf_server.defs demo_junk_pool_def demo_env_def

lemma demo_resolve:
  "c \<noteq> 47 \<Longrightarrow> ncResolve demo_gai (Some (c # host)) port si = (0, si\<lparr>si_family := 2, si_addrlen := 16, si_addr := Inet [1, 2]\<rparr>)"
  by (simp add: ncResolve_def demo_gai_def)

text \<open>C11. Reading a configuration file gives one pool per top-level name, each with the defaults
  and the effect of its entries in their order, whatever the number of pools, entries and list
  items: on the events the YAML library makes of a configuration the machine computes exactly
  this meaning, and uses up the events.\<close>
theorem parsed_pools:
  assumes "config_ok ps" "0 \<le> seek"
  shows "parseProcess e (snd (conf_openFile True name (map Some (config_events ps)) (conf_new seek True)))
    = map_option (\<lambda>qs. (NC_OK, (conf_new seek True)\<lparr>cf_fname := Some name, cf_fh := True, cf_pool := qs,
        cf_parsed := True\<rparr>)) (pools_of e ps [])"
  by (rule parseProcess_config [OF assms])

definition demo_config :: config where
  "demo_config = [([0x70], [(listen_key, Scalar [0x61, 58, 0x38]), (servers_key, Items [[0x62, 58, 0x39, 58, 0x31], [0x63]])])]"

lemma demo_config_ok: "config_ok demo_config"
  by (simp add: demo_config_def config_ok_def scalar_ok_def good_text_def entry_ok_def listen_key_def servers_key_def)

theorem parsed_pools_witness:
  "parseProcess demo_env (snd (conf_openFile True [] (map Some (config_events demo_config)) (conf_new 0 True)))
    = map_option (\<lambda>qs. (NC_OK, (conf_new 0 True)\<lparr>cf_fname := Some [], cf_fh := True, cf_pool := qs, cf_parsed := True\<rparr>))
        (pools_of demo_env demo_config [])"
  by (rule parsed_pools [OF demo_config_ok]) simp


text \<open>A pool with a timeout of 9 in its configuration.\<close>

definition demo_timeout :: config where
  "demo_timeout = [([0x70], [([0x74, 0x69, 0x6d, 0x65, 0x6f, 0x75, 0x74], Scalar [0x39])])]"


text \<open>C13. Printing a host and a port and parsing the line as a listening address gives them
  back, for every host that is no path and every valid port, when the host resolves.\<close>
theorem listen_parse_print:
  assumes "str_repr v (host @ 58 # dec_print n)" "host \<noteq> []" "hd host \<noteq> 47" "1 \<le> n" "n \<le> 65535"
    and "ncResolve gai (Some host) (int n) (cl_info l) = (0, info)"
  shows "\<exists>pn nm. conf_listen_parse gai v l = Some (NC_OK, l\<lparr>cl_port := int n, cl_pname := pn, cl_name := nm,
      cl_info := info, cl_valid := 1\<rparr>) \<and> str_repr pn (host @ 58 # dec_print n) \<and> str_repr nm host"
  by (rule listen_roundtrip [OF assms])

theorem listen_parse_print_witness:
  "\<exists>l. conf_listen_parse demo_gai (str_of ([0x61, 0x62] @ 58 # dec_print 8080)) demo_listen = Some (NC_OK, l)
    \<and> cl_port l = 8080 \<and> str_repr (cl_name l) [0x61, 0x62]"
proof -
  have "str_repr (str_of ([0x61, 0x62] @ 58 # dec_print 8080)) ([0x61, 0x62] @ 58 # dec_print 8080)"
    by (rule str_of_repr) (auto simp: good_text_def dec_print.simps)
  from listen_parse_print [OF this _ _ _ _ demo_resolve [where si = "cl_info demo_listen"]] show ?thesis by auto
qed

text \<open>C14. The same for a server with a weight: host, port and weight come back.\<close>
theorem server_parse_print:
  assumes "str_repr v (host @ 58 # dec_print n @ 58 # dec_print k)" "host \<noteq> []" "hd host \<noteq> 47"
    and "1 \<le> n" "n \<le> 65535" "k < 2 ^ 31" "ncResolve gai (Some host) (int n) (cl_info l) = (0, info)"
  shows "\<exists>pn nm. conf_server_parse gai v l = Some (NC_OK, l\<lparr>cl_port := int n, cs_weight := int k, cl_pname := pn,
      cl_name := nm, cl_info := info, cl_valid := 1\<rparr>)
    \<and> str_repr pn (host @ 58 # dec_print n @ 58 # dec_print k) \<and> str_repr nm host"
  by (rule server_roundtrip [OF assms])

theorem server_parse_print_witness:
  "\<exists>l. conf_server_parse demo_gai (str_of ([0x61] @ 58 # dec_print 80 @ 58 # dec_print 10)) demo_cserver = Some (NC_OK, l)
    \<and> cl_port l = 80 \<and> cs_weight l = 10 \<and> str_repr (cl_name l) [0x61]"
proof -
  have "str_repr (str_of ([0x61] @ 58 # dec_print 80 @ 58 # dec_print 10)) ([0x61] @ 58 # dec_print 80 @ 58 # dec_print 10)"
    by (rule str_of_repr) (auto simp: good_text_def dec_print.simps)
  from server_parse_print [OF this _ _ _ _ _ demo_resolve [where si = "cl_info demo_cserver"]] show ?thesis by auto
qed



text \<open>C15. The search for the first mapping of a configuration file ends exactly when the
  library reports an error or a mapping: on a file without one, such as the empty file, the
  program reads empty events for ever.\<close>
theorem parse_begin_ends:
  assumes "0 \<le> cf_seek cf" "cf_init cf"
  shows "parseBegin cf \<noteq> None \<longleftrightarrow> (\<exists>ev\<in>set (cf_parser cf). ev = None \<or> ev = Some MAPPING_START_EVENT)"
  by (rule parseBegin_ends [OF assms])

theorem parse_begin_ends_witness:
  "parseBegin ((conf_new 0 True)\<lparr>cf_parser := [Some STREAM_START_EVENT, Some STREAM_END_EVENT]\<rparr>) = None"
proof -
  have "\<not> parseBegin ((conf_new 0 True)\<lparr>cf_parser := [Some STREAM_START_EVENT, Some STREAM_END_EVENT]\<rparr>) \<noteq> None"
    by (subst parse_begin_ends) (simp_all add: conf_new_def)
  then show ?thesis by blast
qed

text \<open>C12. A context that is made has one connection per configured server, and server and
  connection point at each other; it has a listening connection; the servers carry the names,
  ports and weights of the configuration in its order; the pools of messages and mbufs are
  empty, and the connections that existed before and the tree of timeouts are as they were.\<close>
theorem context_made:
  assumes "createContext chunk jsp jsv cp w = Some (True, w')"
  shows "map server_static (sp_server (w_sp w')) = map static_of (cp_server cp)
    \<and> (\<forall>i<length (cp_server cp). server_linked w' i (w_nconn w + i))
    \<and> sp_p_conn (w_sp w') = Some (w_nconn w + length (cp_server cp))
    \<and> c_kind (w_conns w' (w_nconn w + length (cp_server cp))) = PROXY
    \<and> c_owner (w_conns w' (w_nconn w + length (cp_server cp))) = Some 0
    \<and> sp_timeout (w_sp w') = cp_timeout cp \<and> sp_backlog (w_sp w') = cp_backlog cp
    \<and> sp_server_retry_timeout (w_sp w') = cp_server_retry_timeout cp * 1000
    \<and> fresh_pools w' \<and> w_rb w' = w_rb w \<and> (\<forall>x<w_nconn w. w_conns w' x = w_conns w x) \<and> (0 < chunk \<longrightarrow> st_chunk (w_st w') = chunk)"
proof -
  have r: "context_ready cp jsp jsv w w'" "0 < chunk \<longrightarrow> st_chunk (w_st w') = chunk"
    using createContext_ok [OF assms] by simp_all
  then have sp: "w_sp w' = (spool_setConf jsv cp (spool_new jsp))\<lparr>sp_server := sp_server (w_sp w'),
      sp_p_conn := Some (w_nconn w + length (cp_server cp))\<rparr>" by (simp add: context_ready_def)
  have "sp_p_conn (w_sp w') = Some (w_nconn w + length (cp_server cp))" "sp_timeout (w_sp w') = cp_timeout cp"
    "sp_backlog (w_sp w') = cp_backlog cp" "sp_server_retry_timeout (w_sp w') = cp_server_retry_timeout cp * 1000"
    by (subst sp; simp add: spool_setConf_def)+
  with r show ?thesis by (simp add: context_ready_def)
qed

definition demo_cpool :: conf_pool where
  "demo_cpool = (conf_pool_new demo_junk_pool)\<lparr>cp_server := [demo_cserver]\<rparr>"

definition demo_before :: world where
  "demo_before = (demo_world (demo_conn CLIENT 7 [] []) (demo_conn SERVER 8 [] [])
     (\<lambda>sd. if sd = 7 then [Data [1, 2]] else [Data [3]]) (\<lambda>_. []))\<lparr>w_sys := [0, 1024, 8] @ replicate 10 0 @ [7]\<rparr>"

definition demo_after :: "(bool \<times> world) option" where
  "demo_after = createContext 10240 demo_pool (\<lambda>_. server_example 0) demo_cpool demo_before"

lemma demo_after_run: "case demo_after of None \<Rightarrow> False | Some (made, w) \<Rightarrow> made"
  by code_simp

theorem context_made_witness:
  "\<exists>w. createContext 10240 demo_pool (\<lambda>_. server_example 0) demo_cpool demo_before = Some (True, w)
    \<and> server_linked w 0 3 \<and> sp_p_conn (w_sp w) = Some 4 \<and> st_chunk (w_st w) = 10240"
proof -
  obtain w where w: "createContext 10240 demo_pool (\<lambda>_. server_example 0) demo_cpool demo_before = Some (True, w)"
    using demo_after_run by (auto simp: demo_after_def split: option.splits)
  have n: "length (cp_server demo_cpool) = 1" "w_nconn demo_before = 3"
    by (simp_all add: demo_cpool_def conf_pool_new_def demo_before_def demo_world_def)
  show ?thesis using context_made [OF w] w unfolding n by (intro exI [of _ w]) simp
qed


definition demo_inst :: inst where
  "demo_inst = \<lparr>i_log_level = 0, i_log_filename = [], i_conf_filename = [], i_stats_port = 0, i_stats_interval = 0,
     i_stats_addr = [], i_hostname = [], i_mbuf_chunk_size = 0, i_pid = 0, i_pid_filename = None, i_pidfile = False\<rparr>"

text \<open>The configuration \<open>p: servers: [b:9:1]\<close>; every call succeeds.\<close>

definition demo_one :: config where
  "demo_one = [([0x70], [(servers_key, Items [[0x62, 58, 0x39, 58, 0x31]])])]"

definition demo_start :: start where
  "demo_start = \<lparr>a_env = demo_env, a_fopen = True, a_events = map Some (config_events demo_one), a_seek = 0, a_init = True,
     a_opens = (\<lambda>_. 1), a_kernel = (\<lambda>_ _. 0), a_pid = 1, a_sigaction = (\<lambda>_. 0)\<rparr>"

definition demo_memory :: memory where
  "demo_memory = \<lparr>k_inst = demo_inst, k_spool = demo_pool, k_server = (\<lambda>_. server_example 0)\<rparr>"

lemma demo_options:
  "case ncGetOptions [] (ncSetDefaultOptions None demo_inst, flags_init) of None \<Rightarrow> False
   | Some (st, i, f) \<Rightarrow> st = NC_OK \<and> \<not> s_show_version f \<and> \<not> s_test_conf f \<and> \<not> s_daemonize f \<and> i_mbuf_chunk_size i = 16384"
  by code_simp

lemma demo_service_run:
  "case pools_of demo_env demo_one [] of None \<Rightarrow> False
   | Some qs \<Rightarrow> (case qs of [cp] \<Rightarrow> length (cp_server cp) = 1
       \<and> (case createContext 16384 demo_pool (\<lambda>_. server_example 0) cp demo_before of None \<Rightarrow> False
          | Some (made, w) \<Rightarrow> made \<and> server_answers 3 8 w \<and> one_waits 4 7 w
            \<and> os_read (w_os w) 7 = [Data [1, 2]] \<and> os_read (w_os w) 8 = [Data [3]]
            \<and> os_write (w_os w) 7 = [] \<and> os_write (w_os w) 8 = [] \<and> os_sent (w_os w) 7 = [] \<and> os_sent (w_os w) 8 = [])
     | _ \<Rightarrow> False)"
  by code_simp


text \<open>C16. When the listening connection of a context cannot be set up, the connection is put
  into its pool, deleted, and deleted once more with the pool: there is no orderly failure.\<close>
theorem listener_failure:
  assumes "calcConnections (context_new chunk jsp jsv cp w) = (NC_OK, w1)"
    and "createServerConn w1 = Some (NC_OK, del, w2)" "createProxyConn w2 = Some (st, del', w3)" "st \<noteq> NC_OK"
  shows "createContext chunk jsp jsv cp w = None"
  by (rule createContext_listen_fails [OF assms])

text \<open>A configuration without servers, and a listening socket that cannot be made.\<close>

definition demo_no_socket :: world where
  "demo_no_socket = (demo_world (demo_conn CLIENT 7 [] []) (demo_conn SERVER 8 [] []) (\<lambda>_. []) (\<lambda>_. []))\<lparr>w_sys := [0, 1024, - 1]\<rparr>"

lemma demo_no_socket_run:
  "case calcConnections (context_new 0 demo_pool (\<lambda>_. server_example 0) (conf_pool_new demo_junk_pool) demo_no_socket) of (st, w1) \<Rightarrow>
     st = NC_OK \<and> (case createServerConn w1 of None \<Rightarrow> False | Some (st, del, w2) \<Rightarrow>
       st = NC_OK \<and> (case createProxyConn w2 of None \<Rightarrow> False | Some (st, del', w3) \<Rightarrow> st \<noteq> NC_OK))"
  by code_simp

theorem listener_failure_witness:
  "createContext 0 demo_pool (\<lambda>_. server_example 0) (conf_pool_new demo_junk_pool) demo_no_socket = None"
proof -
  obtain w1 del w2 st del' w3 where
    "calcConnections (context_new 0 demo_pool (\<lambda>_. server_example 0) (conf_pool_new demo_junk_pool) demo_no_socket) = (NC_OK, w1)"
    "createServerConn w1 = Some (NC_OK, del, w2)" "createProxyConn w2 = Some (st, del', w3)" "st \<noteq> NC_OK"
    using demo_no_socket_run by (auto split: prod.splits option.splits)
  then show ?thesis by (rule listener_failure)
qed


lemma demo_options_run:
  "ncGetOptions [Opt_s [50, 50], Opt_m [49]] (ncSetDefaultOptions None demo_inst, flags_init) \<noteq> None"
  by code_simp


end
